(* ===== verification/Toy_Prelude.thy ===== *)
theory Toy_Prelude
  imports
    Main
    "HOL-Library.Word"
    "HOL-Library.State_Monad"
    "HOL-Library.Signed_Division"
begin

unbundle bit_operations_syntax

text \<open>
  What every component shares.

  \<^item> Machine integers: the \<^verbatim>\<open>int\<close>, \<^verbatim>\<open>s32\<close> and \<^verbatim>\<open>unsigned int\<close> of the C sources are 32 bit
    words; \<open>sint\<close> reads the signed value.  Return codes that are only compared are \<open>int\<close>.
  \<^item> Programs that call out of the repository (the kernel, the C library, a device): a program is
    a state transformer of HOL-Library's state monad over a record that extends \<open>io\<close>.  The
    record keeps the list of the calls made so far together with the value each one returned,
    oldest first.  What a call returns is decided by the parameter \<open>E\<close> of type \<open>env\<close>, a function of
    everything that was called before: no behaviour of foreign code is fixed by a definition.
  \<^item> Runs of handlers and their invariants, as a locale that the components instantiate.
\<close>

named_theorems exec_simps \<open>symbolic execution of programs\<close>
named_theorems led_simps \<open>what a program does to the output levels\<close>
named_theorems frame_simps \<open>what a program leaves alone\<close>

section \<open>Machine integers\<close>

type_synonym u8 = "8 word"
type_synonym u16 = "16 word"
type_synonym u32 = "32 word"
type_synonym u64 = "64 word"
type_synonym s32 = "32 word"

text \<open>The C operator \<^verbatim>\<open>!\<close>, and the C division and remainder of signed ints (towards zero).\<close>

definition c_not :: "s32 \<Rightarrow> s32" where
  "c_not x = (if x = 0 then 1 else 0)"

definition c_div :: "s32 \<Rightarrow> s32 \<Rightarrow> s32" where
  "c_div a b = word_of_int (sint a sdiv sint b)"

definition c_mod :: "s32 \<Rightarrow> s32 \<Rightarrow> s32" where
  "c_mod a b = word_of_int (sint a smod sint b)"

lemma c_not_neq_0 [simp]: "c_not x \<noteq> 0 \<longleftrightarrow> x = 0"
  by (simp add: c_not_def)

lemma c_not_eq_0 [simp]: "c_not x = 0 \<longleftrightarrow> x \<noteq> 0"
  by (simp add: c_not_def)

lemma sint_range32:
  fixes x :: s32
  shows "- (2 ^ 31) \<le> sint x \<and> sint x < 2 ^ 31"
  using sint_greater_eq [of x] sint_less [of x] by simp

lemma sint_of_int32:
  "- (2 ^ 31) \<le> k \<Longrightarrow> k < 2 ^ 31 \<Longrightarrow> sint (word_of_int k :: s32) = k"
  by (simp add: signed_of_int signed_take_bit_int_eq_self)

lemma sint_add32:
  fixes x y :: s32
  assumes "- (2 ^ 31) \<le> sint x + sint y" "sint x + sint y < 2 ^ 31"
  shows "sint (x + y) = sint x + sint y"
proof -
  have "x + y = word_of_int (sint x + sint y)" by simp
  with assms show ?thesis by (metis sint_of_int32)
qed

lemma sint_sub32:
  fixes x y :: s32
  assumes "- (2 ^ 31) \<le> sint x - sint y" "sint x - sint y < 2 ^ 31"
  shows "sint (x - y) = sint x - sint y"
proof -
  have "x - y = word_of_int (sint x - sint y)" by simp
  with assms show ?thesis by (metis sint_of_int32)
qed

lemma sint_mult32:
  fixes x y :: s32
  assumes "- (2 ^ 31) \<le> sint x * sint y" "sint x * sint y < 2 ^ 31"
  shows "sint (x * y) = sint x * sint y"
proof -
  have "x * y = word_of_int (sint x * sint y)" by simp
  with assms show ?thesis by (metis sint_of_int32)
qed

lemma sint_shr32:
  fixes x :: s32
  shows "sint (signed_drop_bit n x) = sint x div 2 ^ n"
  by (simp add: sint_signed_drop_bit_eq drop_bit_eq_div)

lemma sdiv_pos:
  fixes k l :: int
  shows "0 \<le> k \<Longrightarrow> 0 < l \<Longrightarrow> k sdiv l = k div l"
  by (cases "k = 0") (simp_all add: signed_divide_int_def)

lemma sdiv_neg:
  fixes k l :: int
  shows "k < 0 \<Longrightarrow> 0 < l \<Longrightarrow> k sdiv l = - ((- k) div l)"
  by (simp add: signed_divide_int_def)

lemma abs_sdiv_le:
  fixes k l :: int
  assumes "0 < l"
  shows "\<bar>k sdiv l\<bar> \<le> \<bar>k\<bar>"
proof -
  have "\<bar>k\<bar> div l \<le> \<bar>k\<bar>"
    using assms zdiv_mono2 [of "\<bar>k\<bar>" 1 l] by simp
  moreover have "0 \<le> \<bar>k\<bar> div l"
    using assms by (simp add: pos_imp_zdiv_nonneg_iff)
  ultimately show ?thesis
    using assms by (cases "0 \<le> k") (simp_all add: sdiv_pos sdiv_neg)
qed

section \<open>Request codes\<close>

text \<open>
  \<^verbatim>\<open>_IOW(type, nr, size)\<close> packs the direction, the size of the argument type, the type letter and
  the number into one word.  Both the driver and its clients compute their request codes with it.
\<close>

definition IOW :: "u32 \<Rightarrow> u32 \<Rightarrow> u32 \<Rightarrow> u32" where
  "IOW t nr sz = push_bit 30 1 OR push_bit 16 sz OR push_bit 8 t OR nr"

section \<open>Decimal numerals\<close>

text \<open>What \<^verbatim>\<open>printf\<close> writes for \<^verbatim>\<open>%d\<close> (and \<^verbatim>\<open>%u\<close>).\<close>

fun show_nat :: "nat \<Rightarrow> string" where
  "show_nat n = (if n < 10 then [char_of (48 + n)] else show_nat (n div 10) @ [char_of (48 + n mod 10)])"

declare show_nat.simps [simp del]

definition show_int :: "int \<Rightarrow> string" where
  "show_int k = (if k < 0 then CHR ''-'' # show_nat (nat (- k)) else show_nat (nat k))"

text \<open>What the scanning functions of C read back: a run of digits and its value.\<close>

definition is_digit :: "char \<Rightarrow> bool" where
  "is_digit c \<longleftrightarrow> 48 \<le> (of_char c :: nat) \<and> (of_char c :: nat) \<le> 57"

definition digits_value :: "string \<Rightarrow> nat" where
  "digits_value ds = foldl (\<lambda>n c. 10 * n + (of_char c - 48)) 0 ds"

lemma digit_char:
  assumes "d < 10"
  shows "is_digit (char_of (48 + d))" "of_char (char_of (48 + d)) = (48 + d :: nat)"
  using assms by (simp_all add: is_digit_def of_char_of)

lemma show_nat_digits: "list_all is_digit (show_nat n)"
proof (induction n rule: show_nat.induct)
  case (1 n)
  then show ?case
    by (subst show_nat.simps) (auto simp: digit_char)
qed

lemma show_nat_value: "digits_value (show_nat n) = n"
proof (induction n rule: show_nat.induct)
  case (1 n)
  then show ?case
    by (subst show_nat.simps) (auto simp: digits_value_def digit_char)
qed

lemma show_nat_not_Nil [simp]: "show_nat n \<noteq> []"
  by (subst show_nat.simps) simp

lemma takeWhile_digits:
  assumes "list_all is_digit ds" "\<not> is_digit c"
  shows "takeWhile is_digit (ds @ c # rest) = ds"
  using assms by (induction ds) simp_all

section \<open>Programs that call the outside\<close>

record 'c io =
  trace :: "('c \<times> int) list"

type_synonym 'c env = "('c \<times> int) list \<Rightarrow> 'c \<Rightarrow> int"

text \<open>\<open>invoke E c\<close> makes the call \<open>c\<close>, records it with its result, and returns the result.\<close>

definition invoke :: "'c env \<Rightarrow> 'c \<Rightarrow> (('c, 'r) io_scheme, int) state" where
  "invoke E c = State (\<lambda>s. let r = E (trace s) c in (r, s\<lparr>trace := trace s @ [(c, r)]\<rparr>))"

definition perform :: "'c env \<Rightarrow> 'c \<Rightarrow> (('c, 'r) io_scheme, unit) state" where
  "perform E c = do { _ \<leftarrow> invoke E c; State_Monad.return () }"

definition gets :: "('s \<Rightarrow> 'a) \<Rightarrow> ('s, 'a) state" where
  "gets f = State (\<lambda>s. (f s, s))"

definition modify :: "('s \<Rightarrow> 's) \<Rightarrow> ('s, unit) state" where
  "modify f = State (\<lambda>s. ((), f s))"

primrec for_each :: "('a \<Rightarrow> ('s, unit) state) \<Rightarrow> 'a list \<Rightarrow> ('s, unit) state" where
  "for_each f [] = State_Monad.return ()"
| "for_each f (x # xs) = do { f x; for_each f xs }"

abbreviation exec :: "('s, 'a) state \<Rightarrow> 's \<Rightarrow> 's" where
  "exec m s \<equiv> snd (run_state m s)"

abbreviation result :: "('s, 'a) state \<Rightarrow> 's \<Rightarrow> 'a" where
  "result m s \<equiv> fst (run_state m s)"

declare case_prod_beta [exec_simps]

lemma run_invoke [exec_simps]:
  "run_state (invoke E c) s = (E (trace s) c, s\<lparr>trace := trace s @ [(c, E (trace s) c)]\<rparr>)"
  by (simp add: invoke_def Let_def)

lemma run_perform [exec_simps]:
  "run_state (perform E c) s = ((), s\<lparr>trace := trace s @ [(c, E (trace s) c)]\<rparr>)"
  by (simp add: perform_def run_invoke)

lemma run_gets [exec_simps]: "run_state (gets f) s = (f s, s)"
  by (simp add: gets_def)

lemma run_modify [exec_simps]: "run_state (modify f) s = ((), f s)"
  by (simp add: modify_def)

lemma exec_bind:
  "exec (State_Monad.bind m f) s = exec (f (result m s)) (exec m s)"
  by (simp add: case_prod_beta)

lemma result_bind:
  "result (State_Monad.bind m f) s = result (f (result m s)) (exec m s)"
  by (simp add: case_prod_beta)

lemma run_unit:
  fixes m :: "('s, unit) state"
  shows "run_state m s = ((), exec m s)"
  by (simp add: prod_eq_iff)

text \<open>
  The shape of a program's effect on the trace: it only adds calls at the end.  Everything a later
  theorem reads off a trace is a fold over it, so these three rules carry those theorems.
\<close>

lemma exec_for_each_Nil [simp]: "exec (for_each f []) s = s"
  by simp

lemma exec_for_each_Cons [simp]: "exec (for_each f (x # xs)) s = exec (for_each f xs) (exec (f x) s)"
  by (simp add: case_prod_beta)

lemma for_each_invariant:
  assumes "P s" and "\<And>x s. x \<in> set xs \<Longrightarrow> P s \<Longrightarrow> P (exec (f x) s)"
  shows "P (exec (for_each f xs) s)"
  using assms by (induction xs arbitrary: s) (auto simp: case_prod_beta)

lemma for_each_fold:
  assumes "\<And>x s. F (exec (f x) s) = h x (F s)"
  shows "F (exec (for_each f xs) s) = fold h xs (F s)"
  using assms by (induction xs arbitrary: s) (simp_all add: case_prod_beta)

section \<open>Which calls a program makes\<close>

text \<open>
  \<open>emits C m\<close>: the program \<open>m\<close> only adds calls of the set \<open>C\<close> to the trace.  The rules follow the
  structure of programs, so the property is proved by \<open>intro\<close>; what a trace means (the level of a
  pin, the timers that are armed, the resources that are held) is a fold over it, and \<open>emits_fold\<close>
  says that a program leaves it alone when none of its calls matter to it.
\<close>

named_theorems emits_intros \<open>the calls of a program\<close>

definition emits :: "'c set \<Rightarrow> (('c, 'r) io_scheme, 'a) state \<Rightarrow> bool" where
  "emits C m \<longleftrightarrow> (\<forall>s. \<exists>cs. trace (exec m s) = trace s @ cs \<and> fst ` set cs \<subseteq> C)"

lemma emits_return [emits_intros]: "emits C (State_Monad.return x)"
  by (simp add: emits_def)

lemma emits_gets [emits_intros]: "emits C (gets f)"
  by (simp add: emits_def run_gets)

lemma emits_modify [emits_intros]: "(\<And>s. trace (f s) = trace s) \<Longrightarrow> emits C (modify f)"
  by (simp add: emits_def run_modify)

lemma emits_invoke [emits_intros]: "c \<in> C \<Longrightarrow> emits C (invoke E c)"
  by (simp add: emits_def run_invoke)

lemma emits_perform [emits_intros]: "c \<in> C \<Longrightarrow> emits C (perform E c)"
  by (simp add: emits_def run_perform)

lemma emits_bind [emits_intros]:
  assumes "emits C m" and "\<And>x. emits C (f x)"
  shows "emits C (State_Monad.bind m f)"
  unfolding emits_def
proof
  fix s
  obtain cs where cs: "trace (exec m s) = trace s @ cs" "fst ` set cs \<subseteq> C"
    using assms(1) by (meson emits_def)
  obtain ds where ds: "trace (exec (f (result m s)) (exec m s)) = trace (exec m s) @ ds"
      "fst ` set ds \<subseteq> C"
    using assms(2) by (meson emits_def)
  show "\<exists>es. trace (exec (State_Monad.bind m f) s) = trace s @ es \<and> fst ` set es \<subseteq> C"
    using cs ds by (intro exI [of _ "cs @ ds"]) (simp add: case_prod_beta image_Un)
qed

lemma emits_if [emits_intros]:
  "(b \<Longrightarrow> emits C m) \<Longrightarrow> (\<not> b \<Longrightarrow> emits C n) \<Longrightarrow> emits C (if b then m else n)"
  by simp

lemma emits_for_each [emits_intros]:
  "(\<And>x. x \<in> set xs \<Longrightarrow> emits C (f x)) \<Longrightarrow> emits C (for_each f xs)"
  by (induction xs) (auto intro!: emits_intros)

lemma emits_mono: "emits C m \<Longrightarrow> C \<subseteq> D \<Longrightarrow> emits D m"
  by (meson emits_def order_trans)

lemma emits_fold:
  assumes "emits C m" and "\<And>c r x. c \<in> C \<Longrightarrow> g (c, r) x = x"
  shows "fold g (trace (exec m s)) x = fold g (trace s) x"
proof -
  obtain cs where cs: "trace (exec m s) = trace s @ cs" "fst ` set cs \<subseteq> C"
    using assms(1) by (meson emits_def)
  have "fold g cs y = y" for y
    using cs(2) assms(2) by (induction cs) auto
  with cs(1) show ?thesis by simp
qed

text \<open>\<open>only_trace m\<close>: the program \<open>m\<close> changes nothing of the state but the trace.\<close>

named_theorems only_trace_intros \<open>programs without assignments\<close>

definition only_trace :: "(('c, 'r) io_scheme, 'a) state \<Rightarrow> bool" where
  "only_trace m \<longleftrightarrow> (\<forall>s. \<exists>t. exec m s = s\<lparr>trace := t\<rparr>)"

lemma only_traceE:
  assumes "only_trace m"
  obtains t where "exec m s = s\<lparr>trace := t\<rparr>"
  using assms unfolding only_trace_def by blast

lemma only_trace_return [only_trace_intros]: "only_trace (State_Monad.return x)"
  unfolding only_trace_def by (metis io.surjective io.update_convs(1) run_state_return snd_conv)

lemma only_trace_gets [only_trace_intros]: "only_trace (gets f)"
  unfolding only_trace_def by (metis io.surjective io.update_convs(1) run_gets snd_conv)

lemma only_trace_invoke [only_trace_intros]: "only_trace (invoke E c)"
  unfolding only_trace_def by (metis run_invoke snd_conv)

lemma only_trace_perform [only_trace_intros]: "only_trace (perform E c)"
  unfolding only_trace_def by (metis run_perform snd_conv)

lemma only_trace_bind [only_trace_intros]:
  assumes "only_trace m" "\<And>x. only_trace (f x)"
  shows "only_trace (State_Monad.bind m f)"
  unfolding only_trace_def
proof
  fix s
  obtain t where t: "exec m s = s\<lparr>trace := t\<rparr>"
    using assms(1) by (rule only_traceE)
  obtain u where "exec (f (result m s)) (s\<lparr>trace := t\<rparr>) = s\<lparr>trace := t\<rparr>\<lparr>trace := u\<rparr>"
    using assms(2) by (rule only_traceE)
  with t have "exec (State_Monad.bind m f) s = s\<lparr>trace := u\<rparr>"
    by (simp add: case_prod_beta)
  then show "\<exists>t. exec (State_Monad.bind m f) s = s\<lparr>trace := t\<rparr>" ..
qed

lemma only_trace_if [only_trace_intros]:
  "only_trace m \<Longrightarrow> only_trace n \<Longrightarrow> only_trace (if b then m else n)"
  by simp

lemma only_trace_for_each [only_trace_intros]:
  "(\<And>x. only_trace (f x)) \<Longrightarrow> only_trace (for_each f xs)"
  by (induction xs) (auto intro!: only_trace_intros)

section \<open>What a program leaves alone\<close>

text \<open>\<open>keeps g m\<close>: the program \<open>m\<close> leaves the part \<open>g\<close> of the state alone.\<close>

named_theorems keeps_intros \<open>programs that leave a part of the state alone\<close>

definition keeps :: "('s \<Rightarrow> 'b) \<Rightarrow> ('s, 'a) state \<Rightarrow> bool" where
  "keeps g m \<longleftrightarrow> (\<forall>s. g (exec m s) = g s)"

lemma keepsD: "keeps g m \<Longrightarrow> g (exec m s) = g s"
  by (simp add: keeps_def)

lemma keeps_return [keeps_intros]: "keeps g (State_Monad.return x)"
  by (simp add: keeps_def)

lemma keeps_gets [keeps_intros]: "keeps g (gets f)"
  by (simp add: keeps_def run_gets)

lemma keeps_modify [keeps_intros]: "(\<And>s. g (f s) = g s) \<Longrightarrow> keeps g (modify f)"
  by (simp add: keeps_def run_modify)

lemma keeps_invoke [keeps_intros]: "(\<And>s t. g (s\<lparr>trace := t\<rparr>) = g s) \<Longrightarrow> keeps g (invoke E c)"
  by (simp add: keeps_def run_invoke)

lemma keeps_perform [keeps_intros]: "(\<And>s t. g (s\<lparr>trace := t\<rparr>) = g s) \<Longrightarrow> keeps g (perform E c)"
  by (simp add: keeps_def run_perform)

lemma keeps_bind [keeps_intros]: "keeps g m \<Longrightarrow> (\<And>x. keeps g (f x)) \<Longrightarrow> keeps g (State_Monad.bind m f)"
  by (simp add: keeps_def case_prod_beta)

lemma keeps_if [keeps_intros]:
  "(b \<Longrightarrow> keeps g m) \<Longrightarrow> (\<not> b \<Longrightarrow> keeps g n) \<Longrightarrow> keeps g (if b then m else n)"
  by simp

lemma keeps_for_each [keeps_intros]:
  "(\<And>x. x \<in> set xs \<Longrightarrow> keeps g (f x)) \<Longrightarrow> keeps g (for_each f xs)"
  by (induction xs) (auto intro!: keeps_intros)

section \<open>Weakest preconditions\<close>

text \<open>
  For statements that hold whatever the outside answers.  Each call introduces a fresh answer, so
  the terms stay small however long the program is.
\<close>

named_theorems wp_intros \<open>weakest precondition rules\<close>

definition wp :: "('s, 'a) state \<Rightarrow> ('a \<Rightarrow> 's \<Rightarrow> bool) \<Rightarrow> 's \<Rightarrow> bool" where
  "wp m Q s \<longleftrightarrow> Q (result m s) (exec m s)"

lemma wp_bind [wp_intros]: "wp m (\<lambda>x. wp (f x) Q) s \<Longrightarrow> wp (State_Monad.bind m f) Q s"
  by (simp add: wp_def case_prod_beta)

lemma wp_return [wp_intros]: "Q x s \<Longrightarrow> wp (State_Monad.return x) Q s"
  by (simp add: wp_def)

lemma wp_gets [wp_intros]: "Q (f s) s \<Longrightarrow> wp (gets f) Q s"
  by (simp add: wp_def run_gets)

lemma wp_modify [wp_intros]: "Q () (f s) \<Longrightarrow> wp (modify f) Q s"
  by (simp add: wp_def run_modify)

lemma wp_invoke [wp_intros]:
  "(\<And>r t. t = trace s @ [(c, r)] \<Longrightarrow> Q r (s\<lparr>trace := t\<rparr>)) \<Longrightarrow> wp (invoke E c) Q s"
  by (simp add: wp_def run_invoke)

lemma wp_perform [wp_intros]:
  "(\<And>r t. t = trace s @ [(c, r)] \<Longrightarrow> Q () (s\<lparr>trace := t\<rparr>)) \<Longrightarrow> wp (perform E c) Q s"
  by (simp add: wp_def run_perform)

lemma wp_if [wp_intros]:
  "(b \<Longrightarrow> wp m Q s) \<Longrightarrow> (\<not> b \<Longrightarrow> wp n Q s) \<Longrightarrow> wp (if b then m else n) Q s"
  by simp

text \<open>The same with what is known of the answers to one call.\<close>

definition answers :: "'c env \<Rightarrow> 'c \<Rightarrow> int set" where
  "answers E c = range (\<lambda>h. E h c)"

lemma wp_invoke_answers:
  "(\<And>r t. r \<in> answers E c \<Longrightarrow> t = trace s @ [(c, r)] \<Longrightarrow> Q r (s\<lparr>trace := t\<rparr>)) \<Longrightarrow>
     wp (invoke E c) Q s"
  by (simp add: wp_def run_invoke answers_def)

section \<open>Runs of handlers\<close>

text \<open>
  A component that reacts to events is a partial function from an event and a state to the next
  state; \<open>None\<close> is an event that cannot occur there, or a handler that does not return.
\<close>

fun run_events :: "('e \<Rightarrow> 's \<Rightarrow> 's option) \<Rightarrow> 'e list \<Rightarrow> 's \<Rightarrow> 's option" where
  "run_events step [] s = Some s"
| "run_events step (e # es) s =
     (case step e s of None \<Rightarrow> None | Some s' \<Rightarrow> run_events step es s')"

lemma run_events_append:
  "run_events step (es @ fs) s =
     (case run_events step es s of None \<Rightarrow> None | Some s' \<Rightarrow> run_events step fs s')"
  by (induction es arbitrary: s) (auto split: option.splits)

text \<open>
  The contract of an invariant, and of the events under which it is kept.  Its lemma is the
  induction over runs that every component uses.
\<close>

locale kept_by =
  fixes step :: "'e \<Rightarrow> 's \<Rightarrow> 's option"
    and inv :: "'s \<Rightarrow> bool"
    and allowed :: "'e \<Rightarrow> bool"
  assumes step_keeps: "inv s \<Longrightarrow> allowed e \<Longrightarrow> step e s = Some s' \<Longrightarrow> inv s'"
begin

lemma run_keeps:
  "inv s \<Longrightarrow> list_all allowed es \<Longrightarrow> run_events step es s = Some s' \<Longrightarrow> inv s'"
proof (induction es arbitrary: s)
  case Nil
  then show ?case by simp
next
  case (Cons e es)
  from Cons.prems obtain t where t: "step e s = Some t" and run: "run_events step es t = Some s'"
    by (auto split: option.splits)
  from Cons.prems t have "inv t"
    by (auto intro: step_keeps)
  with Cons.prems run show ?case
    by (auto intro: Cons.IH)
qed

end

text \<open>A component whose handlers always return under the invariant answers every run.\<close>

locale total_under = kept_by +
  assumes step_returns: "inv s \<Longrightarrow> allowed e \<Longrightarrow> step e s \<noteq> None"
begin

lemma run_returns:
  "inv s \<Longrightarrow> list_all allowed es \<Longrightarrow> \<exists>s'. run_events step es s = Some s' \<and> inv s'"
proof (induction es arbitrary: s)
  case Nil
  then show ?case by simp
next
  case (Cons e es)
  then obtain t where t: "step e s = Some t"
    using step_returns [of s e] by auto
  with Cons.prems have "inv t"
    by (auto intro: step_keeps)
  with Cons t show ?case by auto
qed

end

end
