(* ===== verification/Kernel_Calls.thy ===== *)
theory Kernel_Calls
  imports Toy_Prelude
begin

text \<open>
  The kernel interface the four drivers of \<^verbatim>\<open>src/drivers\<close> call: the calls as a datatype, wrappers
  that carry the names of the C functions, and what a sequence of calls means.  The last is the
  documented contract of the kernel functions, kept apart from the drivers: \<open>level\<close> (the value last
  driven on a pin), \<open>armed\<close> (the high resolution timers that will fire), \<open>held\<close> (what was acquired
  and not given back).  What a call returns is always the parameter \<open>E\<close>.  Kernel log output
  (\<^verbatim>\<open>pr_info\<close>, \<^verbatim>\<open>pr_err\<close>) is not recorded.
\<close>

section \<open>The calls\<close>

datatype ktimer =
    MOTOR_1_HRTIMER | MOTOR_2_HRTIMER | SENSOR_HRTIMER
  | CLICK_TIMER | LED_ON_TIMER nat | LED_OFF_TIMER nat

datatype irq_trigger = IRQF_TRIGGER_RISING | IRQF_TRIGGER_FALLING

text \<open>Registration of a character device.\<close>

datatype module_call =
    AllocChrdevRegion string | UnregisterChrdevRegion
  | ClassCreate string | ClassDestroy int
  | DeviceCreate int string | DeviceDestroy int
  | CdevInit | CdevAdd | CdevDel

text \<open>GPIO pins and their interrupts.\<close>

datatype gpio_call =
    GpioRequest nat string | GpioDirectionOutput nat int | GpioDirectionInput nat
  | GpioSetValue nat int | GpioGetValue nat | GpioFree nat
  | GpioToIrq nat | GpioSetDebounce nat nat
  | RequestIrq int irq_trigger | FreeIrq int

text \<open>
  High resolution timers, and the jiffies timers.  \<open>TimerExpired\<close> is not a call of a driver: it
  marks the moment the kernel runs the callback of a jiffies timer.
\<close>

datatype timer_call =
    HrtimerInit ktimer | HrtimerSetFunction ktimer | HrtimerStart ktimer nat
  | HrtimerTryToCancel ktimer | HrtimerCancel ktimer | HrtimerActive ktimer
  | HrtimerForwardNow ktimer int
  | TimerSetup ktimer | ModTimer ktimer nat | DelTimer ktimer | TimerExpired ktimer

text \<open>User memory, threads and sleeping.\<close>

datatype task_call =
    CopyFromUser nat | CopyToUser nat
  | WakeUpInterruptible | KthreadCreate string | WakeUpProcess int
  | Msleep nat | UsleepRange nat nat

text \<open>The I2C bus.\<close>

datatype i2c_call =
    I2cGetAdapter nat | I2cNewClientDevice int | I2cAddDriver | I2cPutAdapter int
  | I2cSmbusReadByteData int nat | I2cSmbusReadWordData int nat
  | I2cSmbusWriteByteData int nat nat | I2cUnregisterDevice int | I2cDelDriver

text \<open>Kernel objects, sysfs and work queues.\<close>

datatype kobj_call =
    Kzalloc | KobjectInit int | KobjectAdd int string | KobjectPut int | Kfree int
  | SysfsNotify int string | CreateWorkqueue string | DestroyWorkqueue int | QueueWork int

datatype kcall =
    Module module_call | Gpio gpio_call | Timer timer_call | Task task_call
  | I2c i2c_call | Kobj kobj_call

type_synonym 'r kio = "(kcall, 'r) io_scheme"
type_synonym kenv = "kcall env"

abbreviation "alloc_chrdev_region E name \<equiv> invoke E (Module (AllocChrdevRegion name))"
abbreviation "unregister_chrdev_region E \<equiv> perform E (Module UnregisterChrdevRegion)"
abbreviation "class_create E name \<equiv> invoke E (Module (ClassCreate name))"
abbreviation "class_destroy E c \<equiv> perform E (Module (ClassDestroy c))"
abbreviation "device_create E c name \<equiv> invoke E (Module (DeviceCreate c name))"
abbreviation "device_destroy E c \<equiv> perform E (Module (DeviceDestroy c))"
abbreviation "cdev_init E \<equiv> perform E (Module CdevInit)"
abbreviation "cdev_add E \<equiv> invoke E (Module CdevAdd)"
abbreviation "cdev_del E \<equiv> perform E (Module CdevDel)"
abbreviation "gpio_request E p name \<equiv> invoke E (Gpio (GpioRequest p name))"
abbreviation "gpio_direction_output E p v \<equiv> invoke E (Gpio (GpioDirectionOutput p v))"
abbreviation "gpio_direction_input E p \<equiv> invoke E (Gpio (GpioDirectionInput p))"
abbreviation "gpio_set_value E p v \<equiv> perform E (Gpio (GpioSetValue p v))"
abbreviation "gpio_get_value E p \<equiv> invoke E (Gpio (GpioGetValue p))"
abbreviation "gpio_free E p \<equiv> perform E (Gpio (GpioFree p))"
abbreviation "gpio_to_irq E p \<equiv> invoke E (Gpio (GpioToIrq p))"
abbreviation "gpio_set_debounce E p ms \<equiv> perform E (Gpio (GpioSetDebounce p ms))"
abbreviation "request_irq E irq tr \<equiv> invoke E (Gpio (RequestIrq irq tr))"
abbreviation "free_irq E irq \<equiv> perform E (Gpio (FreeIrq irq))"
abbreviation "hrtimer_init E t \<equiv> perform E (Timer (HrtimerInit t))"
abbreviation "hrtimer_set_function E t \<equiv> perform E (Timer (HrtimerSetFunction t))"
abbreviation "hrtimer_start E t ms \<equiv> perform E (Timer (HrtimerStart t ms))"
abbreviation "hrtimer_try_to_cancel E t \<equiv> invoke E (Timer (HrtimerTryToCancel t))"
abbreviation "hrtimer_cancel E t \<equiv> invoke E (Timer (HrtimerCancel t))"
abbreviation "hrtimer_active E t \<equiv> invoke E (Timer (HrtimerActive t))"
abbreviation "hrtimer_forward_now E t ms \<equiv> perform E (Timer (HrtimerForwardNow t ms))"
abbreviation "timer_setup E t \<equiv> perform E (Timer (TimerSetup t))"
abbreviation "mod_timer E t ms \<equiv> perform E (Timer (ModTimer t ms))"
abbreviation "del_timer E t \<equiv> perform E (Timer (DelTimer t))"
abbreviation "copy_from_user E n \<equiv> invoke E (Task (CopyFromUser n))"
abbreviation "wake_up_interruptible E \<equiv> perform E (Task WakeUpInterruptible)"
abbreviation "kthread_create E name \<equiv> invoke E (Task (KthreadCreate name))"
abbreviation "wake_up_process E th \<equiv> perform E (Task (WakeUpProcess th))"
abbreviation "msleep E ms \<equiv> perform E (Task (Msleep ms))"
abbreviation "usleep_range E lo hi \<equiv> perform E (Task (UsleepRange lo hi))"
abbreviation "copy_to_user E n \<equiv> invoke E (Task (CopyToUser n))"
abbreviation "i2c_get_adapter E n \<equiv> invoke E (I2c (I2cGetAdapter n))"
abbreviation "i2c_put_adapter E a \<equiv> perform E (I2c (I2cPutAdapter a))"
abbreviation "i2c_new_client_device E a \<equiv> invoke E (I2c (I2cNewClientDevice a))"
abbreviation "i2c_unregister_device E c \<equiv> perform E (I2c (I2cUnregisterDevice c))"
abbreviation "i2c_add_driver E \<equiv> invoke E (I2c I2cAddDriver)"
abbreviation "i2c_del_driver E \<equiv> perform E (I2c I2cDelDriver)"
abbreviation "i2c_smbus_read_byte_data E c r \<equiv> invoke E (I2c (I2cSmbusReadByteData c r))"
abbreviation "i2c_smbus_read_word_data E c r \<equiv> invoke E (I2c (I2cSmbusReadWordData c r))"
abbreviation "i2c_smbus_write_byte_data E c r v \<equiv> perform E (I2c (I2cSmbusWriteByteData c r v))"
abbreviation "kzalloc E \<equiv> invoke E (Kobj Kzalloc)"
abbreviation "kfree E p \<equiv> perform E (Kobj (Kfree p))"
abbreviation "kobject_init E p \<equiv> perform E (Kobj (KobjectInit p))"
abbreviation "kobject_add E p name \<equiv> invoke E (Kobj (KobjectAdd p name))"
abbreviation "kobject_put E p \<equiv> perform E (Kobj (KobjectPut p))"
abbreviation "sysfs_notify E p name \<equiv> perform E (Kobj (SysfsNotify p name))"
abbreviation "create_workqueue E name \<equiv> invoke E (Kobj (CreateWorkqueue name))"
abbreviation "destroy_workqueue E w \<equiv> perform E (Kobj (DestroyWorkqueue w))"
abbreviation "queue_work E w \<equiv> perform E (Kobj (QueueWork w))"

section \<open>What a sequence of calls means\<close>

text \<open>The value last driven on a pin, \<open>None\<close> when the pin was never driven.\<close>

fun gpio_level :: "gpio_call \<Rightarrow> int \<Rightarrow> (nat \<rightharpoonup> int) \<Rightarrow> (nat \<rightharpoonup> int)" where
  "gpio_level (GpioSetValue p v) r m = m(p \<mapsto> v)"
| "gpio_level (GpioDirectionOutput p v) r m = (if r = 0 then m(p \<mapsto> v) else m)"
| "gpio_level _ r m = m"

fun level_step :: "kcall \<times> int \<Rightarrow> (nat \<rightharpoonup> int) \<Rightarrow> (nat \<rightharpoonup> int)" where
  "level_step (Gpio g, r) m = gpio_level g r m"
| "level_step _ m = m"

definition level :: "(kcall \<times> int) list \<Rightarrow> nat \<rightharpoonup> int" where
  "level h = fold level_step h Map.empty"

text \<open>
  The timers that will fire.  \<^verbatim>\<open>hrtimer_try_to_cancel\<close> answers -1 when the callback is running,
  and the timer is then left as it is; \<^verbatim>\<open>hrtimer_cancel\<close> waits for the callback instead.
\<close>

fun timer_armed :: "timer_call \<Rightarrow> int \<Rightarrow> ktimer set \<Rightarrow> ktimer set" where
  "timer_armed (HrtimerStart t _) r A = insert t A"
| "timer_armed (HrtimerTryToCancel t) r A = (if r = -1 then A else A - {t})"
| "timer_armed (HrtimerCancel t) r A = A - {t}"
| "timer_armed _ r A = A"

fun armed_step :: "kcall \<times> int \<Rightarrow> ktimer set \<Rightarrow> ktimer set" where
  "armed_step (Timer c, r) A = timer_armed c r A"
| "armed_step _ A = A"

definition armed :: "(kcall \<times> int) list \<Rightarrow> ktimer set" where
  "armed h = fold armed_step h {}"

text \<open>
  The jiffies timers that are pending: \<^verbatim>\<open>mod_timer\<close> makes one pending, \<^verbatim>\<open>del_timer\<close> and running out
  make it idle again.
\<close>

fun timer_pending :: "timer_call \<Rightarrow> ktimer set \<Rightarrow> ktimer set" where
  "timer_pending (ModTimer t _) P = insert t P"
| "timer_pending (DelTimer t) P = P - {t}"
| "timer_pending (TimerExpired t) P = P - {t}"
| "timer_pending _ P = P"

fun pending_step :: "kcall \<times> int \<Rightarrow> ktimer set \<Rightarrow> ktimer set" where
  "pending_step (Timer c, r) P = timer_pending c P"
| "pending_step _ P = P"

definition pending :: "(kcall \<times> int) list \<Rightarrow> ktimer set" where
  "pending h = fold pending_step h {}"

text \<open>
  What the module owns: acquired by a call that succeeded, not yet given back.  A pointer is a
  positive number; 0 is \<^verbatim>\<open>NULL\<close> and a negative number an error pointer (\<^verbatim>\<open>ERR_PTR\<close>), and the
  functions that give a class or device back ignore both.  (The kernel ignores a null class and an error
  pointer in \<^verbatim>\<open>class_destroy\<close>, but \<^verbatim>\<open>device_create\<close> and \<^verbatim>\<open>device_destroy\<close> dereference an error pointer; that crash is not modelled.)
\<close>

datatype resource =
    RChrdev | RClass | RDevice | RCdev | RGpio nat | RIrq int
  | RI2cAdapter | RI2cClient | RI2cDriver | RKmem | RKobject | RWorkqueue

fun module_held :: "module_call \<Rightarrow> int \<Rightarrow> resource set \<Rightarrow> resource set" where
  "module_held (AllocChrdevRegion _) r R = (if r < 0 then R else insert RChrdev R)"
| "module_held UnregisterChrdevRegion r R = R - {RChrdev}"
| "module_held (ClassCreate _) r R = (if r \<le> 0 then R else insert RClass R)"
| "module_held (ClassDestroy c) r R = (if c \<le> 0 then R else R - {RClass})"
| "module_held (DeviceCreate c _) r R = (if c \<le> 0 \<or> r \<le> 0 then R else insert RDevice R)"
| "module_held (DeviceDestroy c) r R = (if c \<le> 0 then R else R - {RDevice})"
| "module_held CdevInit r R = R"
| "module_held CdevAdd r R = (if r = 0 then insert RCdev R else R)"
| "module_held CdevDel r R = R - {RCdev}"

fun gpio_held :: "gpio_call \<Rightarrow> int \<Rightarrow> resource set \<Rightarrow> resource set" where
  "gpio_held (GpioRequest p _) r R = (if r = 0 then insert (RGpio p) R else R)"
| "gpio_held (GpioFree p) r R = R - {RGpio p}"
| "gpio_held (RequestIrq i _) r R = (if r = 0 then insert (RIrq i) R else R)"
| "gpio_held (FreeIrq i) r R = R - {RIrq i}"
| "gpio_held _ r R = R"

fun i2c_held :: "i2c_call \<Rightarrow> int \<Rightarrow> resource set \<Rightarrow> resource set" where
  "i2c_held (I2cGetAdapter _) r R = (if r \<le> 0 then R else insert RI2cAdapter R)"
| "i2c_held (I2cPutAdapter a) r R = R - {RI2cAdapter}"
| "i2c_held (I2cNewClientDevice _) r R = (if r \<le> 0 then R else insert RI2cClient R)"
| "i2c_held (I2cUnregisterDevice c) r R = (if c \<le> 0 then R else R - {RI2cClient})"
| "i2c_held I2cAddDriver r R = (if r = 0 then insert RI2cDriver R else R)"
| "i2c_held I2cDelDriver r R = R - {RI2cDriver}"
| "i2c_held _ r R = R"

fun kobj_held :: "kobj_call \<Rightarrow> int \<Rightarrow> resource set \<Rightarrow> resource set" where
  "kobj_held Kzalloc r R = (if r \<le> 0 then R else insert RKmem R)"
| "kobj_held (Kfree p) r R = (if p \<le> 0 then R else R - {RKmem})"
| "kobj_held (KobjectAdd p _) r R = (if r = 0 then insert RKobject R else R)"
| "kobj_held (KobjectPut p) r R = R - {RKobject}"
| "kobj_held (CreateWorkqueue _) r R = (if r \<le> 0 then R else insert RWorkqueue R)"
| "kobj_held (DestroyWorkqueue w) r R = R - {RWorkqueue}"
| "kobj_held _ r R = R"

fun held_step :: "kcall \<times> int \<Rightarrow> resource set \<Rightarrow> resource set" where
  "held_step (Module c, r) R = module_held c r R"
| "held_step (Gpio c, r) R = gpio_held c r R"
| "held_step (I2c c, r) R = i2c_held c r R"
| "held_step (Kobj c, r) R = kobj_held c r R"
| "held_step _ R = R"

definition held :: "(kcall \<times> int) list \<Rightarrow> resource set" where
  "held h = fold held_step h {}"

lemmas trace_meaning = level_def armed_def held_def pending_def

lemma level_Nil [simp]: "level [] = Map.empty"
  and armed_Nil [simp]: "armed [] = {}"
  and held_Nil [simp]: "held [] = {}"
  and pending_Nil [simp]: "pending [] = {}"
  by (simp_all add: trace_meaning)

lemma level_append [simp]: "level (h @ es) = fold level_step es (level h)"
  and armed_append [simp]: "armed (h @ es) = fold armed_step es (armed h)"
  and held_append [simp]: "held (h @ es) = fold held_step es (held h)"
  and pending_append [simp]: "pending (h @ es) = fold pending_step es (pending h)"
  by (simp_all add: trace_meaning)

lemma emits_level:
  assumes "emits C m" and "\<And>c r x. c \<in> C \<Longrightarrow> level_step (c, r) x = x"
  shows "level (trace (exec m s)) = level (trace s)"
  unfolding level_def using assms by (rule emits_fold)

lemma emits_armed:
  assumes "emits C m" and "\<And>c r x. c \<in> C \<Longrightarrow> armed_step (c, r) x = x"
  shows "armed (trace (exec m s)) = armed (trace s)"
  unfolding armed_def using assms by (rule emits_fold)

lemma emits_held:
  assumes "emits C m" and "\<And>c r x. c \<in> C \<Longrightarrow> held_step (c, r) x = x"
  shows "held (trace (exec m s)) = held (trace s)"
  unfolding held_def using assms by (rule emits_fold)

section \<open>Copying from user space\<close>

text \<open>
  \<^verbatim>\<open>copy_from_user(kbuf, buf, count)\<close> into a fixed kernel buffer: it answers the number of bytes it
  could not copy, the others are in place.  The drivers pass the count of the caller on unchecked;
  \<open>None\<close> is the case where it runs past the end of the kernel buffer.
\<close>

definition copy_in :: "kenv \<Rightarrow> u8 list \<Rightarrow> u8 list \<Rightarrow> ('r kio, u8 list option) state" where
  "copy_in E kbuf buf = do {
     left \<leftarrow> copy_from_user E (length buf);
     State_Monad.return
       (let n = length buf - nat left in
        if length buf \<le> length kbuf then Some (take n buf @ drop n kbuf) else None) }"

section \<open>Contracts the drivers share\<close>

text \<open>
  A bank of LEDs: the two macros of a driver that drive a group of pins to 1 and to 0 and touch
  nothing else.
\<close>

locale led_bank =
  fixes on :: "('r kio, unit) state"
    and off :: "('r kio, unit) state"
    and pins :: "nat set"
  assumes on_emits: "emits ((\<lambda>p. Gpio (GpioSetValue p 1)) ` pins) on"
    and off_emits: "emits ((\<lambda>p. Gpio (GpioSetValue p 0)) ` pins) off"
    and on_level: "level (trace (exec on s)) = (\<lambda>p. if p \<in> pins then Some 1 else level (trace s) p)"
    and off_level: "level (trace (exec off s)) = (\<lambda>p. if p \<in> pins then Some 0 else level (trace s) p)"
begin

lemma on_armed: "armed (trace (exec on s)) = armed (trace s)"
  by (rule emits_armed [OF on_emits]) auto

lemma off_armed: "armed (trace (exec off s)) = armed (trace s)"
  by (rule emits_armed [OF off_emits]) auto

lemma on_held: "held (trace (exec on s)) = held (trace s)"
  by (rule emits_held [OF on_emits]) auto

lemma off_held: "held (trace (exec off s)) = held (trace s)"
  by (rule emits_held [OF off_emits]) auto

lemmas bank_effects = on_level off_level on_armed off_armed on_held off_held

end

text \<open>
  Two banks on different pins, as every driver has them: lighting one and clearing the other, in
  either order, leaves exactly one bank lit.
\<close>

locale led_pair =
  l: led_bank lon loff lpins + r: led_bank ron roff rpins
  for lon loff :: "('r kio, unit) state" and lpins
    and ron roff :: "('r kio, unit) state" and rpins +
  assumes disjoint: "lpins \<inter> rpins = {}"
begin

lemma light_left:
  "level (trace (exec roff (exec lon s))) p =
     (if p \<in> lpins then Some 1 else if p \<in> rpins then Some 0 else level (trace s) p)"
  using disjoint by (auto simp: l.on_level r.off_level)

lemma light_right:
  "level (trace (exec ron (exec loff s))) p =
     (if p \<in> lpins then Some 0 else if p \<in> rpins then Some 1 else level (trace s) p)"
  using disjoint by (auto simp: l.off_level r.on_level)

lemma light_right':
  "level (trace (exec loff (exec ron s))) p =
     (if p \<in> lpins then Some 0 else if p \<in> rpins then Some 1 else level (trace s) p)"
  using disjoint by (auto simp: l.off_level r.on_level)

lemma light_left':
  "level (trace (exec lon (exec roff s))) p =
     (if p \<in> lpins then Some 1 else if p \<in> rpins then Some 0 else level (trace s) p)"
  using disjoint by (auto simp: l.on_level r.off_level)

lemma dark:
  "level (trace (exec roff (exec loff s))) p =
     (if p \<in> lpins \<union> rpins then Some 0 else level (trace s) p)"
  using disjoint by (auto simp: l.off_level r.off_level)

end

text \<open>
  The helper with which a driver claims an output pin: it asks for the pin, then makes it an output
  driven to 0, and gives up after the first refusal.  Claiming the pins of a list acquires nothing
  but those pins.
\<close>

abbreviation claim_all :: "(nat \<Rightarrow> ('r kio, int) state) \<Rightarrow> nat list \<Rightarrow> ('r kio, unit) state" where
  "claim_all reg ps \<equiv> for_each (\<lambda>p. State_Monad.bind (reg p) (\<lambda>_. State_Monad.return ())) ps"

definition claim_calls :: "nat \<Rightarrow> kcall set" where
  "claim_calls p = {Gpio (GpioDirectionOutput p 0)} \<union> range (\<lambda>n. Gpio (GpioRequest p n))"

locale gpio_registration =
  fixes reg :: "nat \<Rightarrow> ('r kio, int) state"
  assumes reg_emits: "emits (claim_calls p) (reg p)"
    and reg_frame: "only_trace (reg p)"
begin

lemma reg_held:
  "held (trace s) \<subseteq> held (trace (exec (reg p) s)) \<and>
   held (trace (exec (reg p) s)) \<subseteq> insert (RGpio p) (held (trace s))"
proof -
  obtain cs where cs: "trace (exec (reg p) s) = trace s @ cs" "fst ` set cs \<subseteq> claim_calls p"
    using reg_emits by (meson emits_def)
  have "R \<subseteq> fold held_step cs R \<and> fold held_step cs R \<subseteq> insert (RGpio p) R" for R
    using cs(2)
  proof (induction cs arbitrary: R)
    case (Cons c cs)
    then have "R \<subseteq> held_step c R \<and> held_step c R \<subseteq> insert (RGpio p) R"
      by (cases c) (auto simp: claim_calls_def split: if_splits)
    with Cons show ?case by simp blast
  qed auto
  then show ?thesis using cs(1) by (simp add: held_def)
qed

lemma reg_level:
  "level (trace (exec (reg p) s)) q \<in> {level (trace s) q, Some 0}"
proof -
  obtain cs where cs: "trace (exec (reg p) s) = trace s @ cs" "fst ` set cs \<subseteq> claim_calls p"
    using reg_emits by (meson emits_def)
  have "fold level_step cs m q \<in> {m q, Some 0}" for m
    using cs(2)
  proof (induction cs arbitrary: m)
    case (Cons c cs)
    then have "level_step c m q \<in> {m q, Some 0}"
      by (cases c) (auto simp: claim_calls_def)
    moreover from Cons have "fold level_step cs (level_step c m) q \<in> {level_step c m q, Some 0}"
      by simp
    ultimately show ?case by auto
  qed auto
  then show ?thesis using cs(1) by simp
qed

lemma reg_armed: "armed (trace (exec (reg p) s)) = armed (trace s)"
  by (rule emits_armed [OF reg_emits]) (auto simp: claim_calls_def)

lemma claim_all_held:
  "held (trace s) \<subseteq> held (trace (exec (claim_all reg ps) s)) \<and>
   held (trace (exec (claim_all reg ps) s)) \<subseteq> RGpio ` set ps \<union> held (trace s)"
proof (induction ps arbitrary: s)
  case (Cons p ps)
  from Cons [of "exec (reg p) s"] reg_held [of s p] show ?case
    by (simp add: case_prod_beta) blast
qed simp

lemma claim_all_level: "level (trace (exec (claim_all reg ps) s)) q \<in> {level (trace s) q, Some 0}"
proof (induction ps arbitrary: s)
  case (Cons p ps)
  from Cons [of "exec (reg p) s"] reg_level [of p s q] show ?case
    by (auto simp: case_prod_beta)
qed simp

lemma claim_all_armed: "armed (trace (exec (claim_all reg ps) s)) = armed (trace s)"
  by (induction ps arbitrary: s) (simp_all add: case_prod_beta reg_armed)

lemma claim_all_frame: "only_trace (claim_all reg ps)"
  by (intro only_trace_intros reg_frame)

lemma wp_claim_all:
  assumes "\<And>t. held (trace s) \<subseteq> held t \<Longrightarrow> held t \<subseteq> RGpio ` set ps \<union> held (trace s) \<Longrightarrow>
      armed t = armed (trace s) \<Longrightarrow>
      \<forall>q v. level t q = Some v \<longrightarrow> v \<noteq> 0 \<longrightarrow> level (trace s) q = Some v \<Longrightarrow>
      Q () (s\<lparr>trace := t\<rparr>)"
  shows "wp (claim_all reg ps) Q s"
proof -
  obtain t where t: "exec (claim_all reg ps) s = s\<lparr>trace := t\<rparr>"
    using claim_all_frame by (rule only_traceE)
  then have "Q () (s\<lparr>trace := t\<rparr>)"
    using claim_all_held [of s ps] claim_all_armed [of ps s] claim_all_level [of ps s]
    by (intro assms) (auto, metis option.inject)
  with t show ?thesis by (simp add: wp_def)
qed

end

text \<open>Giving pins back.\<close>

lemma free_all_held: "held (trace (exec (for_each (gpio_free E) ps) s)) = held (trace s) - RGpio ` set ps"
  by (induction ps arbitrary: s) (auto simp: exec_simps)

lemma free_all_armed: "armed (trace (exec (for_each (gpio_free E) ps) s)) = armed (trace s)"
  by (induction ps arbitrary: s) (auto simp: exec_simps)

lemma free_all_level: "level (trace (exec (for_each (gpio_free E) ps) s)) = level (trace s)"
  by (induction ps arbitrary: s) (auto simp: exec_simps)

lemma wp_free_all [wp_intros]:
  assumes "\<And>t. held t = held (trace s) - RGpio ` set ps \<Longrightarrow> armed t = armed (trace s) \<Longrightarrow>
      level t = level (trace s) \<Longrightarrow> Q () (s\<lparr>trace := t\<rparr>)"
  shows "wp (for_each (gpio_free E) ps) Q s"
proof -
  have "only_trace (for_each (gpio_free E) ps)"
    by (intro only_trace_intros)
  then obtain t where t: "exec (for_each (gpio_free E) ps) s = s\<lparr>trace := t\<rparr>"
    by (rule only_traceE)
  then have "Q () (s\<lparr>trace := t\<rparr>)"
    using free_all_held [of E ps s] free_all_armed [of E ps s] free_all_level [of E ps s]
    by (intro assms) simp_all
  with t show ?thesis by (simp add: wp_def)
qed

text \<open>
  A module that can be loaded, used and unloaded: when loading succeeds the module owns what its
  exit function gives back, and every handler keeps it that way.  Then after any use the exit
  function leaves nothing behind, and this can be repeated.
\<close>

definition clean :: "'r kio \<Rightarrow> bool" where
  "clean s \<longleftrightarrow> held (trace s) = {} \<and> armed (trace s) = {}"

locale module_session =
  fixes load :: "('r kio, int) state"
    and unload :: "('r kio, unit) state"
    and step :: "'e \<Rightarrow> 'r kio \<Rightarrow> 'r kio option"
    and loaded :: "'r kio \<Rightarrow> bool"
    and residue :: "resource set"
  assumes load_ok: "clean s \<Longrightarrow> result load s = 0 \<Longrightarrow> loaded (exec load s)"
    and step_ok: "loaded s \<Longrightarrow> step e s = Some s' \<Longrightarrow> loaded s'"
    and unload_ok: "loaded s \<Longrightarrow> held (trace (exec unload s)) \<subseteq> residue \<and>
      armed (trace (exec unload s)) = {}"
begin

sublocale use: kept_by step loaded "\<lambda>_. True"
  by unfold_locales (rule step_ok)

lemma session_loaded:
  assumes "clean s" "result load s = 0" "run_events step es (exec load s) = Some s'"
  shows "loaded s'"
  using assms load_ok use.run_keeps [of "exec load s" es s'] by (simp add: list_all_iff)

lemma session_leaves:
  assumes "clean s" "result load s = 0" "run_events step es (exec load s) = Some s'"
  shows "held (trace (exec unload s')) \<subseteq> residue \<and> armed (trace (exec unload s')) = {}"
  using session_loaded [OF assms] by (rule unload_ok)

end

text \<open>The modules that leave nothing behind.\<close>

locale loadable_module = module_session load unload step loaded "{}"
  for load :: "('r kio, int) state" and unload :: "('r kio, unit) state"
    and step :: "'e \<Rightarrow> 'r kio \<Rightarrow> 'r kio option" and loaded :: "'r kio \<Rightarrow> bool"
begin

lemma session_clean:
  assumes "clean s" "result load s = 0" "run_events step es (exec load s) = Some s'"
  shows "clean (exec unload s')"
  using session_leaves [OF assms] by (simp add: clean_def)

end

text \<open>
  A kernel in which every request succeeds, for the examples: pointers it hands out are 1, every
  other answer is 0.
\<close>

definition obliging :: kenv where
  "obliging h c = (case c of
       Module (ClassCreate _) \<Rightarrow> 1 | Module (DeviceCreate _ _) \<Rightarrow> 1
     | Task (KthreadCreate _) \<Rightarrow> 1
     | I2c (I2cGetAdapter _) \<Rightarrow> 1 | I2c (I2cNewClientDevice _) \<Rightarrow> 1
     | Kobj Kzalloc \<Rightarrow> 1 | Kobj (CreateWorkqueue _) \<Rightarrow> 1
     | _ \<Rightarrow> 0)"

lemma obliging_simps [simp]:
  "obliging h (Module (AllocChrdevRegion n)) = 0" "obliging h (Module (ClassCreate n)) = 1"
  "obliging h (Module (DeviceCreate c n)) = 1" "obliging h (Module CdevInit) = 0"
  "obliging h (Module CdevAdd) = 0" "obliging h (Gpio g) = 0" "obliging h (Timer t) = 0"
  "obliging h (Task (KthreadCreate n)) = 1" "obliging h (Task (WakeUpProcess p)) = 0"
  "obliging h (Task (CopyFromUser k)) = 0" "obliging h (Task WakeUpInterruptible) = 0"
  "obliging h (Task (Msleep k)) = 0" "obliging h (Task (UsleepRange k l)) = 0"
  "obliging h (Task (CopyToUser k)) = 0"
  "obliging h (I2c (I2cGetAdapter i)) = 1" "obliging h (I2c (I2cPutAdapter a)) = 0"
  "obliging h (I2c (I2cNewClientDevice a)) = 1" "obliging h (I2c I2cAddDriver) = 0"
  "obliging h (I2c (I2cSmbusReadByteData a i)) = 0" "obliging h (I2c (I2cSmbusReadWordData a i)) = 0"
  "obliging h (I2c (I2cSmbusWriteByteData a i j)) = 0" "obliging h (I2c (I2cUnregisterDevice a)) = 0"
  "obliging h (I2c I2cDelDriver) = 0"
  "obliging h (Kobj Kzalloc) = 1" "obliging h (Kobj (KobjectInit a)) = 0"
  "obliging h (Kobj (KobjectAdd a n)) = 0" "obliging h (Kobj (CreateWorkqueue n)) = 1"
  by (simp_all add: obliging_def)

end
