(* ===== verification/State_Machine_Driver.thy ===== *)
theory State_Machine_Driver
  imports Kernel_Calls
begin

text \<open>
  The click driven LED driver, \<^verbatim>\<open>src/drivers/state_machine/state_machine.c\<close>: a button whose single
  and double clicks drive a seven state table; the actions of the table light the eight LEDs, some
  of them one by one through jiffies timers.  Every function of the file is modelled.  The handlers
  (the button interrupt, the click timer, the LED timers) are the steps of the driver, each of them whole:
  an interrupt that comes while the callback of the click timer runs is not modelled.
\<close>

section \<open>Constants, table and state\<close>

definition GPIO_BUTTON :: nat where "GPIO_BUTTON = 16"
definition DOUBLE_CLICK_INTERVAL :: nat where "DOUBLE_CLICK_INTERVAL = 500"
definition NUM_STATE :: nat where "NUM_STATE = 7"
definition NUM_INPUT :: nat where "NUM_INPUT = 3"
definition BUF_SIZE :: nat where "BUF_SIZE = 1024"

datatype sw_input = SW_ON | SW_OFF | T_OUT

fun input_index :: "sw_input \<Rightarrow> nat" where
  "input_index SW_ON = 0"
| "input_index SW_OFF = 1"
| "input_index T_OUT = 2"

datatype sm_action =
    ACTION_NOP | ACTION_LEFT_ON | ACTION_LEFT_OFF | ACTION_ALL_ON | ACTION_ALL_OFF
  | ACTION_LEFT_4_ON | ACTION_LEFT_6_ON | ACTION_RESET_TIMER

record state_machine_element =
  next_state :: nat
  action :: sm_action

abbreviation elem :: "nat \<Rightarrow> sm_action \<Rightarrow> state_machine_element" where
  "elem n a \<equiv> \<lparr>next_state = n, action = a\<rparr>"

definition state_machine_table :: "state_machine_element list list" where
  "state_machine_table = [
     [elem 1 ACTION_LEFT_ON, elem 0 ACTION_NOP, elem 0 ACTION_NOP],
     [elem 1 ACTION_LEFT_ON, elem 2 ACTION_LEFT_OFF, elem 3 ACTION_LEFT_6_ON],
     [elem 2 ACTION_LEFT_OFF, elem 0 ACTION_NOP, elem 4 ACTION_ALL_ON],
     [elem 3 ACTION_LEFT_6_ON, elem 4 ACTION_ALL_ON, elem 4 ACTION_ALL_ON],
     [elem 4 ACTION_ALL_ON, elem 5 ACTION_LEFT_4_ON, elem 6 ACTION_ALL_OFF],
     [elem 5 ACTION_LEFT_4_ON, elem 6 ACTION_ALL_OFF, elem 0 ACTION_RESET_TIMER],
     [elem 0 ACTION_ALL_OFF, elem 0 ACTION_RESET_TIMER, elem 0 ACTION_RESET_TIMER]]"

definition led_array_map :: "nat list" where
  "led_array_map = [17, 27, 22, 5, 6, 26, 23, 24]"

record click_state = "kcall io" +
  toy_class :: int
  irq_number :: int
  click_count :: s32
  sm_state :: nat
  kernel_write_buffer :: "u8 list"

definition click_initial :: click_state where
  "click_initial = \<lparr>trace = [], toy_class = 0, irq_number = 0, click_count = 0, sm_state = 0,
     kernel_write_buffer = replicate BUF_SIZE 0\<rparr>"

type_synonym 'a click_prog = "(click_state, 'a) state"

section \<open>File operations\<close>

definition toy_driver_open :: "int click_prog" where
  "toy_driver_open = State_Monad.return 0"

definition toy_driver_close :: "int click_prog" where
  "toy_driver_close = State_Monad.return 0"

definition toy_driver_read :: "nat \<Rightarrow> int click_prog" where
  "toy_driver_read count = State_Monad.return (int BUF_SIZE)"

text \<open>\<open>None\<close>: the write ran past \<^verbatim>\<open>kernel_write_buffer\<close>.\<close>

definition toy_driver_write :: "kenv \<Rightarrow> u8 list \<Rightarrow> int option click_prog" where
  "toy_driver_write E buf = do {
     kb \<leftarrow> gets kernel_write_buffer;
     kb' \<leftarrow> copy_in E kb buf;
     (case kb' of
        None \<Rightarrow> State_Monad.return None
      | Some b \<Rightarrow> do {
          modify (\<lambda>s. s\<lparr>kernel_write_buffer := b\<rparr>);
          State_Monad.return (Some (int (length buf))) }) }"

section \<open>LEDs\<close>

definition set_bit_led :: "kenv \<Rightarrow> u8 \<Rightarrow> unit click_prog" where
  "set_bit_led E led = for_each
     (\<lambda>i. gpio_set_value E (led_array_map ! i) (if led AND push_bit i 1 \<noteq> 0 then 1 else 0)) [0..<8]"

definition test_led :: "kenv \<Rightarrow> unit click_prog" where
  "test_led E = for_each (\<lambda>i. do {
     gpio_set_value E (led_array_map ! i) 1;
     msleep E 500;
     gpio_set_value E (led_array_map ! i) 0 }) [0..<8]"

definition led_on_timer_callback :: "kenv \<Rightarrow> nat \<Rightarrow> unit click_prog" where
  "led_on_timer_callback E led_index = gpio_set_value E (led_array_map ! led_index) 1"

definition start_led_on_sequence :: "kenv \<Rightarrow> unit click_prog" where
  "start_led_on_sequence E = for_each (\<lambda>i. do {
     timer_setup E (LED_ON_TIMER i);
     mod_timer E (LED_ON_TIMER i) (200 * i) }) [0..<4]"

definition led_off_timer_callback :: "kenv \<Rightarrow> nat \<Rightarrow> unit click_prog" where
  "led_off_timer_callback E led_index = gpio_set_value E (led_array_map ! led_index) 0"

definition start_led_off_sequence :: "kenv \<Rightarrow> unit click_prog" where
  "start_led_off_sequence E = for_each (\<lambda>i. do {
     timer_setup E (LED_OFF_TIMER i);
     mod_timer E (LED_OFF_TIMER i) (200 * (3 - i)) }) (rev [0..<4])"

text \<open>The loops of \<^verbatim>\<open>ACTION_LEFT_4_ON\<close> and \<^verbatim>\<open>ACTION_LEFT_6_ON\<close>; the log line reads the pin back.\<close>

definition light_first :: "kenv \<Rightarrow> nat \<Rightarrow> unit click_prog" where
  "light_first E n = for_each (\<lambda>i. do {
     gpio_set_value E (led_array_map ! i) 1;
     _ \<leftarrow> gpio_get_value E (led_array_map ! i);
     State_Monad.return () }) [0..<n]"

section \<open>The state machine and its handlers\<close>

definition do_action :: "kenv \<Rightarrow> sm_action \<Rightarrow> unit click_prog" where
  "do_action E a = (case a of
       ACTION_NOP \<Rightarrow> State_Monad.return ()
     | ACTION_LEFT_ON \<Rightarrow> start_led_on_sequence E
     | ACTION_LEFT_OFF \<Rightarrow> start_led_off_sequence E
     | ACTION_ALL_ON \<Rightarrow> set_bit_led E 0xFF
     | ACTION_ALL_OFF \<Rightarrow> set_bit_led E 0x00
     | ACTION_LEFT_4_ON \<Rightarrow> light_first E 4
     | ACTION_LEFT_6_ON \<Rightarrow> light_first E 6
     | ACTION_RESET_TIMER \<Rightarrow> do {
         set_bit_led E 0x00;
         modify (\<lambda>s. s\<lparr>sm_state := 0\<rparr>) })"

definition state_machine :: "kenv \<Rightarrow> sw_input \<Rightarrow> unit click_prog" where
  "state_machine E input = do {
     st \<leftarrow> gets sm_state;
     let sm = state_machine_table ! st ! input_index input;
     modify (\<lambda>s. s\<lparr>sm_state := next_state sm\<rparr>);
     do_action E (action sm) }"

definition click_timer_callback :: "kenv \<Rightarrow> unit click_prog" where
  "click_timer_callback E = do {
     n \<leftarrow> gets click_count;
     (if n = 1 then state_machine E SW_ON
      else if n = 2 then state_machine E T_OUT
      else State_Monad.return ());
     modify (\<lambda>s. s\<lparr>click_count := 0\<rparr>) }"

definition button_isr :: "kenv \<Rightarrow> int click_prog" where
  "button_isr E = do {
     modify (\<lambda>s. s\<lparr>click_count := click_count s + 1\<rparr>);
     n \<leftarrow> gets click_count;
     (if n = 1 then mod_timer E CLICK_TIMER DOUBLE_CLICK_INTERVAL
      else if n = 2 then do {
        del_timer E CLICK_TIMER;
        click_timer_callback E }
      else State_Monad.return ());
     State_Monad.return 1 }"

section \<open>Loading and unloading the module\<close>

definition register_gpio_output :: "kenv \<Rightarrow> nat \<Rightarrow> int click_prog" where
  "register_gpio_output E gpio_num = do {
     busy \<leftarrow> gpio_request E gpio_num (''toy-gpio-'' @ show_nat gpio_num);
     if busy \<noteq> 0 then State_Monad.return (-1)
     else do {
       refused \<leftarrow> gpio_direction_output E gpio_num 0;
       if refused \<noteq> 0 then State_Monad.return (-1) else State_Monad.return 0 } }"

definition cerror :: "kenv \<Rightarrow> int click_prog" where
  "cerror E = do { unregister_chrdev_region E; State_Monad.return (-1) }"

definition device_error :: "kenv \<Rightarrow> int click_prog" where
  "device_error E = do { c \<leftarrow> gets toy_class; class_destroy E c; cerror E }"

definition reg_error :: "kenv \<Rightarrow> int click_prog" where
  "reg_error E = do { c \<leftarrow> gets toy_class; device_destroy E c; device_error E }"

definition gpio_error :: "kenv \<Rightarrow> int click_prog" where
  "gpio_error E = do {
     gpio_free E GPIO_BUTTON;
     for_each (gpio_free E) led_array_map;
     reg_error E }"

definition toy_driver_init :: "kenv \<Rightarrow> int click_prog" where
  "toy_driver_init E = do {
     r \<leftarrow> alloc_chrdev_region E ''switch_single_double_click_driver'';
     if r < 0 then State_Monad.return (-1) else do {
     c \<leftarrow> class_create E ''toy_simple_io_class'';
     modify (\<lambda>s. s\<lparr>toy_class := c\<rparr>);
     if c = 0 then cerror E else do {
     d \<leftarrow> device_create E c ''switch_single_double_click_driver'';
     if d = 0 then device_error E else do {
     cdev_init E;
     a \<leftarrow> cdev_add E;
     if a = -1 then reg_error E else do {
     claim_all (register_gpio_output E) led_array_map;
     busy \<leftarrow> gpio_request E GPIO_BUTTON ''toy-gpio-16'';
     if busy \<noteq> 0 then gpio_error E else do {
     refused \<leftarrow> gpio_direction_input E GPIO_BUTTON;
     if refused \<noteq> 0 then gpio_error E else do {
     gpio_set_debounce E GPIO_BUTTON 200;
     test_led E;
     irq \<leftarrow> gpio_to_irq E GPIO_BUTTON;
     modify (\<lambda>s. s\<lparr>irq_number := irq\<rparr>);
     failed \<leftarrow> request_irq E irq IRQF_TRIGGER_FALLING;
     if failed \<noteq> 0 then State_Monad.return failed else do {
     timer_setup E CLICK_TIMER;
     State_Monad.return 0 }}}}}}}}"

definition toy_driver_exit :: "kenv \<Rightarrow> unit click_prog" where
  "toy_driver_exit E = do {
     del_timer E CLICK_TIMER;
     irq \<leftarrow> gets irq_number;
     free_irq E irq;
     gpio_free E GPIO_BUTTON;
     for_each (gpio_free E) led_array_map;
     cdev_del E;
     c \<leftarrow> gets toy_class;
     device_destroy E c;
     class_destroy E c;
     unregister_chrdev_region E }"

section \<open>What the pieces do\<close>

lemmas sm_programs =
  set_bit_led_def test_led_def start_led_on_sequence_def start_led_off_sequence_def light_first_def
  led_on_timer_callback_def led_off_timer_callback_def

lemma only_trace_leds [only_trace_intros]:
  "only_trace (set_bit_led E b)" "only_trace (test_led E)" "only_trace (light_first E n)"
  "only_trace (start_led_on_sequence E)" "only_trace (start_led_off_sequence E)"
  "only_trace (led_on_timer_callback E i)" "only_trace (led_off_timer_callback E i)"
  unfolding sm_programs by (intro only_trace_intros)+

lemma click_only_trace_fields:
  assumes "only_trace m"
  shows "sm_state (exec m s) = sm_state s" "click_count (exec m s) = click_count s"
    "irq_number (exec m s) = irq_number s"
    "State_Machine_Driver.toy_class (exec m s) = State_Machine_Driver.toy_class s"
  using assms by (auto elim: only_traceE [of m s])

lemmas led_fields [simp] = only_trace_leds [THEN click_only_trace_fields(1)]
  only_trace_leds [THEN click_only_trace_fields(2)]

definition drive :: "nat list \<Rightarrow> int \<Rightarrow> (nat \<rightharpoonup> int) \<Rightarrow> (nat \<rightharpoonup> int)" where
  "drive ps v m = (\<lambda>p. if p \<in> set ps then Some v else m p)"

lemma fold_drive: "fold (\<lambda>i m. m(f i \<mapsto> v)) xs m = drive (map f xs) v m"
  by (induction xs arbitrary: m) (auto simp: drive_def fun_eq_iff)

lemma set_bit_led_level:
  "level (trace (exec (set_bit_led E b) s)) =
     fold (\<lambda>i m. m(led_array_map ! i \<mapsto> (if b AND push_bit i 1 \<noteq> 0 then 1 else 0))) [0..<8]
       (level (trace s))"
  unfolding set_bit_led_def
  by (rule for_each_fold [where F = "\<lambda>s. level (trace s)"]) (simp add: exec_simps)

lemma length_led_array: "length led_array_map = 8"
  by (simp add: led_array_map_def)

lemma map_led_array: "map ((!) led_array_map) [0..<8] = led_array_map"
  by (simp add: led_array_map_def upt_rec)

lemma all_on_level: "level (trace (exec (set_bit_led E 0xFF) s)) = drive led_array_map 1 (level (trace s))"
proof -
  have "fold (\<lambda>i m. m(led_array_map ! i \<mapsto> (if (0xFF::u8) AND push_bit i 1 \<noteq> 0 then 1 else 0))) [0..<8] m
      = fold (\<lambda>i m. m(led_array_map ! i \<mapsto> (1::int))) [0..<8] m" for m
    by (simp add: upt_rec)
  then show ?thesis
    by (simp add: set_bit_led_level fold_drive [of "(!) led_array_map"] map_led_array)
qed

lemma all_off_level: "level (trace (exec (set_bit_led E 0) s)) = drive led_array_map 0 (level (trace s))"
  by (simp add: set_bit_led_level fold_drive [of "(!) led_array_map"] map_led_array)

lemma light_first_level:
  "n \<le> 8 \<Longrightarrow> level (trace (exec (light_first E n) s)) = drive (take n led_array_map) 1 (level (trace s))"
proof -
  assume n: "n \<le> 8"
  have "level (trace (exec (light_first E n) s)) =
      fold (\<lambda>i m. m(led_array_map ! i \<mapsto> 1)) [0..<n] (level (trace s))"
    unfolding light_first_def
    by (rule for_each_fold [where F = "\<lambda>s. level (trace s)"]) (simp add: exec_simps)
  moreover have "map ((!) led_array_map) [0..<n] = take n led_array_map"
    using n by (auto intro!: nth_equalityI simp: length_led_array)
  ultimately show ?thesis
    by (simp add: fold_drive [of "(!) led_array_map"])
qed

text \<open>Only the two sequences touch the jiffies timers.\<close>

lemma emits_pending:
  assumes "emits C m" and "\<And>c r x. c \<in> C \<Longrightarrow> pending_step (c, r) x = x"
  shows "pending (trace (exec m s)) = pending (trace s)"
  unfolding pending_def using assms by (rule emits_fold)

lemma led_pending:
  "pending (trace (exec (set_bit_led E b) s)) = pending (trace s)"
  "pending (trace (exec (light_first E n) s)) = pending (trace s)"
  "pending (trace (exec (led_on_timer_callback E i) s)) = pending (trace s)"
  "pending (trace (exec (led_off_timer_callback E i) s)) = pending (trace s)"
  unfolding sm_programs
  by ((rule emits_pending [of "range Gpio"], intro emits_intros, auto)[1])+

lemma on_sequence_pending:
  "pending (trace (exec (start_led_on_sequence E) s)) = LED_ON_TIMER ` {..<4} \<union> pending (trace s)"
proof -
  have "pending (trace (exec (start_led_on_sequence E) s)) =
      fold (\<lambda>i. insert (LED_ON_TIMER i)) [0..<4] (pending (trace s))"
    unfolding start_led_on_sequence_def
    by (rule for_each_fold [where F = "\<lambda>s. pending (trace s)"]) (simp add: exec_simps)
  also have "\<dots> = LED_ON_TIMER ` {..<4} \<union> pending (trace s)"
    by (auto simp: upt_rec lessThan_nat_numeral lessThan_Suc)
  finally show ?thesis .
qed

lemma off_sequence_pending:
  "pending (trace (exec (start_led_off_sequence E) s)) = LED_OFF_TIMER ` {..<4} \<union> pending (trace s)"
proof -
  have "pending (trace (exec (start_led_off_sequence E) s)) =
      fold (\<lambda>i. insert (LED_OFF_TIMER i)) (rev [0..<4]) (pending (trace s))"
    unfolding start_led_off_sequence_def
    by (rule for_each_fold [where F = "\<lambda>s. pending (trace s)"]) (simp add: exec_simps)
  also have "\<dots> = LED_OFF_TIMER ` {..<4} \<union> pending (trace s)"
    by (auto simp: upt_rec lessThan_nat_numeral lessThan_Suc)
  finally show ?thesis .
qed

text \<open>The timers that were set, each with its delay in milliseconds, oldest first.\<close>

fun timers_set :: "(kcall \<times> int) list \<Rightarrow> (ktimer \<times> nat) list" where
  "timers_set [] = []"
| "timers_set ((Timer (ModTimer t d), r) # h) = (t, d) # timers_set h"
| "timers_set (_ # h) = timers_set h"

lemma timers_set_append [simp]: "timers_set (g @ h) = timers_set g @ timers_set h"
  by (induction g rule: timers_set.induct) simp_all

lemma timers_set_other: "(\<forall>t d. c \<noteq> Timer (ModTimer t d)) \<Longrightarrow> timers_set ((c, r) # h) = timers_set h"
  by (cases "((c, r) # h)" rule: timers_set.cases) auto

lemma emits_timers_set:
  assumes "emits C m" "\<And>t d. Timer (ModTimer t d) \<notin> C"
  shows "timers_set (trace (exec m s)) = timers_set (trace s)"
proof -
  obtain cs where cs: "trace (exec m s) = trace s @ cs" "fst ` set cs \<subseteq> C"
    using assms(1) by (meson emits_def)
  have "timers_set cs = []"
    using cs(2)
  proof (induction cs)
    case (Cons c cs)
    then have "\<forall>t d. fst c \<noteq> Timer (ModTimer t d)" using assms(2) by auto
    with Cons show ?case using timers_set_other [of "fst c" "snd c" cs] by simp
  qed simp
  with cs(1) show ?thesis by simp
qed

lemma led_timers_set:
  "timers_set (trace (exec (set_bit_led E b) s)) = timers_set (trace s)"
  "timers_set (trace (exec (light_first E n) s)) = timers_set (trace s)"
  unfolding sm_programs
  by ((rule emits_timers_set [of "range Gpio"], intro emits_intros, auto)[1])+

lemma sequence_timers_set:
  "timers_set (trace (exec (start_led_on_sequence E) s)) =
     timers_set (trace s) @ map (\<lambda>i. (LED_ON_TIMER i, 200 * i)) [0..<4]"
  "timers_set (trace (exec (start_led_off_sequence E) s)) =
     timers_set (trace s) @ map (\<lambda>i. (LED_OFF_TIMER i, 200 * (3 - i))) (rev [0..<4])"
  by (simp_all add: start_led_on_sequence_def start_led_off_sequence_def exec_simps upt_rec)

lemma sequence_level:
  "level (trace (exec (start_led_on_sequence E) s)) = level (trace s)"
  "level (trace (exec (start_led_off_sequence E) s)) = level (trace s)"
  unfolding sm_programs
  by ((rule emits_level [of "range Timer"], intro emits_intros, auto)[1])+

lemma action_click [simp]: "click_count (exec (do_action E a) s) = click_count s"
  by (cases a) (simp_all add: do_action_def exec_simps)

lemma action_state: "sm_state (exec (do_action E a) s) = (if a = ACTION_RESET_TIMER then 0 else sm_state s)"
  by (cases a) (simp_all add: do_action_def exec_simps)

lemma action_pending:
  "pending (trace (exec (do_action E a) s)) =
     (case a of ACTION_LEFT_ON \<Rightarrow> LED_ON_TIMER ` {..<4}
      | ACTION_LEFT_OFF \<Rightarrow> LED_OFF_TIMER ` {..<4} | _ \<Rightarrow> {}) \<union> pending (trace s)"
  by (cases a) (simp_all add: do_action_def exec_simps led_pending on_sequence_pending off_sequence_pending)

definition action_timers :: "sm_action \<Rightarrow> (ktimer \<times> nat) list" where
  "action_timers a = (case a of
       ACTION_LEFT_ON \<Rightarrow> map (\<lambda>i. (LED_ON_TIMER i, 200 * i)) [0..<4]
     | ACTION_LEFT_OFF \<Rightarrow> map (\<lambda>i. (LED_OFF_TIMER i, 200 * (3 - i))) (rev [0..<4])
     | _ \<Rightarrow> [])"

lemma action_timers_set:
  "timers_set (trace (exec (do_action E a) s)) = timers_set (trace s) @ action_timers a"
  by (cases a) (simp_all add: do_action_def action_timers_def exec_simps led_timers_set sequence_timers_set)

definition action_pends :: "sm_action \<Rightarrow> ktimer set" where
  "action_pends a = fst ` set (action_timers a)"

lemma action_pends: "pending (trace (exec (do_action E a) s)) = action_pends a \<union> pending (trace s)"
  by (cases a) (simp_all add: action_pending action_pends_def action_timers_def image_image lessThan_atLeast0)

definition action_level :: "sm_action \<Rightarrow> (nat \<rightharpoonup> int) \<Rightarrow> (nat \<rightharpoonup> int)" where
  "action_level a m = (case a of
       ACTION_ALL_ON \<Rightarrow> drive led_array_map 1 m
     | ACTION_ALL_OFF \<Rightarrow> drive led_array_map 0 m
     | ACTION_LEFT_4_ON \<Rightarrow> drive (take 4 led_array_map) 1 m
     | ACTION_LEFT_6_ON \<Rightarrow> drive (take 6 led_array_map) 1 m
     | ACTION_RESET_TIMER \<Rightarrow> drive led_array_map 0 m
     | _ \<Rightarrow> m)"

lemma action_levels:
  "level (trace (exec (do_action E a) s)) = action_level a (level (trace s))"
  by (cases a) (simp_all add: do_action_def exec_simps action_level_def all_on_level all_off_level
      light_first_level sequence_level)

section \<open>The table as a machine\<close>

definition sm_next :: "nat \<Rightarrow> sw_input \<Rightarrow> nat" where
  "sm_next st i = next_state (state_machine_table ! st ! input_index i)"

definition sm_act :: "nat \<Rightarrow> sw_input \<Rightarrow> sm_action" where
  "sm_act st i = action (state_machine_table ! st ! input_index i)"

lemma less_7_cases: "st < 7 \<longleftrightarrow> st \<in> {0, 1, 2, 3, 4, 5, 6::nat}"
  by auto

lemma table_shape:
  "length state_machine_table = NUM_STATE" "list_all (\<lambda>row. length row = NUM_INPUT) state_machine_table"
  "input_index i < NUM_INPUT"
  by (simp_all add: state_machine_table_def NUM_STATE_def NUM_INPUT_def) (cases i; simp)

lemma table_next_in_range: "st < 7 \<Longrightarrow> sm_next st i < 7"
  by (cases i) (auto simp: less_7_cases sm_next_def state_machine_table_def)

lemma table_reset_goes_home: "st < 7 \<Longrightarrow> sm_act st i = ACTION_RESET_TIMER \<Longrightarrow> sm_next st i = 0"
  by (cases i) (auto simp: less_7_cases sm_next_def sm_act_def state_machine_table_def)

lemma state_machine_state:
  "sm_state s < 7 \<Longrightarrow> sm_state (exec (state_machine E i) s) = sm_next (sm_state s) i"
  using table_reset_goes_home [of "sm_state s" i]
  by (simp add: state_machine_def exec_simps action_state Let_def sm_next_def sm_act_def)

lemma state_machine_click [simp]: "click_count (exec (state_machine E i) s) = click_count s"
  by (simp add: state_machine_def exec_simps Let_def)

lemma state_machine_level:
  "level (trace (exec (state_machine E i) s)) = action_level (sm_act (sm_state s) i) (level (trace s))"
  by (simp add: state_machine_def exec_simps Let_def action_levels sm_act_def)

lemma state_machine_timers:
  "timers_set (trace (exec (state_machine E i) s)) = timers_set (trace s) @ action_timers (sm_act (sm_state s) i)"
  "pending (trace (exec (state_machine E i) s)) = action_pends (sm_act (sm_state s) i) \<union> pending (trace s)"
  by (simp_all add: state_machine_def exec_simps Let_def action_timers_set action_pends sm_act_def)

lemma action_pends_click [simp]: "CLICK_TIMER \<notin> action_pends a"
  by (cases a) (auto simp: action_pends_def action_timers_def)

lemma state_machine_click_timer [simp]:
  "CLICK_TIMER \<in> pending (trace (exec (state_machine E i) s)) \<longleftrightarrow> CLICK_TIMER \<in> pending (trace s)"
  by (auto simp: state_machine_def exec_simps Let_def action_pending split: sm_action.splits)

section \<open>Events and runs of the driver\<close>

datatype click_event = Press | Click_timeout | Led_on nat | Led_off nat

definition fire :: "kenv \<Rightarrow> ktimer \<Rightarrow> unit click_prog \<Rightarrow> click_state \<Rightarrow> click_state option" where
  "fire E t callback s = (if t \<in> pending (trace s)
     then Some (exec callback (exec (perform E (Timer (TimerExpired t))) s)) else None)"

definition click_step :: "kenv \<Rightarrow> click_event \<Rightarrow> click_state \<Rightarrow> click_state option" where
  "click_step E e s = (case e of
       Press \<Rightarrow> Some (exec (button_isr E) s)
     | Click_timeout \<Rightarrow> fire E CLICK_TIMER (click_timer_callback E) s
     | Led_on i \<Rightarrow> fire E (LED_ON_TIMER i) (led_on_timer_callback E i) s
     | Led_off i \<Rightarrow> fire E (LED_OFF_TIMER i) (led_off_timer_callback E i) s)"

text \<open>A click is counted exactly while the click timer is pending.\<close>

definition click_inv :: "click_state \<Rightarrow> bool" where
  "click_inv s \<longleftrightarrow> sm_state s \<in> {0, 1, 3, 4, 6} \<and>
     click_count s = (if CLICK_TIMER \<in> pending (trace s) then 1 else 0)"

lemma click_inv_less_7: "click_inv s \<Longrightarrow> sm_state s < 7"
  by (auto simp: click_inv_def)

lemma next_reachable:
  "st \<in> {0, 1, 3, 4, 6} \<Longrightarrow> sm_next st SW_ON \<in> {0, 1, 3, 4, 6} \<and> sm_next st T_OUT \<in> {0, 1, 3, 4, 6}"
  by (auto simp: sm_next_def state_machine_table_def)

text \<open>The three handlers of a click, under the invariant.\<close>

lemma first_press:
  assumes "click_inv s" "CLICK_TIMER \<notin> pending (trace s)" "click_step E Press s = Some s'"
  shows "click_inv s'" "CLICK_TIMER \<in> pending (trace s')" "sm_state s' = sm_state s"
    "level (trace s') = level (trace s)" "pending (trace s') = insert CLICK_TIMER (pending (trace s))"
    "timers_set (trace s') = timers_set (trace s) @ [(CLICK_TIMER, DOUBLE_CLICK_INTERVAL)]"
  using assms by (auto simp: click_step_def button_isr_def exec_simps click_inv_def)

lemma second_press:
  assumes "click_inv s" "CLICK_TIMER \<in> pending (trace s)" "click_step E Press s = Some s'"
  shows "click_inv s'" "CLICK_TIMER \<notin> pending (trace s')" "sm_state s' = sm_next (sm_state s) T_OUT"
    "level (trace s') = action_level (sm_act (sm_state s) T_OUT) (level (trace s))"
    "pending (trace s') = action_pends (sm_act (sm_state s) T_OUT) \<union> (pending (trace s) - {CLICK_TIMER})"
    "timers_set (trace s') = timers_set (trace s) @ action_timers (sm_act (sm_state s) T_OUT)"
proof -
  define s1 where "s1 = s\<lparr>click_count := 2, trace := trace s @ [(Timer (DelTimer CLICK_TIMER),
    E (trace s) (Timer (DelTimer CLICK_TIMER)))]\<rparr>"
  from assms have "click_count s = 1" by (simp add: click_inv_def)
  with assms have "(exec (state_machine E T_OUT) s1)\<lparr>click_count := 0\<rparr> = s'"
    by (simp add: click_step_def button_isr_def click_timer_callback_def exec_simps s1_def)
  note s' = this [symmetric]
  have st: "sm_state s1 = sm_state s" "sm_state s1 < 7"
    using assms(1) click_inv_less_7 by (simp_all add: s1_def)
  have off: "CLICK_TIMER \<notin> pending (trace s1)"
    by (simp add: s1_def)
  from st show nx: "sm_state s' = sm_next (sm_state s) T_OUT"
    by (simp add: s' state_machine_state)
  from off show off': "CLICK_TIMER \<notin> pending (trace s')"
    by (simp add: s')
  from nx off' assms(1) next_reachable show "click_inv s'"
    unfolding click_inv_def by (simp add: s')
  show "level (trace s') = action_level (sm_act (sm_state s) T_OUT) (level (trace s))"
    "pending (trace s') = action_pends (sm_act (sm_state s) T_OUT) \<union> (pending (trace s) - {CLICK_TIMER})"
    "timers_set (trace s') = timers_set (trace s) @ action_timers (sm_act (sm_state s) T_OUT)"
    by (simp_all add: s' state_machine_level state_machine_timers st s1_def)
qed

lemma timed_out:
  assumes "click_inv s" "click_step E Click_timeout s = Some s'"
  shows "click_inv s'" "CLICK_TIMER \<in> pending (trace s)" "CLICK_TIMER \<notin> pending (trace s')"
    "sm_state s' = sm_next (sm_state s) SW_ON"
    "level (trace s') = action_level (sm_act (sm_state s) SW_ON) (level (trace s))"
    "pending (trace s') = action_pends (sm_act (sm_state s) SW_ON) \<union> (pending (trace s) - {CLICK_TIMER})"
    "timers_set (trace s') = timers_set (trace s) @ action_timers (sm_act (sm_state s) SW_ON)"
proof -
  define s1 where "s1 = s\<lparr>trace := trace s @ [(Timer (TimerExpired CLICK_TIMER),
    E (trace s) (Timer (TimerExpired CLICK_TIMER)))]\<rparr>"
  from assms(2) show on: "CLICK_TIMER \<in> pending (trace s)"
    by (simp add: click_step_def fire_def split: if_splits)
  with assms(1) have "click_count s = 1" by (simp add: click_inv_def)
  with assms(2) on have "(exec (state_machine E SW_ON) s1)\<lparr>click_count := 0\<rparr> = s'"
    by (simp add: click_step_def fire_def click_timer_callback_def exec_simps s1_def)
  note s' = this [symmetric]
  have st: "sm_state s1 = sm_state s" "sm_state s1 < 7"
    using assms(1) click_inv_less_7 by (simp_all add: s1_def)
  from st show nx: "sm_state s' = sm_next (sm_state s) SW_ON"
    by (simp add: s' state_machine_state)
  show off: "CLICK_TIMER \<notin> pending (trace s')"
    by (simp add: s' s1_def)
  from nx off assms(1) next_reachable show "click_inv s'"
    unfolding click_inv_def by (simp add: s')
  show "level (trace s') = action_level (sm_act (sm_state s) SW_ON) (level (trace s))"
    "pending (trace s') = action_pends (sm_act (sm_state s) SW_ON) \<union> (pending (trace s) - {CLICK_TIMER})"
    "timers_set (trace s') = timers_set (trace s) @ action_timers (sm_act (sm_state s) SW_ON)"
    by (simp_all add: s' state_machine_level state_machine_timers st s1_def)
qed

lemma led_fired:
  assumes "click_inv s" "click_step E e s = Some s'" "e \<noteq> Press" "e \<noteq> Click_timeout"
  shows "click_inv s'" "CLICK_TIMER \<in> pending (trace s') \<longleftrightarrow> CLICK_TIMER \<in> pending (trace s)"
    "sm_state s' = sm_state s"
  using assms
  by (cases e; simp add: click_step_def fire_def led_on_timer_callback_def led_off_timer_callback_def
      exec_simps click_inv_def split: if_splits; fastforce)+

interpretation clicks: total_under "click_step E" click_inv "\<lambda>e. e = Press" for E
proof (unfold_locales, goal_cases)
  case (1 s e s')
  then show ?case
    using first_press(1) [of s E s'] second_press(1) [of s E s'] by auto
next
  case (2 s e)
  then show ?case by (simp add: click_step_def)
qed

interpretation all_clicks: kept_by "click_step E" click_inv "\<lambda>_. True" for E
proof (unfold_locales, goal_cases)
  case (1 s e s')
  then show ?case
    using first_press(1) [of s E s'] second_press(1) [of s E s'] timed_out(1) [of s E s']
      led_fired(1) [of s E e s']
    by (cases e) auto
qed

section \<open>Gestures\<close>

text \<open>
  What the user does, as the driver means it: a single click is a press after which the timer runs
  out, a double click is a press while the timer is pending.  \<open>gestures w es\<close> reads the gestures off
  a run of events; \<open>w\<close> says whether a first press is waiting.
\<close>

datatype gesture = Single | Double

fun gesture_input :: "gesture \<Rightarrow> sw_input" where
  "gesture_input Single = SW_ON"
| "gesture_input Double = T_OUT"

fun gestures :: "bool \<Rightarrow> click_event list \<Rightarrow> gesture list" where
  "gestures w [] = []"
| "gestures False (Press # es) = gestures True es"
| "gestures True (Press # es) = Double # gestures False es"
| "gestures w (Click_timeout # es) = Single # gestures False es"
| "gestures w (Led_on i # es) = gestures w es"
| "gestures w (Led_off i # es) = gestures w es"

definition follow :: "gesture list \<Rightarrow> nat \<Rightarrow> nat" where
  "follow gs st = fold (\<lambda>g st. sm_next st (gesture_input g)) gs st"

lemma follow_simps [simp]:
  "follow [] st = st" "follow (g # gs) st = follow gs (sm_next st (gesture_input g))"
  by (simp_all add: follow_def)

lemma run_follows_gestures:
  assumes "click_inv s" "run_events (click_step E) es s = Some s'"
  shows "sm_state s' = follow (gestures (CLICK_TIMER \<in> pending (trace s)) es) (sm_state s)"
  using assms
proof (induction es arbitrary: s)
  case (Cons e es)
  from Cons.prems obtain t where t: "click_step E e s = Some t" and
    run: "run_events (click_step E) es t = Some s'"
    by (auto split: option.splits)
  have inv: "click_inv t"
    using all_clicks.step_keeps [OF Cons.prems(1) _ t] by simp
  note IH = Cons.IH [OF inv run]
  show ?case
  proof (cases e)
    case Press
    then show ?thesis
      using IH t Cons.prems(1) first_press [of s E t] second_press [of s E t]
      by (cases "CLICK_TIMER \<in> pending (trace s)") simp_all
  next
    case Click_timeout
    then show ?thesis
      using IH t Cons.prems(1) timed_out [of s E t] by simp
  qed (use IH t Cons.prems(1) led_fired [of s E e t] in simp_all)
qed simp

fun realise :: "gesture \<Rightarrow> click_event list" where
  "realise Single = [Press, Click_timeout]"
| "realise Double = [Press, Press]"

lemma realise_runs:
  assumes "click_inv s" "CLICK_TIMER \<notin> pending (trace s)"
  shows "\<exists>s'. run_events (click_step E) (realise g) s = Some s' \<and> click_inv s' \<and>
    CLICK_TIMER \<notin> pending (trace s') \<and> sm_state s' = sm_next (sm_state s) (gesture_input g) \<and>
    level (trace s') = action_level (sm_act (sm_state s) (gesture_input g)) (level (trace s)) \<and>
    pending (trace s') = action_pends (sm_act (sm_state s) (gesture_input g)) \<union> pending (trace s) \<and>
    timers_set (trace s') = timers_set (trace s) @
      (CLICK_TIMER, DOUBLE_CLICK_INTERVAL) # action_timers (sm_act (sm_state s) (gesture_input g))"
proof -
  obtain t where t: "click_step E Press s = Some t" by (simp add: click_step_def)
  note p = first_press [OF assms t]
  show ?thesis
  proof (cases g)
    case Single
    from p(2) obtain u where u: "click_step E Click_timeout t = Some u"
      by (simp add: click_step_def fire_def)
    show ?thesis using timed_out [OF p(1) u] p t u Single assms(2) by simp
  next
    case Double
    obtain u where u: "click_step E Press t = Some u" by (simp add: click_step_def)
    show ?thesis using second_press [OF p(1,2) u] p t u Double assms(2) by simp
  qed
qed

lemma all_gestures_run:
  assumes "click_inv s" "CLICK_TIMER \<notin> pending (trace s)"
  shows "\<exists>s'. run_events (click_step E) (concat (map realise gs)) s = Some s' \<and>
    sm_state s' = follow gs (sm_state s)"
  using assms
proof (induction gs arbitrary: s)
  case (Cons g gs)
  then obtain t where "run_events (click_step E) (realise g) s = Some t" "click_inv t"
      "CLICK_TIMER \<notin> pending (trace t)" "sm_state t = sm_next (sm_state s) (gesture_input g)"
    using realise_runs [of s E g] by blast
  with Cons.IH [of t] show ?case by (simp add: run_events_append)
qed simp

text \<open>The LED timers of a sequence, fired in any order, drive their LEDs.\<close>

lemma led_timers_fire:
  assumes "distinct is" "\<forall>i \<in> set is. t i \<in> pending (trace s)" "\<And>i j. t i = t j \<longleftrightarrow> i = j"
    and "\<And>i s. click_step E (ev i) s = fire E (t i) (gpio_set_value E (led_array_map ! i) v) s"
  shows "\<exists>u. run_events (click_step E) (map ev is) s = Some u \<and>
    level (trace u) = drive (map ((!) led_array_map) is) v (level (trace s)) \<and>
    pending (trace u) = pending (trace s) - t ` set is"
  using assms(1,2)
proof (induction "is" arbitrary: s)
  case Nil
  then show ?case by (simp add: drive_def)
next
  case (Cons i "is")
  obtain s1 where s1: "click_step E (ev i) s = Some s1"
      "level (trace s1) = (level (trace s))(led_array_map ! i \<mapsto> v)" "pending (trace s1) = pending (trace s) - {t i}"
    using Cons.prems(2) by (auto simp: assms(4) fire_def exec_simps)
  have "\<forall>j \<in> set is. t j \<in> pending (trace s1)" using Cons.prems assms(3) s1(3) by auto
  from Cons.IH [OF _ this] Cons.prems(1) s1 show ?case
    by (auto simp: drive_def fun_eq_iff)
qed

lemma led_sequence_fires:
  assumes "distinct is" "\<forall>i \<in> set is. LED_ON_TIMER i \<in> pending (trace s)"
  shows "\<exists>u. run_events (click_step E) (map Led_on is) s = Some u \<and>
    level (trace u) = drive (map ((!) led_array_map) is) 1 (level (trace s))"
  using led_timers_fire [OF assms, of E Led_on 1] by (auto simp: click_step_def led_on_timer_callback_def)

lemma drive_first_four:
  assumes "set is = {..<4}"
  shows "drive (map ((!) led_array_map) is) v m = drive (take 4 led_array_map) v m"
proof -
  have "set (map ((!) led_array_map) is) = set (take 4 led_array_map)"
    unfolding set_map assms by (auto simp: led_array_map_def lessThan_nat_numeral lessThan_Suc)
  then show ?thesis by (simp add: drive_def)
qed

section \<open>Loading and unloading\<close>

interpretation reg: gpio_registration "register_gpio_output E" for E
proof (unfold_locales, goal_cases)
  case (1 p)
  show ?case
    unfolding register_gpio_output_def by (intro emits_intros) (auto simp: claim_calls_def)
next
  case (2 p)
  show ?case unfolding register_gpio_output_def by (intro only_trace_intros)
qed

declare reg.wp_claim_all [wp_intros]

definition handler_calls :: "kcall set" where
  "handler_calls = range (\<lambda>(p, v). Gpio (GpioSetValue p v)) \<union> range (\<lambda>p. Gpio (GpioGetValue p)) \<union>
     range (\<lambda>t. Timer (TimerSetup t)) \<union> range (\<lambda>(t, d). Timer (ModTimer t d)) \<union>
     range (\<lambda>t. Timer (DelTimer t)) \<union> range (\<lambda>t. Timer (TimerExpired t)) \<union>
     range (\<lambda>d. Task (Msleep d))"

lemma handler_callsI [simp]:
  "Gpio (GpioSetValue p v) \<in> handler_calls" "Gpio (GpioGetValue p) \<in> handler_calls"
  "Timer (TimerSetup t) \<in> handler_calls" "Timer (ModTimer t d) \<in> handler_calls"
  "Timer (DelTimer t) \<in> handler_calls" "Timer (TimerExpired t) \<in> handler_calls"
  "Task (Msleep d) \<in> handler_calls"
  by (auto simp: handler_calls_def)

lemma emits_handlers [emits_intros]:
  "emits handler_calls (set_bit_led E b)" "emits handler_calls (test_led E)"
  "emits handler_calls (light_first E n)" "emits handler_calls (start_led_on_sequence E)"
  "emits handler_calls (start_led_off_sequence E)" "emits handler_calls (led_on_timer_callback E i)"
  "emits handler_calls (led_off_timer_callback E i)"
  unfolding sm_programs by (intro emits_intros; simp)+

lemma emits_action [emits_intros]: "emits handler_calls (do_action E a)"
  by (cases a) (auto simp: do_action_def intro!: emits_intros)

lemma emits_click [emits_intros]:
  "emits handler_calls (click_timer_callback E)" "emits handler_calls (button_isr E)"
  unfolding button_isr_def click_timer_callback_def state_machine_def Let_def
  by (intro emits_intros; simp)+

lemma handler_keeps:
  assumes "emits handler_calls m"
  shows "held (trace (exec m s)) = held (trace s)" "armed (trace (exec m s)) = armed (trace s)"
  using assms by (auto intro!: emits_held [of handler_calls] emits_armed [of handler_calls]
      simp: handler_calls_def)

lemma action_fields [simp]:
  "irq_number (exec (do_action E a) s) = irq_number s"
  "State_Machine_Driver.toy_class (exec (do_action E a) s) = State_Machine_Driver.toy_class s"
  using only_trace_leds [THEN click_only_trace_fields(3)] only_trace_leds [THEN click_only_trace_fields(4)]
  by (cases a; simp add: do_action_def exec_simps)+

lemma handler_fields [simp]:
  "irq_number (exec (button_isr E) s) = irq_number s"
  "State_Machine_Driver.toy_class (exec (button_isr E) s) = State_Machine_Driver.toy_class s"
  "irq_number (exec (click_timer_callback E) s) = irq_number s"
  "State_Machine_Driver.toy_class (exec (click_timer_callback E) s) = State_Machine_Driver.toy_class s"
  by (simp_all add: button_isr_def click_timer_callback_def state_machine_def Let_def exec_simps)

definition module_resources :: "int \<Rightarrow> resource set" where
  "module_resources irq = {RChrdev, RClass, RDevice, RCdev, RIrq irq, RGpio GPIO_BUTTON} \<union>
     RGpio ` set led_array_map"

definition loaded :: "click_state \<Rightarrow> bool" where
  "loaded s \<longleftrightarrow> held (trace s) \<subseteq> module_resources (irq_number s) \<and> armed (trace s) = {} \<and>
     (RClass \<in> held (trace s) \<or> RDevice \<in> held (trace s) \<longrightarrow> 0 < State_Machine_Driver.toy_class s)"

lemma wp_test_led [wp_intros]:
  assumes "\<And>t. held t = held (trace s) \<Longrightarrow> armed t = armed (trace s) \<Longrightarrow> Q () (s\<lparr>trace := t\<rparr>)"
  shows "wp (test_led E) Q s"
proof -
  obtain t where t: "exec (test_led E) s = s\<lparr>trace := t\<rparr>"
    by (rule only_traceE [OF only_trace_leds(2)])
  then have "Q () (s\<lparr>trace := t\<rparr>)"
    using handler_keeps [OF emits_handlers(2), of E s] by (intro assms) simp_all
  with t show ?thesis by (simp add: wp_def)
qed

lemmas click_error_exits = cerror_def device_error_def reg_error_def gpio_error_def

lemma wp_click_init_loaded:
  "clean s \<Longrightarrow> wp (toy_driver_init E) (\<lambda>r s'. r = 0 \<longrightarrow> loaded s') s"
  unfolding toy_driver_init_def click_error_exits
  by (intro wp_intros) (auto simp: loaded_def clean_def module_resources_def split: if_splits)

lemma wp_click_exit_clean: "loaded s \<Longrightarrow> wp (toy_driver_exit E) (\<lambda>_. clean) s"
  unfolding toy_driver_exit_def
  by (intro wp_intros) (auto simp: loaded_def clean_def module_resources_def)

lemma step_loaded:
  assumes "loaded s" "click_step E e s = Some s'"
  shows "loaded s'"
  using assms handler_keeps [OF emits_click(1), of E] handler_keeps [OF emits_click(2), of E]
    handler_keeps [OF emits_handlers(6), of E] handler_keeps [OF emits_handlers(7), of E]
    only_trace_leds [THEN click_only_trace_fields(3)] only_trace_leds [THEN click_only_trace_fields(4)]
  by (cases e) (auto simp: click_step_def fire_def loaded_def exec_simps split: if_splits)

interpretation module: loadable_module "toy_driver_init E" "toy_driver_exit E" "click_step E" loaded
  for E
proof (unfold_locales, goal_cases)
  case (1 s)
  then show ?case using wp_click_init_loaded [of s E] by (simp add: wp_def)
next
  case (2 s e s')
  then show ?case by (rule step_loaded)
next
  case (3 s)
  then show ?case using wp_click_exit_clean [of s E] by (simp add: wp_def clean_def)
qed

section \<open>Properties\<close>

definition booted :: "kenv \<Rightarrow> click_state" where
  "booted E = exec (toy_driver_init E) click_initial"

text \<open>Loading leaves the click counter, the state and the click timer at rest.\<close>

lemma reg_pending: "pending (trace (exec (register_gpio_output E p) s)) = pending (trace s)"
  by (rule emits_pending [OF reg.reg_emits]) (auto simp: claim_calls_def)

lemma boot_pending:
  "pending (trace (exec (claim_all (register_gpio_output E) ps) s)) = pending (trace s)"
  "pending (trace (exec (test_led E) s)) = pending (trace s)"
  "pending (trace (exec (for_each (gpio_free E) ps) s)) = pending (trace s)"
proof -
  show "pending (trace (exec (claim_all (register_gpio_output E) ps) s)) = pending (trace s)"
    by (induction ps arbitrary: s) (simp_all add: case_prod_beta reg_pending)
  have "emits (range (\<lambda>(p, v). Gpio (GpioSetValue p v)) \<union> range Task) (test_led E)"
    unfolding test_led_def by (intro emits_intros) auto
  then show "pending (trace (exec (test_led E) s)) = pending (trace s)"
    by (rule emits_pending) auto
  show "pending (trace (exec (for_each (gpio_free E) ps) s)) = pending (trace s)"
    by (induction ps arbitrary: s) (simp_all add: exec_simps)
qed

definition at_rest :: "click_state \<Rightarrow> bool" where
  "at_rest s \<longleftrightarrow> pending (trace s) = {} \<and> click_count s = 0 \<and> sm_state s = 0"

lemma wp_only_trace:
  assumes "only_trace m" "at_rest s" "pending (trace (exec m s)) = pending (trace s)"
    and "\<And>r t. at_rest (s\<lparr>trace := t\<rparr>) \<Longrightarrow> Q r (s\<lparr>trace := t\<rparr>)"
  shows "wp m Q s"
proof -
  obtain t where "exec m s = s\<lparr>trace := t\<rparr>" using assms(1) by (rule only_traceE)
  with assms(2-4) show ?thesis by (simp add: wp_def at_rest_def)
qed

lemma wp_claim_rest:
  "at_rest s \<Longrightarrow> (\<And>t. at_rest (s\<lparr>trace := t\<rparr>) \<Longrightarrow> Q () (s\<lparr>trace := t\<rparr>)) \<Longrightarrow>
     wp (claim_all (register_gpio_output E) ps) Q s"
  by (rule wp_only_trace [OF reg.claim_all_frame _ boot_pending(1)]) simp_all

lemma wp_test_rest:
  "at_rest s \<Longrightarrow> (\<And>t. at_rest (s\<lparr>trace := t\<rparr>) \<Longrightarrow> Q () (s\<lparr>trace := t\<rparr>)) \<Longrightarrow> wp (test_led E) Q s"
  by (rule wp_only_trace [OF only_trace_leds(2) _ boot_pending(2)]) simp_all

lemma wp_free_rest:
  "at_rest s \<Longrightarrow> (\<And>t. at_rest (s\<lparr>trace := t\<rparr>) \<Longrightarrow> Q () (s\<lparr>trace := t\<rparr>)) \<Longrightarrow>
     wp (for_each (gpio_free E) ps) Q s"
  by (rule wp_only_trace [OF only_trace_for_each [OF only_trace_perform] _ boot_pending(3)]) simp_all

lemma wp_init_rest: "at_rest s \<Longrightarrow> wp (toy_driver_init E) (\<lambda>_. at_rest) s"
  unfolding toy_driver_init_def click_error_exits
  apply (intro wp_bind wp_return wp_gets wp_modify wp_invoke wp_perform wp_if
      wp_claim_rest wp_test_rest wp_free_rest)
  apply (simp_all add: at_rest_def)
  done

lemma booted_rest: "at_rest (booted E)"
  using wp_init_rest [of click_initial E]
  by (simp add: booted_def wp_def at_rest_def click_initial_def)

lemma booted_click_inv: "click_inv (booted E)" "CLICK_TIMER \<notin> pending (trace (booted E))"
  "sm_state (booted E) = 0"
  using booted_rest [of E] by (simp_all add: at_rest_def click_inv_def)

lemma reach_states:
  "follow [] 0 = 0" "follow [Single] 0 = 1" "follow [Single, Double] 0 = 3"
  "follow [Single, Double, Double] 0 = 4" "follow [Single, Double, Double, Double] 0 = 6"
  by (simp_all add: sm_next_def state_machine_table_def)

lemma booted_runs:
  "\<exists>s. run_events (click_step E) (concat (map realise gs)) (booted E) = Some s \<and> sm_state s = follow gs 0"
  using all_gestures_run [OF booted_click_inv(1,2), where gs = gs and E = E] booted_click_inv(3) by simp

text \<open>
  C3.  The handlers implement the gestures: after loading, on every interleaving of button
  interrupts, click timer callbacks and LED timers, the state is the one the table gives for the
  sequence of single and double clicks the user made.
\<close>

theorem click_refines_gestures:
  assumes "run_events (click_step E) es (booted E) = Some s"
  shows "sm_state s = follow (gestures False es) 0"
  using run_follows_gestures [OF booted_click_inv(1) assms] booted_click_inv [of E] by simp

theorem click_refines_gestures_witness:
  "\<exists>s. run_events (click_step obliging) [Press, Click_timeout, Press, Press] (booted obliging) = Some s \<and>
     sm_state s = 3"
proof -
  obtain s where s: "run_events (click_step obliging) [Press, Click_timeout, Press, Press] (booted obliging) = Some s"
    using booted_runs [of obliging "[Single, Double]"] by auto
  from click_refines_gestures [OF this] reach_states(3) s show ?thesis by auto
qed

text \<open>
  C26.  Of the seven states of the table exactly five can be reached: the driver never produces the
  input \<^verbatim>\<open>SW_OFF\<close>, so the states 2 and 5 and their actions are dead.
\<close>

theorem click_reachable_states:
  "(\<exists>es s. run_events (click_step E) es (booted E) = Some s \<and> sm_state s = st) \<longleftrightarrow> st \<in> {0, 1, 3, 4, 6}"
proof
  assume "\<exists>es s. run_events (click_step E) es (booted E) = Some s \<and> sm_state s = st"
  then obtain es s where run: "run_events (click_step E) es (booted E) = Some s" "sm_state s = st"
    by blast
  have "click_inv s"
    using all_clicks.run_keeps [OF booted_click_inv(1) _ run(1)] by (simp add: list_all_iff)
  with run(2) show "st \<in> {0, 1, 3, 4, 6}" by (auto simp: click_inv_def)
next
  assume "st \<in> {0, 1, 3, 4, 6}"
  then have "st \<in> (\<lambda>gs. follow gs 0) ` {[], [Single], [Single, Double], [Single, Double, Double],
      [Single, Double, Double, Double]}"
    by (simp add: reach_states del: follow_simps)
  then show "\<exists>es s. run_events (click_step E) es (booted E) = Some s \<and> sm_state s = st"
    using booted_runs [of E] by blast
qed

text \<open>
  C25.  What the LEDs show: in a state of the invariant with no click pending, a gesture runs the
  action of the table.  A double click lights the first six LEDs in state 1 and all eight in state 3, and
  darkens all eight in the states 4 and 6; a single click lights six in state 3 and all eight in state 4, and darkens
  all in state 6.  A single click in the states 0 and 1 sets the four timers that light the first four LEDs
  from the first to the last, 200 ms apart; when they have fired, in whatever order, the four LEDs are lit.
  No other gesture sets an LED timer: the sequence that darkens the LEDs is only in entries for the input \<^verbatim>\<open>SW_OFF\<close>
  and for state 2, which are never used.
\<close>

theorem click_gesture_leds:
  assumes "click_inv s" "CLICK_TIMER \<notin> pending (trace s)"
  shows "\<exists>s'. run_events (click_step E) (realise g) s = Some s' \<and>
    level (trace s') = (case (sm_state s, g) of
        (st, Single) \<Rightarrow> if st = 3 then drive (take 6 led_array_map) 1 (level (trace s))
          else if st = 4 then drive led_array_map 1 (level (trace s))
          else if st = 6 then drive led_array_map 0 (level (trace s)) else level (trace s)
      | (st, Double) \<Rightarrow> if st = 1 then drive (take 6 led_array_map) 1 (level (trace s))
          else if st = 3 then drive led_array_map 1 (level (trace s))
          else if st = 4 \<or> st = 6 then drive led_array_map 0 (level (trace s)) else level (trace s)) \<and>
    timers_set (trace s') = timers_set (trace s) @ (CLICK_TIMER, DOUBLE_CLICK_INTERVAL) #
      (if g = Single \<and> sm_state s \<in> {0, 1}
       then [(LED_ON_TIMER 0, 0), (LED_ON_TIMER 1, 200), (LED_ON_TIMER 2, 400), (LED_ON_TIMER 3, 600)] else []) \<and>
    (\<forall>is. g = Single \<and> sm_state s \<in> {0, 1} \<and> distinct is \<and> set is = {..<4} \<longrightarrow>
      (\<exists>u. run_events (click_step E) (map Led_on is) s' = Some u \<and>
        level (trace u) = drive (take 4 led_array_map) 1 (level (trace s))))"
proof -
  let ?a = "sm_act (sm_state s) (gesture_input g)"
  obtain s' where s': "run_events (click_step E) (realise g) s = Some s'"
      "level (trace s') = action_level ?a (level (trace s))"
      "pending (trace s') = action_pends ?a \<union> pending (trace s)"
      "timers_set (trace s') = timers_set (trace s) @ (CLICK_TIMER, DOUBLE_CLICK_INTERVAL) # action_timers ?a"
    using realise_runs [OF assms, of E g] by blast
  have st: "sm_state s \<in> {0, 1, 3, 4, 6}" using assms(1) by (simp add: click_inv_def)
  have four: "[0..<4] = [0, 1, 2, 3::nat]" by (simp add: upt_rec)
  have act: "?a = ACTION_LEFT_ON" if "g = Single" "sm_state s \<in> {0, 1}"
    using that by (auto simp: sm_act_def state_machine_table_def)
  have lev: "action_level ?a (level (trace s)) = (case (sm_state s, g) of
        (st, Single) \<Rightarrow> if st = 3 then drive (take 6 led_array_map) 1 (level (trace s))
          else if st = 4 then drive led_array_map 1 (level (trace s))
          else if st = 6 then drive led_array_map 0 (level (trace s)) else level (trace s)
      | (st, Double) \<Rightarrow> if st = 1 then drive (take 6 led_array_map) 1 (level (trace s))
          else if st = 3 then drive led_array_map 1 (level (trace s))
          else if st = 4 \<or> st = 6 then drive led_array_map 0 (level (trace s)) else level (trace s))"
    using st by (cases g) (auto simp: sm_act_def state_machine_table_def action_level_def)
  have tim: "action_timers ?a = (if g = Single \<and> sm_state s \<in> {0, 1}
       then [(LED_ON_TIMER 0, 0), (LED_ON_TIMER 1, 200), (LED_ON_TIMER 2, 400), (LED_ON_TIMER 3, 600)] else [])"
    using st by (cases g) (auto simp: sm_act_def state_machine_table_def action_timers_def four)
  have fire: "\<exists>u. run_events (click_step E) (map Led_on is) s' = Some u \<and>
      level (trace u) = drive (take 4 led_array_map) 1 (level (trace s))"
    if "g = Single" "sm_state s \<in> {0, 1}" "distinct is" "set is = {..<4}" for "is"
  proof -
    note a = act [OF that(1,2)]
    have "\<forall>i \<in> set is. LED_ON_TIMER i \<in> pending (trace s')"
      unfolding s'(3) a that(4) by (auto simp: action_pends_def action_timers_def image_image)
    moreover have "level (trace s') = level (trace s)" unfolding s'(2) a by (simp add: action_level_def)
    ultimately show ?thesis
      using led_sequence_fires [OF that(3), of s' E] drive_first_four [OF that(4)] by simp
  qed
  show ?thesis
  proof (rule exI [of _ s'], intro conjI allI impI)
    fix "is" :: "nat list" assume "g = Single \<and> sm_state s \<in> {0, 1} \<and> distinct is \<and> set is = {..<4}"
    then show "\<exists>u. run_events (click_step E) (map Led_on is) s' = Some u \<and>
        level (trace u) = drive (take 4 led_array_map) 1 (level (trace s))" using fire by blast
  qed (rule s'(1), rule s'(2) [unfolded lev], rule s'(4) [unfolded tim])
qed

theorem click_gesture_leds_witness:
  "\<exists>s' u. run_events (click_step obliging) (realise Single) (booted obliging) = Some s' \<and>
     run_events (click_step obliging) (map Led_on [0, 1, 2, 3]) s' = Some u \<and>
     level (trace u) = drive (take 4 led_array_map) 1 (level (trace (booted obliging)))"
proof -
  have "distinct [0, 1, 2, 3 :: nat] \<and> set [0, 1, 2, 3 :: nat] = {..<4}" by auto
  with click_gesture_leds [OF booted_click_inv(1,2), of obliging Single] booted_click_inv(3) [of obliging]
  show ?thesis by blast
qed

text \<open>
  The LED timers are set up anew with every sequence: a second single click before the sequence of the first
  one is over makes the driver initialise timers that are still pending.
\<close>

definition sets_up_pending :: "(kcall \<times> int) list \<Rightarrow> bool" where
  "sets_up_pending h \<longleftrightarrow> (\<exists>g t r k. h = g @ (Timer (TimerSetup t), r) # k \<and> t \<in> pending g)"

theorem click_timer_reinitialised:
  "\<exists>s. run_events (click_step E) (concat (map realise [Single, Single])) (booted E) = Some s \<and>
    sets_up_pending (trace s)"
proof -
  obtain s where s: "run_events (click_step E) (realise Single) (booted E) = Some s" "click_inv s"
      "CLICK_TIMER \<notin> pending (trace s)" "sm_state s = 1"
      "pending (trace s) = action_pends (sm_act 0 SW_ON) \<union> pending (trace (booted E))"
    using realise_runs [OF booted_click_inv(1,2) [of E], where E = E and g = Single] reach_states(2)
    unfolding booted_click_inv(3) [of E] gesture_input.simps follow_simps by metis
  have on: "LED_ON_TIMER 0 \<in> pending (trace s)"
    unfolding s(5) by (simp add: sm_act_def state_machine_table_def action_pends_def action_timers_def upt_rec)
  obtain t where t: "click_step E Press s = Some t" by (simp add: click_step_def)
  note p = first_press [OF s(2,3) t]
  then obtain u where u: "click_step E Click_timeout t = Some u" by (simp add: click_step_def fire_def)
  define t1 where "t1 = exec (perform E (Timer (TimerExpired CLICK_TIMER))) t"
  have "click_count t1 = 1" "sm_state t1 = 1" "LED_ON_TIMER 0 \<in> pending (trace t1)"
    using p on s(4) by (auto simp: t1_def click_inv_def exec_simps)
  moreover have "u = exec (click_timer_callback E) t1"
    using u p(2) by (simp add: click_step_def fire_def t1_def)
  moreover have "state_machine_table ! 1 ! input_index SW_ON = elem 1 ACTION_LEFT_ON"
    by (simp add: state_machine_table_def)
  ultimately obtain r k where "trace u = trace t1 @ (Timer (TimerSetup (LED_ON_TIMER 0)), r) # k"
    by (simp add: click_timer_callback_def state_machine_def exec_simps Let_def do_action_def
        start_led_on_sequence_def upt_rec)
  with \<open>LED_ON_TIMER 0 \<in> pending (trace t1)\<close> have "sets_up_pending (trace u)" unfolding sets_up_pending_def by blast
  moreover have "run_events (click_step E) (concat (map realise [Single, Single])) (booted E) = Some u"
  proof -
    have "run_events (click_step E) (realise Single) s = Some u" using t u by simp
    with s(1) show ?thesis
      by (simp only: list.map concat.simps append_Nil2 run_events_append option.case)
  qed
  ultimately show ?thesis by blast
qed

text \<open>
  Loading the module, using it in any way and unloading it gives back every pin, the interrupt,
  the device and its class, and the device number.
\<close>

theorem click_session_clean:
  assumes "clean s" "result (toy_driver_init E) s = 0"
    and "run_events (click_step E) es (exec (toy_driver_init E) s) = Some s'"
  shows "clean (exec (toy_driver_exit E) s')"
  using assms by (rule module.session_clean)

lemma obliging_click_boot: "result (toy_driver_init obliging) click_initial = 0"
  by (simp add: toy_driver_init_def exec_simps click_initial_def led_array_map_def
      register_gpio_output_def)

theorem click_session_clean_witness:
  "\<exists>s'. run_events (click_step obliging) (realise Single) (exec (toy_driver_init obliging) click_initial) =
     Some s' \<and> clean (exec (toy_driver_exit obliging) s')"
proof -
  have "clean click_initial" by (simp add: clean_def click_initial_def)
  moreover obtain s' where "run_events (click_step obliging) (realise Single)
      (exec (toy_driver_init obliging) click_initial) = Some s'"
    using realise_runs [OF booted_click_inv(1,2), of obliging Single] by (auto simp: booted_def)
  ultimately show ?thesis using click_session_clean [OF _ obliging_click_boot] by blast
qed

lemma exit_pending:
  "pending (trace (exec (toy_driver_exit E) s)) = pending (trace s) - {CLICK_TIMER}"
  by (simp add: toy_driver_exit_def exec_simps boot_pending)

lemma single_click_pending:
  assumes "at_rest s" "run_events (click_step E) (realise Single) s = Some s'"
  shows "pending (trace s') = LED_ON_TIMER ` {..<4}"
proof -
  have "pending (trace (exec (state_machine E SW_ON) t)) = LED_ON_TIMER ` {..<4} \<union> pending (trace t)"
    if "sm_state t = 0" for t
    using that by (simp add: state_machine_def exec_simps Let_def action_pending state_machine_table_def)
  with assms show ?thesis
    by (auto simp: click_step_def button_isr_def fire_def click_timer_callback_def exec_simps at_rest_def
        split: if_splits)
qed

text \<open>
  Unloading stops the click timer but not the LED timers: after one single click and unloading,
  the four timers that light the first LEDs are still pending, with callbacks in code that is gone.
\<close>

theorem click_unload_leaves_timers:
  assumes "run_events (click_step E) (realise Single) (booted E) = Some s"
  shows "pending (trace (exec (toy_driver_exit E) s)) =
    {LED_ON_TIMER 0, LED_ON_TIMER 1, LED_ON_TIMER 2, LED_ON_TIMER 3}"
  using single_click_pending [OF booted_rest assms]
  by (auto simp: exit_pending lessThan_nat_numeral lessThan_Suc)

theorem click_unload_leaves_timers_witness:
  "\<exists>s. run_events (click_step obliging) (realise Single) (booted obliging) = Some s \<and>
     LED_ON_TIMER 3 \<in> pending (trace (exec (toy_driver_exit obliging) s))"
proof -
  obtain s where s: "run_events (click_step obliging) (realise Single) (booted obliging) = Some s"
    using booted_runs [of obliging "[Single]"] by auto
  from click_unload_leaves_timers [OF s] s show ?thesis by simp
qed

definition no_irq :: kenv where
  "no_irq h c = (if c = Gpio (RequestIrq 0 IRQF_TRIGGER_FALLING) then - 16 else obliging h c)"

text \<open>
  When the interrupt cannot be had, loading passes the kernel's error on at once, and keeps the
  pins, the device, its class and the device number: the error exit is not taken.
\<close>

theorem click_irq_failure_leaks:
  "result (toy_driver_init no_irq) click_initial = - 16 \<and>
   {RChrdev, RClass, RDevice, RCdev, RGpio GPIO_BUTTON} \<subseteq>
     held (trace (exec (toy_driver_init no_irq) click_initial))"
  by (simp add: toy_driver_init_def exec_simps click_initial_def led_array_map_def test_led_def upt_rec
      register_gpio_output_def no_irq_def GPIO_BUTTON_def held_def)

text \<open>
  A write to the device is in bounds exactly for at most 1024 bytes: the count of the caller is
  not checked, and a longer one overruns \<^verbatim>\<open>kernel_write_buffer\<close>.
\<close>

theorem click_write_bounds:
  assumes "length (kernel_write_buffer s) = BUF_SIZE"
  shows "result (toy_driver_write E buf) s =
      (if length buf \<le> 1024 then Some (int (length buf)) else None) \<and>
    length (kernel_write_buffer (exec (toy_driver_write E buf) s)) = BUF_SIZE"
  using assms by (auto simp: toy_driver_write_def copy_in_def exec_simps BUF_SIZE_def Let_def)

theorem click_write_bounds_witness:
  "result (toy_driver_write obliging (replicate 1025 0)) click_initial = None"
  using click_write_bounds [of click_initial obliging "replicate 1025 0"]
  by (simp add: click_initial_def)

end
