(* ===== verification/Simple_Io_Driver.thy ===== *)
theory Simple_Io_Driver
  imports Kernel_Calls
begin

text \<open>
  The LED demo driver, \<^verbatim>\<open>src/drivers/simple_io/simple_io.c\<close>: a kernel thread cycles through six
  examples; a write to the device sets the shared \<^verbatim>\<open>wait_queue_flag\<close> that tells the running example
  to go on or to stop.  Every function of the file is modelled.  The thread runs concurrently with
  the device writes and with the unloading of the module, so each example is cut at the places
  where the flag is read or written: one step of the thread is the code between two such places.
  A write and the unloading are one event each.

  The wait queue is as the kernel documents it: \<^verbatim>\<open>wait_event_interruptible\<close> tests its condition, and when it does
  not hold the thread goes to sleep in the queue, with no wake up lost between the test and the sleep;
  it looks at the condition again only after \<^verbatim>\<open>wake_up_interruptible\<close> took it out of the queue.  A kernel
  thread blocks all signals, so nothing else wakes it.
\<close>

section \<open>Constants and state\<close>

definition TOY_GPIO_OUTPUT_LEFT_1 :: nat where "TOY_GPIO_OUTPUT_LEFT_1 = 17"
definition TOY_GPIO_OUTPUT_LEFT_2 :: nat where "TOY_GPIO_OUTPUT_LEFT_2 = 27"
definition TOY_GPIO_OUTPUT_LEFT_3 :: nat where "TOY_GPIO_OUTPUT_LEFT_3 = 22"
definition TOY_GPIO_OUTPUT_LEFT_4 :: nat where "TOY_GPIO_OUTPUT_LEFT_4 = 5"
definition TOY_GPIO_OUTPUT_RIGHT_1 :: nat where "TOY_GPIO_OUTPUT_RIGHT_1 = 6"
definition TOY_GPIO_OUTPUT_RIGHT_2 :: nat where "TOY_GPIO_OUTPUT_RIGHT_2 = 26"
definition TOY_GPIO_OUTPUT_RIGHT_3 :: nat where "TOY_GPIO_OUTPUT_RIGHT_3 = 23"
definition TOY_GPIO_OUTPUT_RIGHT_4 :: nat where "TOY_GPIO_OUTPUT_RIGHT_4 = 24"
definition TOY_GPIO_INPUT :: nat where "TOY_GPIO_INPUT = 16"
definition BUF_SIZE :: nat where "BUF_SIZE = 1024"

lemmas sio_gpio_pins =
  TOY_GPIO_OUTPUT_LEFT_1_def TOY_GPIO_OUTPUT_LEFT_2_def TOY_GPIO_OUTPUT_LEFT_3_def
  TOY_GPIO_OUTPUT_LEFT_4_def TOY_GPIO_OUTPUT_RIGHT_1_def TOY_GPIO_OUTPUT_RIGHT_2_def
  TOY_GPIO_OUTPUT_RIGHT_3_def TOY_GPIO_OUTPUT_RIGHT_4_def TOY_GPIO_INPUT_def

definition WAIT_QUEUE_WAIT :: s32 where "WAIT_QUEUE_WAIT = 0"
definition WAIT_QUEUE_KEY :: s32 where "WAIT_QUEUE_KEY = 1"
definition WAIT_QUEUE_NEXT :: s32 where "WAIT_QUEUE_NEXT = 2"
definition WAIT_QUEUE_EXIT :: s32 where "WAIT_QUEUE_EXIT = 3"

lemmas queue_flags =
  WAIT_QUEUE_WAIT_def WAIT_QUEUE_KEY_def WAIT_QUEUE_NEXT_def WAIT_QUEUE_EXIT_def

text \<open>
  Where the thread is: at the entry of an example, at the top of its loop, before it resets the
  flag, at the test of \<^verbatim>\<open>wait_event_interruptible\<close>, asleep in it, at the first and at the second comparison of
  the test that leaves the loop, in the inner loop of the sixth example, at the \<^verbatim>\<open>return wait_queue_flag\<close>.
  The bool is the local LED variable of the example.
\<close>

datatype point =
    Enter | Body bool | Reset bool | Wait bool | Sleep bool | Check bool | Check_next bool | Release bool | Return

datatype thread_pc = Not_started | Running nat point | Exited

record sio_state = "kcall io" +
  toy_class :: int
  wait_thread :: int
  wait_queue_flag :: s32
  kernel_write_buffer :: "u8 list"
  pc :: thread_pc
  in_wait_queue :: bool

definition sio_initial :: sio_state where
  "sio_initial = \<lparr>trace = [], toy_class = 0, wait_thread = 0, wait_queue_flag = WAIT_QUEUE_WAIT,
     kernel_write_buffer = replicate BUF_SIZE 0, pc = Not_started, in_wait_queue = False\<rparr>"

type_synonym 'a sio_prog = "(sio_state, 'a) state"

text \<open>\<^verbatim>\<open>wake_up_interruptible(&wait_queue)\<close>; only the kernel thread ever waits in this queue.\<close>

definition wake_up_waiter :: "kenv \<Rightarrow> unit sio_prog" where
  "wake_up_waiter E = do {
     wake_up_interruptible E;
     modify (\<lambda>s. s\<lparr>in_wait_queue := False\<rparr>) }"

section \<open>LED macros\<close>

definition LED_LEFT_ON :: "kenv \<Rightarrow> unit sio_prog" where
  "LED_LEFT_ON E = do {
     gpio_set_value E TOY_GPIO_OUTPUT_LEFT_1 1;
     gpio_set_value E TOY_GPIO_OUTPUT_LEFT_2 1;
     gpio_set_value E TOY_GPIO_OUTPUT_LEFT_3 1;
     gpio_set_value E TOY_GPIO_OUTPUT_LEFT_4 1 }"

definition LED_LEFT_OFF :: "kenv \<Rightarrow> unit sio_prog" where
  "LED_LEFT_OFF E = do {
     gpio_set_value E TOY_GPIO_OUTPUT_LEFT_1 0;
     gpio_set_value E TOY_GPIO_OUTPUT_LEFT_2 0;
     gpio_set_value E TOY_GPIO_OUTPUT_LEFT_3 0;
     gpio_set_value E TOY_GPIO_OUTPUT_LEFT_4 0 }"

definition LED_RIGHT_ON :: "kenv \<Rightarrow> unit sio_prog" where
  "LED_RIGHT_ON E = do {
     gpio_set_value E TOY_GPIO_OUTPUT_RIGHT_1 1;
     gpio_set_value E TOY_GPIO_OUTPUT_RIGHT_2 1;
     gpio_set_value E TOY_GPIO_OUTPUT_RIGHT_3 1;
     gpio_set_value E TOY_GPIO_OUTPUT_RIGHT_4 1 }"

definition LED_RIGHT_OFF :: "kenv \<Rightarrow> unit sio_prog" where
  "LED_RIGHT_OFF E = do {
     gpio_set_value E TOY_GPIO_OUTPUT_RIGHT_1 0;
     gpio_set_value E TOY_GPIO_OUTPUT_RIGHT_2 0;
     gpio_set_value E TOY_GPIO_OUTPUT_RIGHT_3 0;
     gpio_set_value E TOY_GPIO_OUTPUT_RIGHT_4 0 }"

section \<open>File operations\<close>

definition toy_driver_read :: "nat \<Rightarrow> int sio_prog" where
  "toy_driver_read count = State_Monad.return (int BUF_SIZE)"

text \<open>\<open>None\<close>: the write ran past \<^verbatim>\<open>kernel_write_buffer\<close>.\<close>

definition toy_driver_write :: "kenv \<Rightarrow> u8 list \<Rightarrow> int option sio_prog" where
  "toy_driver_write E buf = do {
     kb \<leftarrow> gets kernel_write_buffer;
     kb' \<leftarrow> copy_in E kb buf;
     (case kb' of
        None \<Rightarrow> State_Monad.return None
      | Some b \<Rightarrow> do {
          modify (\<lambda>s. s\<lparr>kernel_write_buffer := b\<rparr>);
          (if b ! 0 = 0 then
             modify (\<lambda>s. s\<lparr>wait_queue_flag := WAIT_QUEUE_WAIT\<rparr>)
           else if b ! 0 = 1 then do {
             modify (\<lambda>s. s\<lparr>wait_queue_flag := WAIT_QUEUE_KEY\<rparr>);
             wake_up_waiter E }
           else if b ! 0 = 2 then do {
             modify (\<lambda>s. s\<lparr>wait_queue_flag := WAIT_QUEUE_NEXT\<rparr>);
             wake_up_waiter E }
           else State_Monad.return ());
          State_Monad.return (Some (int (length buf))) }) }"

definition toy_driver_open :: "int sio_prog" where
  "toy_driver_open = State_Monad.return 0"

definition toy_driver_close :: "int sio_prog" where
  "toy_driver_close = State_Monad.return 0"

section \<open>The six examples\<close>

text \<open>
  One step of an example: go on at a point, stay blocked in the wait queue, or return the flag.
  A point an example does not have is never reached; it blocks.
\<close>

datatype outcome = Goto point | Blocked | Returned s32

text \<open>
  The test \<^verbatim>\<open>wait_queue_flag == WAIT_QUEUE_EXIT || wait_queue_flag == WAIT_QUEUE_NEXT\<close> at which every example leaves its
  loop, one reading of the flag after the other, and the \<^verbatim>\<open>return\<close>, which reads it once more.
\<close>

definition leave_or_repeat :: "point \<Rightarrow> outcome sio_prog" where
  "leave_or_repeat pt = (case pt of
       Check led \<Rightarrow> do {
         f \<leftarrow> gets wait_queue_flag;
         State_Monad.return (Goto (if f = WAIT_QUEUE_EXIT then Return else Check_next led)) }
     | Check_next led \<Rightarrow> do {
         f \<leftarrow> gets wait_queue_flag;
         State_Monad.return (Goto (if f = WAIT_QUEUE_NEXT then Return else Body led)) }
     | Return \<Rightarrow> do {
         f \<leftarrow> gets wait_queue_flag;
         State_Monad.return (Returned f) }
     | _ \<Rightarrow> State_Monad.return Blocked)"

text \<open>
  The end of the loop body of the first three examples, from the reset of the flag on.  \<^verbatim>\<open>wait_event_interruptible\<close>
  enters the thread in the wait queue before it tests the flag and sleeps only when it is still there, so a test that
  fails and the entry are one step.  A sleeping thread reads the flag again only after a wake up has taken it out.
\<close>

definition reset_and_wait :: "point \<Rightarrow> outcome sio_prog" where
  "reset_and_wait pt = (case pt of
       Reset led \<Rightarrow> do {
         modify (\<lambda>s. s\<lparr>wait_queue_flag := WAIT_QUEUE_WAIT\<rparr>);
         State_Monad.return (Goto (Wait led)) }
     | Wait led \<Rightarrow> do {
         f \<leftarrow> gets wait_queue_flag;
         if f \<noteq> WAIT_QUEUE_WAIT then State_Monad.return (Goto (Check led))
         else do {
           modify (\<lambda>s. s\<lparr>in_wait_queue := True\<rparr>);
           State_Monad.return (Goto (Sleep led)) } }
     | Sleep led \<Rightarrow> do {
         asleep \<leftarrow> gets in_wait_queue;
         State_Monad.return (if asleep then Blocked else Goto (Wait led)) }
     | _ \<Rightarrow> leave_or_repeat pt)"

definition toy_simple_io_example_1 :: "kenv \<Rightarrow> point \<Rightarrow> outcome sio_prog" where
  "toy_simple_io_example_1 E pt = (case pt of
       Enter \<Rightarrow> State_Monad.return (Goto (Body False))
     | Body led \<Rightarrow>
         (if led then do {
            LED_LEFT_OFF E;
            State_Monad.return (Goto (Reset False)) }
          else do {
            LED_LEFT_ON E;
            State_Monad.return (Goto (Reset True)) })
     | _ \<Rightarrow> reset_and_wait pt)"

definition toy_simple_io_example_2 :: "kenv \<Rightarrow> point \<Rightarrow> outcome sio_prog" where
  "toy_simple_io_example_2 E pt = (case pt of
       Enter \<Rightarrow> State_Monad.return (Goto (Body False))
     | Body led \<Rightarrow>
         (if led then do {
            LED_RIGHT_OFF E;
            State_Monad.return (Goto (Reset False)) }
          else do {
            LED_RIGHT_ON E;
            State_Monad.return (Goto (Reset True)) })
     | _ \<Rightarrow> reset_and_wait pt)"

definition toy_simple_io_example_3 :: "kenv \<Rightarrow> point \<Rightarrow> outcome sio_prog" where
  "toy_simple_io_example_3 E pt = (case pt of
       Enter \<Rightarrow> State_Monad.return (Goto (Body False))
     | Body led \<Rightarrow>
         (if led then do {
            LED_RIGHT_OFF E;
            LED_LEFT_ON E;
            State_Monad.return (Goto (Reset False)) }
          else do {
            LED_RIGHT_ON E;
            LED_LEFT_OFF E;
            State_Monad.return (Goto (Reset True)) })
     | _ \<Rightarrow> reset_and_wait pt)"

definition toy_simple_io_example_4 :: "kenv \<Rightarrow> point \<Rightarrow> outcome sio_prog" where
  "toy_simple_io_example_4 E pt = (case pt of
       Enter \<Rightarrow> do {
         modify (\<lambda>s. s\<lparr>wait_queue_flag := WAIT_QUEUE_WAIT\<rparr>);
         State_Monad.return (Goto (Body False)) }
     | Body led \<Rightarrow> do {
         (if led then do { LED_RIGHT_OFF E; LED_LEFT_ON E }
          else do { LED_RIGHT_ON E; LED_LEFT_OFF E });
         usleep_range E 100000 100001;
         State_Monad.return (Goto (Check (\<not> led))) }
     | _ \<Rightarrow> leave_or_repeat pt)"

definition toy_simple_io_example_5 :: "kenv \<Rightarrow> point \<Rightarrow> outcome sio_prog" where
  "toy_simple_io_example_5 E pt = (case pt of
       Enter \<Rightarrow> do {
         modify (\<lambda>s. s\<lparr>wait_queue_flag := WAIT_QUEUE_WAIT\<rparr>);
         State_Monad.return (Goto (Body False)) }
     | Body led \<Rightarrow> do {
         input_switch_value \<leftarrow> gpio_get_value E TOY_GPIO_INPUT;
         (if input_switch_value = 1 then do { LED_LEFT_ON E; LED_RIGHT_OFF E }
          else do { LED_RIGHT_ON E; LED_LEFT_OFF E });
         usleep_range E 100 101;
         State_Monad.return (Goto (Check led)) }
     | _ \<Rightarrow> leave_or_repeat pt)"

definition toy_simple_io_example_6 :: "kenv \<Rightarrow> point \<Rightarrow> outcome sio_prog" where
  "toy_simple_io_example_6 E pt = (case pt of
       Enter \<Rightarrow> do {
         modify (\<lambda>s. s\<lparr>wait_queue_flag := WAIT_QUEUE_WAIT\<rparr>);
         State_Monad.return (Goto (Check False)) }
     | Body oldvalue \<Rightarrow> do {
         input_switch_value \<leftarrow> gpio_get_value E TOY_GPIO_INPUT;
         if input_switch_value = 1 then do {
           usleep_range E 1000 1001;
           State_Monad.return (Goto (Check oldvalue)) }
         else do {
           (if oldvalue then do { LED_LEFT_ON E; LED_RIGHT_OFF E }
            else do { LED_LEFT_OFF E; LED_RIGHT_ON E });
           State_Monad.return (Goto (Release (\<not> oldvalue))) } }
     | Release oldvalue \<Rightarrow> do {
         v \<leftarrow> gpio_get_value E TOY_GPIO_INPUT;
         if v = 0 then do {
           usleep_range E 1000 1001;
           State_Monad.return (Goto (Release oldvalue)) }
         else State_Monad.return (Goto (Check oldvalue)) }
     | _ \<Rightarrow> leave_or_repeat pt)"

lemmas examples =
  toy_simple_io_example_1_def toy_simple_io_example_2_def toy_simple_io_example_3_def
  toy_simple_io_example_4_def toy_simple_io_example_5_def toy_simple_io_example_6_def
  reset_and_wait_def leave_or_repeat_def

definition example :: "kenv \<Rightarrow> nat \<Rightarrow> point \<Rightarrow> outcome sio_prog" where
  "example E n = (if n = 1 then toy_simple_io_example_1 E else if n = 2 then toy_simple_io_example_2 E
     else if n = 3 then toy_simple_io_example_3 E else if n = 4 then toy_simple_io_example_4 E
     else if n = 5 then toy_simple_io_example_5 E else toy_simple_io_example_6 E)"

text \<open>
  One step of the kernel thread; \<open>None\<close> when it is blocked or has ended.  An example that returned
  \<^verbatim>\<open>WAIT_QUEUE_EXIT\<close> ends the thread, any other value goes on to the next example.
\<close>

definition simple_io_kthread :: "kenv \<Rightarrow> sio_state \<Rightarrow> sio_state option" where
  "simple_io_kthread E s = (case pc s of
       Not_started \<Rightarrow> None
     | Exited \<Rightarrow> None
     | Running n pt \<Rightarrow>
         (case run_state (example E n pt) s of
            (Goto pt', s') \<Rightarrow> Some (s'\<lparr>pc := Running n pt'\<rparr>)
          | (Blocked, s') \<Rightarrow> None
          | (Returned f, s') \<Rightarrow>
              Some (s'\<lparr>pc := (if f = WAIT_QUEUE_EXIT then Exited
                              else Running (if n = 6 then 1 else n + 1) Enter)\<rparr>)))"

section \<open>Loading and unloading the module\<close>

definition register_gpio_output :: "kenv \<Rightarrow> nat \<Rightarrow> int sio_prog" where
  "register_gpio_output E gpio_num = do {
     busy \<leftarrow> gpio_request E gpio_num (''toy-gpio-'' @ show_nat gpio_num);
     if busy \<noteq> 0 then State_Monad.return (-1)
     else do {
       refused \<leftarrow> gpio_direction_output E gpio_num 0;
       if refused \<noteq> 0 then State_Monad.return (-1) else State_Monad.return 0 } }"

definition output_pins :: "nat list" where
  "output_pins = [TOY_GPIO_OUTPUT_LEFT_1, TOY_GPIO_OUTPUT_LEFT_2, TOY_GPIO_OUTPUT_LEFT_3,
     TOY_GPIO_OUTPUT_LEFT_4, TOY_GPIO_OUTPUT_RIGHT_1, TOY_GPIO_OUTPUT_RIGHT_2,
     TOY_GPIO_OUTPUT_RIGHT_3, TOY_GPIO_OUTPUT_RIGHT_4]"

definition cerror :: "kenv \<Rightarrow> int sio_prog" where
  "cerror E = do { unregister_chrdev_region E; State_Monad.return (-1) }"

definition device_error :: "kenv \<Rightarrow> int sio_prog" where
  "device_error E = do { c \<leftarrow> gets toy_class; class_destroy E c; cerror E }"

definition reg_error :: "kenv \<Rightarrow> int sio_prog" where
  "reg_error E = do { c \<leftarrow> gets toy_class; device_destroy E c; device_error E }"

definition gpio_error :: "kenv \<Rightarrow> int sio_prog" where
  "gpio_error E = do {
     gpio_free E TOY_GPIO_INPUT;
     for_each (gpio_free E) output_pins;
     reg_error E }"

text \<open>The thread starts at the first example once it is woken up.\<close>

definition toy_module_init :: "kenv \<Rightarrow> int sio_prog" where
  "toy_module_init E = do {
     r \<leftarrow> alloc_chrdev_region E ''toy_simple_io_driver'';
     if r < 0 then State_Monad.return (-1) else do {
     c \<leftarrow> class_create E ''toy_simple_io_class'';
     modify (\<lambda>s. s\<lparr>toy_class := c\<rparr>);
     if c = 0 then cerror E else do {
     d \<leftarrow> device_create E c ''toy_simple_io_driver'';
     if d = 0 then device_error E else do {
     cdev_init E;
     a \<leftarrow> cdev_add E;
     if a = -1 then reg_error E else do {
     claim_all (register_gpio_output E) output_pins;
     busy \<leftarrow> gpio_request E TOY_GPIO_INPUT ''toy-gpio-16'';
     if busy \<noteq> 0 then gpio_error E else do {
     refused \<leftarrow> gpio_direction_input E TOY_GPIO_INPUT;
     if refused \<noteq> 0 then gpio_error E else do {
     th \<leftarrow> kthread_create E ''simple io thread'';
     modify (\<lambda>s. s\<lparr>wait_thread := th\<rparr>);
     (if th \<noteq> 0 then do {
        wake_up_process E th;
        modify (\<lambda>s. s\<lparr>pc := Running 1 Enter\<rparr>) }
      else State_Monad.return ());
     State_Monad.return 0 }}}}}}}"

definition toy_module_exit :: "kenv \<Rightarrow> unit sio_prog" where
  "toy_module_exit E = do {
     modify (\<lambda>s. s\<lparr>wait_queue_flag := WAIT_QUEUE_EXIT\<rparr>);
     wake_up_waiter E;
     gpio_set_value E TOY_GPIO_INPUT 0;
     gpio_free E TOY_GPIO_INPUT;
     for_each (gpio_free E) output_pins;
     cdev_del E;
     c \<leftarrow> gets toy_class;
     device_destroy E c;
     class_destroy E c;
     unregister_chrdev_region E }"

section \<open>What the LED macros do\<close>

lemmas led_macros = LED_LEFT_ON_def LED_LEFT_OFF_def LED_RIGHT_ON_def LED_RIGHT_OFF_def

definition left_pins :: "nat set" where "left_pins = {17, 27, 22, 5}"
definition right_pins :: "nat set" where "right_pins = {6, 26, 23, 24}"

lemmas bank_pins = left_pins_def right_pins_def

interpretation leds: led_pair
  "LED_LEFT_ON E" "LED_LEFT_OFF E" left_pins "LED_RIGHT_ON E" "LED_RIGHT_OFF E" right_pins for E
  by unfold_locales
    (auto simp: led_macros sio_gpio_pins bank_pins exec_simps fun_eq_iff intro!: emits_intros)

lemma bank_pinsD: "p \<in> left_pins \<Longrightarrow> p \<notin> right_pins" "p \<in> right_pins \<Longrightarrow> p \<notin> left_pins"
  by (auto simp: bank_pins)

lemma input_not_led [simp]: "TOY_GPIO_INPUT \<notin> left_pins" "TOY_GPIO_INPUT \<notin> right_pins"
  by (auto simp: bank_pins sio_gpio_pins)

lemma only_trace_macros [only_trace_intros]:
  "only_trace (LED_LEFT_ON E)" "only_trace (LED_LEFT_OFF E)"
  "only_trace (LED_RIGHT_ON E)" "only_trace (LED_RIGHT_OFF E)"
  unfolding led_macros by (intro only_trace_intros)+

lemma sio_only_trace_fields:
  assumes "only_trace m"
  shows "wait_queue_flag (exec m s) = wait_queue_flag s" "pc (exec m s) = pc s"
    "Simple_Io_Driver.toy_class (exec m s) = Simple_Io_Driver.toy_class s"
    "Simple_Io_Driver.kernel_write_buffer (exec m s) = Simple_Io_Driver.kernel_write_buffer s"
    "in_wait_queue (exec m s) = in_wait_queue s"
  using assms by (auto elim: only_traceE [of m s])

lemmas macro_fields [simp] = only_trace_macros [THEN sio_only_trace_fields(1)]
  only_trace_macros [THEN sio_only_trace_fields(2)] only_trace_macros [THEN sio_only_trace_fields(3)]
  only_trace_macros [THEN sio_only_trace_fields(4)] only_trace_macros [THEN sio_only_trace_fields(5)]

lemmas macro_effects [led_simps] = leds.l.bank_effects leds.r.bank_effects

section \<open>Events and runs of the driver\<close>

datatype sio_event = Thread | Write "u8 list" | Unload

definition sio_step :: "kenv \<Rightarrow> sio_event \<Rightarrow> sio_state \<Rightarrow> sio_state option" where
  "sio_step E e s = (case e of
       Thread \<Rightarrow> simple_io_kthread E s
     | Write buf \<Rightarrow> (case run_state (toy_driver_write E buf) s of
          (None, _) \<Rightarrow> None
        | (Some _, s') \<Rightarrow> Some s')
     | Unload \<Rightarrow> Some (exec (toy_module_exit E) s))"

text \<open>The points each example has.\<close>

fun has_point :: "nat \<Rightarrow> point \<Rightarrow> bool" where
  "has_point n Enter = (n \<in> {1..6})"
| "has_point n (Body led) = (n \<in> {1..6})"
| "has_point n (Reset led) = (n \<in> {1..3})"
| "has_point n (Wait led) = (n \<in> {1..3})"
| "has_point n (Sleep led) = (n \<in> {1..3})"
| "has_point n (Check led) = (n \<in> {1..6})"
| "has_point n (Check_next led) = (n \<in> {1..6})"
| "has_point n (Release led) = (n = 6)"
| "has_point n Return = (n \<in> {1..6})"

fun pc_ok :: "thread_pc \<Rightarrow> bool" where
  "pc_ok (Running n pt) = has_point n pt"
| "pc_ok _ = True"

lemma one_to_six: "n \<in> {1..6} \<longleftrightarrow> n \<in> {1, 2, 3, 4, 5, 6::nat}"
  by auto

lemma one_to_three: "n \<in> {1..3} \<longleftrightarrow> n \<in> {1, 2, 3::nat}"
  by auto

lemmas point_ranges = one_to_six one_to_three

text \<open>One step of an example goes to one of its own points, or returns the flag it reads.\<close>

lemma example_goto:
  assumes "has_point n pt" "run_state (example E n pt) s = (Goto pt', s')"
  shows "has_point n pt' \<and> pc s' = pc s \<and> (wait_queue_flag s' = wait_queue_flag s \<or> wait_queue_flag s' = WAIT_QUEUE_WAIT)"
  using assms
  by (cases pt) (auto simp: point_ranges example_def examples exec_simps split: if_splits)

lemma example_returned:
  assumes "has_point n pt" "run_state (example E n pt) s = (Returned f, s')"
  shows "pt = Return \<and> f = wait_queue_flag s \<and> s' = s"
  using assms
  by (cases pt) (auto simp: point_ranges example_def examples exec_simps split: if_splits)

lemma example_blocked:
  assumes "has_point n pt" "run_state (example E n pt) s = (Blocked, s')"
  shows "(\<exists>led. pt = Sleep led) \<and> in_wait_queue s"
  using assms
  by (cases pt) (auto simp: point_ranges example_def examples exec_simps split: if_splits)

text \<open>A thread is in the queue only where it sleeps, and goes there only while the flag tells it to.\<close>

lemma example_queue:
  assumes "has_point n pt" "run_state (example E n pt) s = (Goto pt', s')" "in_wait_queue s \<longrightarrow> (\<exists>led. pt = Sleep led)"
  shows "in_wait_queue s' \<longrightarrow> wait_queue_flag s' = WAIT_QUEUE_WAIT \<and> (\<exists>led. pt' = Sleep led)"
  using assms
  by (cases pt) (auto simp: point_ranges example_def examples exec_simps split: if_splits)

lemma thread_step_cases:
  assumes "pc_ok (pc s)" "simple_io_kthread E s = Some s'"
  obtains (goto) n pt pt' u where "pc s = Running n pt" "has_point n pt"
      "run_state (example E n pt) s = (Goto pt', u)" "s' = u\<lparr>pc := Running n pt'\<rparr>"
    | (leave) n where "pc s = Running n Return" "n \<in> {1..6}"
      "s' = s\<lparr>pc := (if wait_queue_flag s = WAIT_QUEUE_EXIT then Exited
                     else Running (if n = 6 then 1 else n + 1) Enter)\<rparr>"
proof (cases "pc s")
  case (Running n pt)
  with assms(1) have hp: "has_point n pt" by simp
  obtain out u where run: "run_state (example E n pt) s = (out, u)" by force
  show ?thesis
  proof (cases out)
    case (Goto pt')
    with assms(2) Running run hp goto show ?thesis
      by (auto simp: simple_io_kthread_def)
  next
    case (Returned f)
    with run hp have "pt = Return" "f = wait_queue_flag s" "u = s"
      using example_returned by blast+
    with assms(2) Running run hp Returned leave show ?thesis
      by (auto simp: simple_io_kthread_def)
  qed (use assms(2) Running run in \<open>simp add: simple_io_kthread_def\<close>)
qed (use assms(2) in \<open>simp_all add: simple_io_kthread_def\<close>)

text \<open>The effect of a write of one byte that was copied in.\<close>

definition byte_copied :: "kenv \<Rightarrow> sio_state \<Rightarrow> bool" where
  "byte_copied E s \<longleftrightarrow> E (trace s) (Task (CopyFromUser 1)) = 0 \<and>
     length (Simple_Io_Driver.kernel_write_buffer s) = BUF_SIZE"

lemma write_key:
  "byte_copied E s \<Longrightarrow> \<exists>s'. sio_step E (Write [1]) s = Some s' \<and> wait_queue_flag s' = WAIT_QUEUE_KEY \<and>
     pc s' = pc s \<and> level (trace s') = level (trace s) \<and> \<not> in_wait_queue s'"
  by (simp add: sio_step_def toy_driver_write_def wake_up_waiter_def copy_in_def byte_copied_def BUF_SIZE_def exec_simps Let_def)

lemma write_next:
  "byte_copied E s \<Longrightarrow> \<exists>s'. sio_step E (Write [2]) s = Some s' \<and> wait_queue_flag s' = WAIT_QUEUE_NEXT \<and>
     pc s' = pc s \<and> level (trace s') = level (trace s) \<and> \<not> in_wait_queue s'"
  by (simp add: sio_step_def toy_driver_write_def wake_up_waiter_def copy_in_def byte_copied_def BUF_SIZE_def exec_simps Let_def)

lemma write_flag:
  assumes "sio_step E (Write buf) s = Some s'"
  shows "pc s' = pc s \<and> level (trace s') = level (trace s) \<and>
    (in_wait_queue s' = in_wait_queue s \<and> wait_queue_flag s' \<in> {wait_queue_flag s, WAIT_QUEUE_WAIT} \<or>
     \<not> in_wait_queue s' \<and> wait_queue_flag s' \<in> {WAIT_QUEUE_KEY, WAIT_QUEUE_NEXT})"
  using assms
  by (auto simp: sio_step_def toy_driver_write_def wake_up_waiter_def copy_in_def exec_simps Let_def queue_flags
      split: if_splits option.splits)

text \<open>The module exit function, as the thread sees it.\<close>

lemma wp_exit_effect:
  "wp (toy_module_exit E) (\<lambda>_ s'. wait_queue_flag s' = WAIT_QUEUE_EXIT \<and> pc s' = pc s \<and> \<not> in_wait_queue s' \<and>
     (\<forall>p \<in> left_pins \<union> right_pins. level (trace s') p = level (trace s) p)) s"
  unfolding toy_module_exit_def wake_up_waiter_def by (intro wp_intros) auto

lemma unload_effect:
  assumes "sio_step E Unload s = Some s'"
  shows "wait_queue_flag s' = WAIT_QUEUE_EXIT" "pc s' = pc s" "\<not> in_wait_queue s'"
    "p \<in> left_pins \<union> right_pins \<Longrightarrow> level (trace s') p = level (trace s) p"
  using assms wp_exit_effect [of E s] by (auto simp: sio_step_def wp_def)

section \<open>Invariants\<close>

interpretation pcs: kept_by "sio_step E" "\<lambda>s. pc_ok (pc s)" "\<lambda>_. True" for E
proof (unfold_locales, goal_cases)
  case (1 s e s')
  show ?case
  proof (cases e)
    case Thread
    with 1 have "simple_io_kthread E s = Some s'" by (simp add: sio_step_def)
    with 1(1) show ?thesis
      by (rule thread_step_cases) (auto dest: example_goto)
  qed (use 1 write_flag unload_effect(2) in fastforce)+
qed

definition not_ended :: "sio_state \<Rightarrow> bool" where
  "not_ended s \<longleftrightarrow> pc_ok (pc s) \<and> pc s \<noteq> Exited \<and> wait_queue_flag s \<noteq> WAIT_QUEUE_EXIT \<and>
     (in_wait_queue s \<longrightarrow> wait_queue_flag s = WAIT_QUEUE_WAIT \<and> (\<exists>n led. pc s = Running n (Sleep led)))"

interpretation alive: kept_by "sio_step E" not_ended "\<lambda>e. e \<noteq> Unload" for E
proof (unfold_locales, goal_cases)
  case (1 s e s')
  have pc: "pc_ok (pc s')"
    using 1 pcs.step_keeps unfolding not_ended_def by blast
  show ?case
  proof (cases e)
    case Thread
    with 1 have "pc_ok (pc s)" "simple_io_kthread E s = Some s'"
      by (simp_all add: sio_step_def not_ended_def)
    then show ?thesis
    proof (cases rule: thread_step_cases)
      case (goto n pt pt' u)
      with 1(1) have "in_wait_queue s \<longrightarrow> (\<exists>led. pt = Sleep led)" by (auto simp: not_ended_def)
      with goto 1(1) pc example_goto [of n pt E s pt' u] example_queue [of n pt E s pt' u] show ?thesis
        by (auto simp: not_ended_def queue_flags)
    next
      case (leave n)
      with 1(1) pc show ?thesis by (auto simp: not_ended_def)
    qed
  next
    case (Write buf)
    then show ?thesis
      using 1 pc write_flag [of E buf s s'] by (auto simp: not_ended_def queue_flags)
  qed (use 1 in simp)
qed

text \<open>
  The LED variable of an example and the LEDs agree: in the first and second example it is the state
  of the left and of the right bank, in the third and fourth the right bank follows it and the left
  bank is its opposite.
\<close>

definition bank :: "sio_state \<Rightarrow> nat set \<Rightarrow> bool \<Rightarrow> bool" where
  "bank s ps b \<longleftrightarrow> (\<forall>p \<in> ps. level (trace s) p = Some (if b then 1 else 0))"

fun shows_led :: "sio_state \<Rightarrow> nat \<Rightarrow> bool \<Rightarrow> bool" where
  "shows_led s n led = (if n = 1 then bank s left_pins led
     else if n = 2 then bank s right_pins led
     else if n = 3 \<or> n = 4 then bank s right_pins led \<and> bank s left_pins (\<not> led)
     else True)"

fun leds_match :: "sio_state \<Rightarrow> thread_pc \<Rightarrow> bool" where
  "leds_match s (Running n (Reset led)) = shows_led s n led"
| "leds_match s (Running n (Wait led)) = shows_led s n led"
| "leds_match s (Running n (Sleep led)) = shows_led s n led"
| "leds_match s (Running n (Check led)) = shows_led s n led"
| "leds_match s (Running n (Check_next led)) = shows_led s n led"
| "leds_match s _ = True"

lemma bank_cong:
  "(\<And>p. p \<in> ps \<Longrightarrow> level (trace s) p = level (trace s') p) \<Longrightarrow> bank s ps b \<longleftrightarrow> bank s' ps b"
  by (auto simp: bank_def)

lemma shows_led_cong:
  assumes "\<And>p. p \<in> left_pins \<union> right_pins \<Longrightarrow> level (trace s) p = level (trace s') p"
  shows "shows_led s n led \<longleftrightarrow> shows_led s' n led"
  using assms bank_cong [of left_pins s s'] bank_cong [of right_pins s s'] by simp

lemma leds_match_cong:
  assumes "\<And>p. p \<in> left_pins \<union> right_pins \<Longrightarrow> level (trace s) p = level (trace s') p"
  shows "leds_match s q \<longleftrightarrow> leds_match s' q"
  using shows_led_cong [OF assms] by (cases "(s, q)" rule: leds_match.cases) simp_all

lemma example_leds:
  assumes "has_point n pt" "leds_match s (Running n pt)" "run_state (example E n pt) s = (Goto pt', s')"
  shows "leds_match (s'\<lparr>pc := q\<rparr>) (Running n pt')"
  using assms
  by (cases pt) (auto simp: point_ranges example_def examples exec_simps bank_def
      led_simps dest: bank_pinsD split: if_splits)

definition leds_inv :: "sio_state \<Rightarrow> bool" where
  "leds_inv s \<longleftrightarrow> pc_ok (pc s) \<and> leds_match s (pc s)"

interpretation led_var: kept_by "sio_step E" leds_inv "\<lambda>_. True" for E
proof (unfold_locales, goal_cases)
  case (1 s e s')
  have pc: "pc_ok (pc s')"
    using 1 pcs.step_keeps unfolding leds_inv_def by blast
  show ?case
  proof (cases e)
    case Thread
    with 1 have ok: "pc_ok (pc s)" and step: "simple_io_kthread E s = Some s'"
      by (simp_all add: sio_step_def leds_inv_def)
    from ok step show ?thesis
    proof (cases rule: thread_step_cases)
      case (goto n pt pt' u)
      with 1(1) pc example_leds [of n pt s E pt' u] show ?thesis by (simp add: leds_inv_def)
    next
      case (leave n)
      with pc show ?thesis by (simp add: leds_inv_def)
    qed
  next
    case (Write buf)
    then show ?thesis
      using 1 pc write_flag [of E buf s s'] leds_match_cong [of s s' "pc s"] by (simp add: leds_inv_def)
  next
    case Unload
    then show ?thesis
      using 1 pc unload_effect [of E s s'] leds_match_cong [of s s' "pc s"] by (simp add: leds_inv_def)
  qed
qed

section \<open>Progress of the thread\<close>

text \<open>The thread stops only asleep in the wait queue.\<close>

lemma thread_blocked:
  assumes "pc s = Running n pt" "has_point n pt" "simple_io_kthread E s = None"
  shows "(\<exists>led. pt = Sleep led) \<and> in_wait_queue s"
proof -
  obtain out u where run: "run_state (example E n pt) s = (out, u)" by force
  with assms have "out = Blocked"
    by (cases out) (auto simp: simple_io_kthread_def)
  with run assms show ?thesis using example_blocked by blast
qed

text \<open>The steps between the wait queue and the entry of the next example.\<close>

lemma asleep:
  assumes "pc s = Running n (Sleep led)" "n \<in> {1..3}" "in_wait_queue s"
  shows "simple_io_kthread E s = None"
  using assms
  by (auto simp: point_ranges simple_io_kthread_def example_def examples exec_simps)

lemma sleep_ends:
  assumes "pc s = Running n (Sleep led)" "n \<in> {1..3}" "\<not> in_wait_queue s"
  shows "simple_io_kthread E s = Some (s\<lparr>pc := Running n (Wait led)\<rparr>)"
  using assms
  by (auto simp: point_ranges simple_io_kthread_def example_def examples exec_simps)

lemma wait_passes:
  assumes "pc s = Running n (Wait led)" "n \<in> {1..3}" "wait_queue_flag s \<noteq> WAIT_QUEUE_WAIT"
  shows "simple_io_kthread E s = Some (s\<lparr>pc := Running n (Check led)\<rparr>)"
  using assms
  by (auto simp: point_ranges simple_io_kthread_def example_def examples exec_simps)

lemma wait_sleeps:
  assumes "pc s = Running n (Wait led)" "n \<in> {1..3}" "wait_queue_flag s = WAIT_QUEUE_WAIT"
  shows "simple_io_kthread E s = Some (s\<lparr>in_wait_queue := True, pc := Running n (Sleep led)\<rparr>)"
  using assms
  by (auto simp: point_ranges simple_io_kthread_def example_def examples exec_simps)

lemma check_exit:
  assumes "pc s = Running n (Check led)" "n \<in> {1..6}"
  shows "simple_io_kthread E s =
    Some (s\<lparr>pc := Running n (if wait_queue_flag s = WAIT_QUEUE_EXIT then Return else Check_next led)\<rparr>)"
  using assms
  by (auto simp: point_ranges simple_io_kthread_def example_def examples exec_simps)

lemma check_next:
  assumes "pc s = Running n (Check_next led)" "n \<in> {1..6}"
  shows "simple_io_kthread E s =
    Some (s\<lparr>pc := Running n (if wait_queue_flag s = WAIT_QUEUE_NEXT then Return else Body led)\<rparr>)"
  using assms
  by (auto simp: point_ranges simple_io_kthread_def example_def examples exec_simps)

lemma return_leaves:
  assumes "pc s = Running n Return" "n \<in> {1..6}"
  shows "simple_io_kthread E s = Some (s\<lparr>pc := (if wait_queue_flag s = WAIT_QUEUE_EXIT then Exited
    else Running (if n = 6 then 1 else n + 1) Enter)\<rparr>)"
  using assms
  by (auto simp: point_ranges simple_io_kthread_def example_def examples exec_simps)

lemma only_trace_pc:
  assumes "only_trace m"
  shows "\<exists>t. (exec m s)\<lparr>pc := q\<rparr> = s\<lparr>trace := t, pc := q\<rparr>"
proof -
  obtain t where "exec m s = s\<lparr>trace := t\<rparr>" using assms by (rule only_traceE)
  then show ?thesis by auto
qed

lemma only_trace_pc2:
  assumes "only_trace m" "only_trace m'"
  shows "\<exists>t. (exec m (exec m' s))\<lparr>pc := q\<rparr> = s\<lparr>trace := t, pc := q\<rparr>"
  using only_trace_pc [OF only_trace_bind [OF assms(2), where f = "\<lambda>_. m"], where s = s and q = q] assms(1)
  by (simp add: case_prod_beta)

lemma body_flips:
  assumes "pc s = Running n (Body led)" "n \<in> {1..3}"
  shows "\<exists>t. simple_io_kthread E s = Some (s\<lparr>trace := t, pc := Running n (Reset (\<not> led))\<rparr>)"
  using assms
  by (auto simp: point_ranges simple_io_kthread_def example_def examples exec_simps
      intro: only_trace_macros [THEN only_trace_pc] only_trace_pc2 [OF only_trace_macros(2) only_trace_macros(3)]
        only_trace_pc2 [OF only_trace_macros(1) only_trace_macros(4)])

lemma reset_waits:
  assumes "pc s = Running n (Reset led)" "n \<in> {1..3}"
  shows "simple_io_kthread E s =
    Some (s\<lparr>wait_queue_flag := WAIT_QUEUE_WAIT, pc := Running n (Wait led)\<rparr>)"
  using assms
  by (auto simp: point_ranges simple_io_kthread_def example_def examples exec_simps)

section \<open>Loading and unloading\<close>

interpretation reg: gpio_registration "register_gpio_output E" for E
proof (unfold_locales, goal_cases)
  case (1 p)
  show ?case
    unfolding register_gpio_output_def by (intro emits_intros) (auto simp: claim_calls_def)
next
  case (2 p)
  show ?case unfolding register_gpio_output_def by (intro only_trace_intros)
qed

declare reg.wp_claim_all [wp_intros]

lemmas sio_error_exits = cerror_def device_error_def reg_error_def gpio_error_def

definition module_resources :: "resource set" where
  "module_resources = {RChrdev, RClass, RDevice, RCdev, RGpio TOY_GPIO_INPUT} \<union>
     RGpio ` set output_pins"

definition loaded :: "sio_state \<Rightarrow> bool" where
  "loaded s \<longleftrightarrow> held (trace s) \<subseteq> module_resources \<and> armed (trace s) = {} \<and>
     (RClass \<in> held (trace s) \<or> RDevice \<in> held (trace s) \<longrightarrow> 0 < Simple_Io_Driver.toy_class s)"

lemma wp_sio_init_loaded:
  "clean s \<Longrightarrow> wp (toy_module_init E) (\<lambda>r s'. r = 0 \<longrightarrow> loaded s') s"
  unfolding toy_module_init_def sio_error_exits
  by (intro wp_intros) (auto simp: loaded_def clean_def module_resources_def split: if_splits)

lemma wp_sio_init_starts:
  assumes "pc s = Not_started"
  shows "wp (toy_module_init E) (\<lambda>r s'. pc s' \<in> {Not_started, Running 1 Enter} \<and>
    wait_queue_flag s' = wait_queue_flag s \<and> in_wait_queue s' = in_wait_queue s) s"
  unfolding toy_module_init_def sio_error_exits
  by (intro wp_intros) (auto simp: assms)

lemma wp_sio_exit_clean: "loaded s \<Longrightarrow> wp (toy_module_exit E) (\<lambda>_. clean) s"
  unfolding toy_module_exit_def wake_up_waiter_def
  by (intro wp_intros) (auto simp: loaded_def clean_def module_resources_def)

text \<open>Using the driver is everything but unloading it.\<close>

definition sio_use :: "kenv \<Rightarrow> sio_event \<Rightarrow> sio_state \<Rightarrow> sio_state option" where
  "sio_use E e s = (if e = Unload then None else sio_step E e s)"

definition thread_calls :: "kcall set" where
  "thread_calls = range (\<lambda>(p, v). Gpio (GpioSetValue p v)) \<union> range (\<lambda>p. Gpio (GpioGetValue p)) \<union>
     range Task"

lemma thread_callsI [simp]:
  "Gpio (GpioSetValue p v) \<in> thread_calls" "Gpio (GpioGetValue p) \<in> thread_calls"
  "Task c \<in> thread_calls"
  by (auto simp: thread_calls_def)

lemma emits_macros [emits_intros]:
  "emits thread_calls (LED_LEFT_ON E)" "emits thread_calls (LED_LEFT_OFF E)"
  "emits thread_calls (LED_RIGHT_ON E)" "emits thread_calls (LED_RIGHT_OFF E)"
  unfolding led_macros by (intro emits_intros; simp)+

lemma emits_example: "emits thread_calls (example E n pt)"
  by (cases pt)
    (simp_all add: example_def examples, (intro conjI impI emits_intros; simp)+)

lemma emits_write: "emits thread_calls (toy_driver_write E buf)"
  unfolding toy_driver_write_def copy_in_def
proof (intro emits_intros, simp, simp)
  fix kb :: "u8 list" and r
  show "emits thread_calls (case kb' of None \<Rightarrow> State_Monad.return None
      | Some b \<Rightarrow> do {
          modify (kernel_write_buffer_update (\<lambda>_. b));
          (if b ! 0 = 0 then modify (wait_queue_flag_update (\<lambda>_. WAIT_QUEUE_WAIT))
           else if b ! 0 = 1 then do {
             modify (wait_queue_flag_update (\<lambda>_. WAIT_QUEUE_KEY)); wake_up_waiter E }
           else if b ! 0 = 2 then do {
             modify (wait_queue_flag_update (\<lambda>_. WAIT_QUEUE_NEXT)); wake_up_waiter E }
           else State_Monad.return ());
          State_Monad.return (Some (int (length buf))) })" for kb'
    by (cases kb') (auto simp: wake_up_waiter_def intro!: emits_intros)
qed

lemma thread_keeps:
  assumes "emits thread_calls m"
  shows "held (trace (exec m s)) = held (trace s)" "armed (trace (exec m s)) = armed (trace s)"
  using assms by (auto intro!: emits_held [of thread_calls] emits_armed [of thread_calls]
      simp: thread_calls_def)

lemma example_class:
  "Simple_Io_Driver.toy_class (exec (example E n pt) s) = Simple_Io_Driver.toy_class s"
  by (cases pt) (auto simp: example_def examples exec_simps)

lemma use_loaded:
  assumes "loaded s" "sio_use E e s = Some s'"
  shows "loaded s'"
proof (cases e)
  case Thread
  then obtain n pt where run: "pc s = Running n pt" "simple_io_kthread E s = Some s'"
    using assms(2) by (cases "pc s") (auto simp: sio_use_def sio_step_def simple_io_kthread_def)
  then obtain q where "s' = (exec (example E n pt) s)\<lparr>pc := q\<rparr>"
    by (auto simp: simple_io_kthread_def split: prod.splits outcome.splits)
  then show ?thesis
    using assms(1) thread_keeps [OF emits_example, of E n pt s] example_class [of E n pt s]
    by (simp add: loaded_def)
next
  case (Write buf)
  then have "s' = exec (toy_driver_write E buf) s"
    using assms(2) by (auto simp: sio_use_def sio_step_def split: prod.splits option.splits)
  moreover have "Simple_Io_Driver.toy_class (exec (toy_driver_write E buf) s) =
      Simple_Io_Driver.toy_class s"
    by (auto simp: toy_driver_write_def wake_up_waiter_def copy_in_def exec_simps Let_def split: option.splits)
  ultimately show ?thesis
    using assms(1) thread_keeps [OF emits_write, of E buf s] by (simp add: loaded_def)
next
  case Unload
  with assms(2) show ?thesis by (simp add: sio_use_def)
qed

interpretation module: loadable_module "toy_module_init E" "toy_module_exit E" "sio_use E" loaded
  for E
proof (unfold_locales, goal_cases)
  case (1 s)
  then show ?case using wp_sio_init_loaded [of s E] by (simp add: wp_def)
next
  case (2 s e s')
  then show ?case by (rule use_loaded)
next
  case (3 s)
  then show ?case using wp_sio_exit_clean [of s E] by (simp add: wp_def clean_def)
qed

section \<open>What a user of the device sees\<close>

lemma run_thread_Suc:
  "run_events (sio_step E) (Thread # es) s =
     (case simple_io_kthread E s of None \<Rightarrow> None | Some s' \<Rightarrow> run_events (sio_step E) es s')"
  by (simp add: sio_step_def)

lemma flags_distinct [simp]:
  "WAIT_QUEUE_NEXT \<noteq> WAIT_QUEUE_WAIT" "WAIT_QUEUE_EXIT \<noteq> WAIT_QUEUE_WAIT"
  "WAIT_QUEUE_KEY \<noteq> WAIT_QUEUE_WAIT" "WAIT_QUEUE_NEXT \<noteq> WAIT_QUEUE_EXIT"
  "WAIT_QUEUE_KEY \<noteq> WAIT_QUEUE_EXIT" "WAIT_QUEUE_KEY \<noteq> WAIT_QUEUE_NEXT"
  by (simp_all add: queue_flags)

lemma next_run:
  assumes "pc s = Running n (Sleep led)" "n \<in> {1..3}" "\<not> in_wait_queue s" "wait_queue_flag s = WAIT_QUEUE_NEXT"
  shows "run_events (sio_step E) [Thread, Thread, Thread, Thread, Thread] s = Some (s\<lparr>pc := Running (n + 1) Enter\<rparr>)"
  using assms
  by (simp add: run_thread_Suc sleep_ends wait_passes check_exit check_next return_leaves del: run_events.simps(2))

lemma exit_run:
  assumes "pc s = Running n (Sleep led)" "n \<in> {1..3}" "\<not> in_wait_queue s" "wait_queue_flag s = WAIT_QUEUE_EXIT"
  shows "run_events (sio_step E) [Thread, Thread, Thread, Thread] s = Some (s\<lparr>pc := Exited\<rparr>)"
  using assms
  by (simp add: run_thread_Suc sleep_ends wait_passes check_exit return_leaves del: run_events.simps(2))

lemma reset_sleeps:
  assumes "pc s = Running n (Reset led)" "n \<in> {1..3}"
  shows "run_events (sio_step E) [Thread, Thread] s =
    Some (s\<lparr>wait_queue_flag := WAIT_QUEUE_WAIT, in_wait_queue := True, pc := Running n (Sleep led)\<rparr>)"
  using assms
  by (simp add: run_thread_Suc reset_waits wait_sleeps del: run_events.simps(2))

lemma again_run:
  assumes "pc s = Running n (Sleep led)" "n \<in> {1..3}" "\<not> in_wait_queue s" "wait_queue_flag s = WAIT_QUEUE_KEY"
  shows "\<exists>t. run_events (sio_step E) [Thread, Thread, Thread, Thread, Thread, Thread, Thread] s =
    Some (s\<lparr>trace := t, wait_queue_flag := WAIT_QUEUE_WAIT, in_wait_queue := True, pc := Running n (Sleep (\<not> led))\<rparr>)"
proof -
  let ?b = "s\<lparr>pc := Running n (Body led)\<rparr>"
  obtain t where t: "simple_io_kthread E ?b =
      Some (?b\<lparr>trace := t, pc := Running n (Reset (\<not> led))\<rparr>)"
    using body_flips [of ?b n led E] assms(2) by auto
  have "run_events (sio_step E) [Thread, Thread] (?b\<lparr>trace := t, pc := Running n (Reset (\<not> led))\<rparr>) =
      Some (s\<lparr>trace := t, wait_queue_flag := WAIT_QUEUE_WAIT, in_wait_queue := True, pc := Running n (Sleep (\<not> led))\<rparr>)"
    using assms(2) by (subst reset_sleeps) auto
  with t assms show ?thesis
    by (auto simp: run_thread_Suc sleep_ends wait_passes check_exit check_next simp del: run_events.simps(2))
qed

section \<open>Properties\<close>

text \<open>The state the module is in once it was loaded from scratch.\<close>

definition booted :: "kenv \<Rightarrow> sio_state" where
  "booted E = exec (toy_module_init E) sio_initial"

lemma booted_thread: "pc (booted E) \<in> {Not_started, Running 1 Enter}"
  "wait_queue_flag (booted E) = WAIT_QUEUE_WAIT" "\<not> in_wait_queue (booted E)"
  using wp_sio_init_starts [of sio_initial E] by (simp_all add: booted_def wp_def sio_initial_def)

lemma booted_inv: "leds_inv (booted E)" "not_ended (booted E)"
  using booted_thread [of E] by (auto simp: leds_inv_def not_ended_def queue_flags)

text \<open>The driver on a kernel in which every request succeeds.\<close>

lemma demo_boot:
  "result (toy_module_init obliging) sio_initial = 0" "pc (booted obliging) = Running 1 Enter"
  "wait_queue_flag (booted obliging) = WAIT_QUEUE_WAIT"
  "length (Simple_Io_Driver.kernel_write_buffer (booted obliging)) = BUF_SIZE"
  by (simp_all add: booted_def toy_module_init_def exec_simps sio_initial_def output_pins_def
      register_gpio_output_def)

lemma demo_wait:
  "\<exists>t. run_events (sio_step obliging) [Thread, Thread, Thread, Thread] (booted obliging) =
     Some ((booted obliging)\<lparr>trace := t, wait_queue_flag := WAIT_QUEUE_WAIT, in_wait_queue := True,
       pc := Running 1 (Sleep True)\<rparr>)"
proof -
  let ?b = "(booted obliging)\<lparr>pc := Running 1 (Body False)\<rparr>"
  have enter: "simple_io_kthread obliging (booted obliging) = Some ?b"
    using demo_boot by (simp add: simple_io_kthread_def example_def examples exec_simps)
  obtain t where t: "simple_io_kthread obliging ?b =
      Some (?b\<lparr>trace := t, pc := Running 1 (Reset True)\<rparr>)"
    using body_flips [of ?b 1 False obliging] by auto
  have "run_events (sio_step obliging) [Thread, Thread] (?b\<lparr>trace := t, pc := Running 1 (Reset True)\<rparr>) =
      Some ((booted obliging)\<lparr>trace := t, wait_queue_flag := WAIT_QUEUE_WAIT, in_wait_queue := True,
        pc := Running 1 (Sleep True)\<rparr>)"
    by (subst reset_sleeps) auto
  with enter t show ?thesis by (auto simp: run_thread_Suc simp del: run_events.simps(2))
qed

lemma demo_waiting:
  obtains s where "run_events (sio_step obliging) [Thread, Thread, Thread, Thread] (booted obliging) = Some s"
    "pc s = Running 1 (Sleep True)" "shows_led s 1 True" "byte_copied obliging s"
    "wait_queue_flag s = WAIT_QUEUE_WAIT" "in_wait_queue s"
proof -
  obtain t where t: "run_events (sio_step obliging) [Thread, Thread, Thread, Thread] (booted obliging) =
     Some ((booted obliging)\<lparr>trace := t, wait_queue_flag := WAIT_QUEUE_WAIT, in_wait_queue := True,
       pc := Running 1 (Sleep True)\<rparr>)" (is "_ = Some ?s")
    using demo_wait by blast
  have "leds_inv ?s"
    using led_var.run_keeps [OF booted_inv(1) _ t] by (simp add: list_all_iff)
  with t demo_boot(4) show ?thesis
    by (intro that [of ?s]) (simp_all add: leds_inv_def byte_copied_def)
qed

text \<open>
  C6.  After any run of thread steps, device writes and unloading, in any interleaving, the LEDs
  show the local LED variable of the example the thread is in: the left bank in the first example,
  the right bank in the second, both banks as opposites in the third and fourth.
\<close>

theorem sio_leds_follow_variable:
  assumes "run_events (sio_step E) es (booted E) = Some s"
  shows "pc_ok (pc s) \<and> leds_match s (pc s)"
  using led_var.run_keeps [OF booted_inv(1) _ assms] by (simp add: leds_inv_def list_all_iff)

theorem sio_leds_follow_variable_witness:
  "\<exists>s. run_events (sio_step obliging) [Thread, Thread, Thread, Thread] (booted obliging) = Some s \<and>
     pc s = Running 1 (Sleep True) \<and> leds_match s (pc s)"
proof -
  obtain s where s: "run_events (sio_step obliging) [Thread, Thread, Thread, Thread] (booted obliging) = Some s"
      "pc s = Running 1 (Sleep True)"
    by (rule demo_waiting)
  with sio_leds_follow_variable [OF s(1)] show ?thesis by blast
qed

text \<open>
  C27.  The thread makes progress: after any run without unloading it has not ended, and it can take
  a step unless it is asleep in the wait queue while the flag is \<^verbatim>\<open>WAIT_QUEUE_WAIT\<close>.  So whenever a
  write has left another value in the flag the thread is awake: no wake up is missing.
\<close>

theorem sio_thread_progress:
  assumes "run_events (sio_step E) es (booted E) = Some s" "Unload \<notin> set es"
  shows "pc s \<noteq> Exited \<and> (\<forall>n pt. pc s = Running n pt \<longrightarrow>
    simple_io_kthread E s \<noteq> None \<or> (\<exists>led. pt = Sleep led) \<and> in_wait_queue s \<and> wait_queue_flag s = WAIT_QUEUE_WAIT)"
proof -
  have "not_ended s"
    using alive.run_keeps [OF booted_inv(2) _ assms(1)] assms(2) by (auto simp: list_all_iff)
  then show ?thesis
    using thread_blocked [of s _ _ E] by (fastforce simp: not_ended_def)
qed

theorem sio_thread_progress_witness:
  "\<exists>s s'. run_events (sio_step obliging) [Thread, Thread, Thread, Thread] (booted obliging) = Some s \<and>
     simple_io_kthread obliging s = None \<and>
     run_events (sio_step obliging) ([Thread, Thread, Thread, Thread] @ [Write [1]]) (booted obliging) = Some s' \<and>
     simple_io_kthread obliging s' \<noteq> None"
proof -
  obtain s where s: "run_events (sio_step obliging) [Thread, Thread, Thread, Thread] (booted obliging) = Some s"
      "pc s = Running 1 (Sleep True)" "in_wait_queue s" "byte_copied obliging s"
    by (rule demo_waiting)
  obtain s' where s': "sio_step obliging (Write [1]) s = Some s'" "wait_queue_flag s' = WAIT_QUEUE_KEY" "pc s' = pc s"
    using write_key [OF s(4)] by blast
  have run: "run_events (sio_step obliging) ([Thread, Thread, Thread, Thread] @ [Write [1]]) (booted obliging) = Some s'"
    using s(1) s'(1) by (simp only: run_events_append) simp
  then have "simple_io_kthread obliging s' \<noteq> None"
    using sio_thread_progress [OF run] s(2) s'(2,3) by auto
  with s run asleep [OF s(2) _ s(3)] show ?thesis by auto
qed

text \<open>
  C28.  A key written to the device (byte 1) while one of the first three examples sleeps wakes the thread,
  which goes through its loop once: the LED variable is flipped, the LEDs show it, and the thread sleeps again.
\<close>

theorem sio_key_toggles:
  assumes "pc s = Running n (Sleep led)" "n \<in> {1..3}" "in_wait_queue s" "byte_copied E s" "shows_led s n led"
  shows "simple_io_kthread E s = None \<and>
    (\<exists>s'. run_events (sio_step E) (Write [1] # replicate 7 Thread) s = Some s' \<and>
      pc s' = Running n (Sleep (\<not> led)) \<and> shows_led s' n (\<not> led) \<and> wait_queue_flag s' = WAIT_QUEUE_WAIT \<and>
      simple_io_kthread E s' = None)"
proof -
  obtain u where u: "sio_step E (Write [1]) s = Some u" "wait_queue_flag u = WAIT_QUEUE_KEY"
      "pc u = pc s" "level (trace u) = level (trace s)" "\<not> in_wait_queue u"
    using write_key [OF assms(4)] by blast
  let ?ts = "[Thread, Thread, Thread, Thread, Thread, Thread, Thread]"
  obtain s' where s': "run_events (sio_step E) ?ts u = Some s'" "wait_queue_flag s' = WAIT_QUEUE_WAIT"
      "in_wait_queue s'" "pc s' = Running n (Sleep (\<not> led))"
    using again_run [of u n led E] assms(1,2) u by auto
  have "leds_inv u"
    using assms u shows_led_cong [of s u n led] by (simp add: leds_inv_def del: shows_led.simps)
  from led_var.run_keeps [OF this _ s'(1)] s'(4) have "shows_led s' n (\<not> led)"
    by (simp add: leds_inv_def list_all_iff del: shows_led.simps)
  moreover have "run_events (sio_step E) (Write [1] # replicate 7 Thread) s = Some s'"
    using u(1) s'(1) by (simp add: numeral_eq_Suc del: run_events.simps(2)) (simp only: run_events.simps option.case)
  ultimately show ?thesis
    using s' asleep [OF assms(1-3)] asleep [OF s'(4) assms(2) s'(3)] by blast
qed

theorem sio_key_toggles_witness:
  "\<exists>s s'. pc s = Running 1 (Sleep True) \<and>
     run_events (sio_step obliging) (Write [1] # replicate 7 Thread) s = Some s' \<and>
     pc s' = Running 1 (Sleep False) \<and> shows_led s' 1 False"
proof -
  obtain s where s: "pc s = Running 1 (Sleep True)" "shows_led s 1 True" "byte_copied obliging s" "in_wait_queue s"
    by (rule demo_waiting)
  with sio_key_toggles [OF s(1) _ s(4,3,2)] show ?thesis by (simp del: shows_led.simps run_events.simps) blast
qed

text \<open>
  Byte 2 written while one of the first three examples sleeps makes the thread return from it
  and enter the next one.
\<close>

theorem sio_next_example:
  assumes "pc s = Running n (Sleep led)" "n \<in> {1..3}" "byte_copied E s"
  shows "\<exists>s'. run_events (sio_step E) [Write [2], Thread, Thread, Thread, Thread, Thread] s = Some s' \<and>
    pc s' = Running (n + 1) Enter"
proof -
  obtain u where u: "sio_step E (Write [2]) s = Some u" "wait_queue_flag u = WAIT_QUEUE_NEXT"
      "pc u = pc s" "\<not> in_wait_queue u"
    using write_next [OF assms(3)] by blast
  with next_run [of u n led E] assms show ?thesis by simp
qed

theorem sio_next_example_witness:
  "\<exists>s s'. pc s = Running 1 (Sleep True) \<and>
     run_events (sio_step obliging) [Write [2], Thread, Thread, Thread, Thread, Thread] s = Some s' \<and>
     pc s' = Running 2 Enter"
proof -
  obtain s where s: "pc s = Running 1 (Sleep True)" "byte_copied obliging s"
    by (rule demo_waiting)
  with sio_next_example [OF s(1) _ s(2)] show ?thesis
    by (simp del: run_events.simps add: numeral_2_eq_2) blast
qed

text \<open>
  Loading the module, using it in any way and unloading it gives back every pin, the device
  and its class, and the device number.
\<close>

theorem sio_session_clean:
  assumes "clean s" "result (toy_module_init E) s = 0"
    and "run_events (sio_use E) es (exec (toy_module_init E) s) = Some s'"
  shows "clean (exec (toy_module_exit E) s')"
  using assms by (rule module.session_clean)

theorem sio_session_clean_witness:
  "\<exists>s'. run_events (sio_use obliging) [Thread] (exec (toy_module_init obliging) sio_initial) = Some s' \<and>
     clean (exec (toy_module_exit obliging) s')"
proof -
  have "clean sio_initial" by (simp add: clean_def sio_initial_def)
  moreover have "\<exists>s'. run_events (sio_use obliging) [Thread]
      (exec (toy_module_init obliging) sio_initial) = Some s'"
    using demo_boot(2) by (simp add: sio_use_def sio_step_def simple_io_kthread_def example_def
        examples exec_simps booted_def)
  ultimately show ?thesis
    using sio_session_clean [OF _ demo_boot(1)] by blast
qed

text \<open>
  Unloading the module ends a thread that sleeps in the wait queue; but a thread that is about
  to reset the flag overwrites \<^verbatim>\<open>WAIT_QUEUE_EXIT\<close> and then sleeps although the module is gone.
\<close>

theorem sio_unload_race:
  assumes "n \<in> {1..3}"
  shows "(pc s = Running n (Sleep led) \<longrightarrow>
      (\<exists>s'. run_events (sio_step E) [Unload, Thread, Thread, Thread, Thread] s = Some s' \<and> pc s' = Exited)) \<and>
    (pc s = Running n (Reset led) \<longrightarrow>
      (\<exists>s'. run_events (sio_step E) [Unload, Thread, Thread] s = Some s' \<and> pc s' = Running n (Sleep led) \<and>
        simple_io_kthread E s' = None))"
proof -
  obtain u where u: "sio_step E Unload s = Some u" by (simp add: sio_step_def)
  note flag = unload_effect(1-3) [OF u]
  have "simple_io_kthread E
      (u\<lparr>wait_queue_flag := WAIT_QUEUE_WAIT, in_wait_queue := True, pc := Running n (Sleep led)\<rparr>) = None"
    using assms by (intro asleep) simp_all
  then show ?thesis
    using u flag exit_run [of u n led E] reset_sleeps [of u n led E] assms by simp
qed

theorem sio_unload_race_witness:
  "\<exists>s s'. pc s = Running 1 (Sleep True) \<and>
     run_events (sio_step obliging) [Unload, Thread, Thread, Thread, Thread] s = Some s' \<and> pc s' = Exited"
proof -
  obtain s where s: "pc s = Running 1 (Sleep True)" "byte_copied obliging s" by (rule demo_waiting)
  with sio_unload_race [of 1 s True obliging] show ?thesis by (simp del: run_events.simps) blast
qed

end
