(* ===== verification/Engine_Driver.thy ===== *)
theory Engine_Driver
  imports Kernel_Calls
begin

text \<open>
  The virtual motor driver, \<^verbatim>\<open>src/drivers/engine/engine.c\<close>: two motors, each shown by two pairs of
  LEDs that a high resolution timer toggles; an \<^verbatim>\<open>ioctl\<close> starts, retunes and halts them and a push
  button is the emergency stop.  Every function of the file is modelled.  The handlers (an ioctl, a
  timer callback, the button interrupt) are the steps of the driver; they are not interleaved with
  each other.
\<close>

section \<open>Constants and state\<close>

definition TOY_GPIO_OUTPUT_LEFT_1 :: nat where "TOY_GPIO_OUTPUT_LEFT_1 = 17"
definition TOY_GPIO_OUTPUT_LEFT_2 :: nat where "TOY_GPIO_OUTPUT_LEFT_2 = 27"
definition TOY_GPIO_OUTPUT_LEFT_3 :: nat where "TOY_GPIO_OUTPUT_LEFT_3 = 22"
definition TOY_GPIO_OUTPUT_LEFT_4 :: nat where "TOY_GPIO_OUTPUT_LEFT_4 = 5"
definition TOY_GPIO_OUTPUT_RIGHT_1 :: nat where "TOY_GPIO_OUTPUT_RIGHT_1 = 6"
definition TOY_GPIO_OUTPUT_RIGHT_2 :: nat where "TOY_GPIO_OUTPUT_RIGHT_2 = 26"
definition TOY_GPIO_OUTPUT_RIGHT_3 :: nat where "TOY_GPIO_OUTPUT_RIGHT_3 = 23"
definition TOY_GPIO_OUTPUT_RIGHT_4 :: nat where "TOY_GPIO_OUTPUT_RIGHT_4 = 24"
definition TOY_GPIO_INPUT :: nat where "TOY_GPIO_INPUT = 16"
definition MAX_TIMEOUT_MSEC :: nat where "MAX_TIMEOUT_MSEC = 2000"

lemmas engine_gpio_pins =
  TOY_GPIO_OUTPUT_LEFT_1_def TOY_GPIO_OUTPUT_LEFT_2_def TOY_GPIO_OUTPUT_LEFT_3_def
  TOY_GPIO_OUTPUT_LEFT_4_def TOY_GPIO_OUTPUT_RIGHT_1_def TOY_GPIO_OUTPUT_RIGHT_2_def
  TOY_GPIO_OUTPUT_RIGHT_3_def TOY_GPIO_OUTPUT_RIGHT_4_def TOY_GPIO_INPUT_def

text \<open>The request codes; the argument is declared as a pointer, 8 bytes on the 64 bit target.\<close>

definition MOTOR_1_START_SPEED :: u32 where "MOTOR_1_START_SPEED = IOW 0x77 0x31 8"
definition MOTOR_2_START_SPEED :: u32 where "MOTOR_2_START_SPEED = IOW 0x77 0x32 8"
definition MOTOR_1_SET_SPEED :: u32 where "MOTOR_1_SET_SPEED = IOW 0x77 0x33 8"
definition MOTOR_2_SET_SPEED :: u32 where "MOTOR_2_SET_SPEED = IOW 0x77 0x34 8"
definition MOTOR_1_HALT :: u32 where "MOTOR_1_HALT = IOW 0x77 0x35 8"
definition MOTOR_2_HALT :: u32 where "MOTOR_2_HALT = IOW 0x77 0x36 8"

lemmas motor_codes_defs =
  MOTOR_1_START_SPEED_def MOTOR_2_START_SPEED_def MOTOR_1_SET_SPEED_def
  MOTOR_2_SET_SPEED_def MOTOR_1_HALT_def MOTOR_2_HALT_def

lemma motor_codes:
  "MOTOR_1_START_SPEED = 0x40087731" "MOTOR_2_START_SPEED = 0x40087732"
  "MOTOR_1_SET_SPEED = 0x40087733" "MOTOR_2_SET_SPEED = 0x40087734"
  "MOTOR_1_HALT = 0x40087735" "MOTOR_2_HALT = 0x40087736"
  by (simp_all add: motor_codes_defs IOW_def)

text \<open>The file's static variables; the two toggles start at 0, the two speeds at 1.\<close>

record engine_state = "kcall io" +
  toy_class :: int
  button_irq :: int
  motor_1_toggle :: s32
  motor_2_toggle :: s32
  motor_1_speed :: s32
  motor_2_speed :: s32

definition engine_initial :: engine_state where
  "engine_initial = \<lparr>trace = [], toy_class = 0, button_irq = 0,
     motor_1_toggle = 0, motor_2_toggle = 0, motor_1_speed = 1, motor_2_speed = 1\<rparr>"

type_synonym 'a engine_prog = "(engine_state, 'a) state"

datatype hrtimer_restart = HRTIMER_NORESTART | HRTIMER_RESTART

definition EINVAL :: int where "EINVAL = 22"
definition EFAULT :: int where "EFAULT = 14"
definition IRQ_HANDLED :: int where "IRQ_HANDLED = 1"
definition BUF_SIZE :: nat where "BUF_SIZE = 1024"

section \<open>The LEDs of the two motors\<close>

definition MOTOR_1_LED_LEFT_ON :: "kenv \<Rightarrow> unit engine_prog" where
  "MOTOR_1_LED_LEFT_ON E = do {
     gpio_set_value E TOY_GPIO_OUTPUT_LEFT_1 1;
     gpio_set_value E TOY_GPIO_OUTPUT_LEFT_2 1 }"

definition MOTOR_1_LED_LEFT_OFF :: "kenv \<Rightarrow> unit engine_prog" where
  "MOTOR_1_LED_LEFT_OFF E = do {
     gpio_set_value E TOY_GPIO_OUTPUT_LEFT_1 0;
     gpio_set_value E TOY_GPIO_OUTPUT_LEFT_2 0 }"

definition MOTOR_1_LED_RIGHT_ON :: "kenv \<Rightarrow> unit engine_prog" where
  "MOTOR_1_LED_RIGHT_ON E = do {
     gpio_set_value E TOY_GPIO_OUTPUT_LEFT_3 1;
     gpio_set_value E TOY_GPIO_OUTPUT_LEFT_4 1 }"

definition MOTOR_1_LED_RIGHT_OFF :: "kenv \<Rightarrow> unit engine_prog" where
  "MOTOR_1_LED_RIGHT_OFF E = do {
     gpio_set_value E TOY_GPIO_OUTPUT_LEFT_3 0;
     gpio_set_value E TOY_GPIO_OUTPUT_LEFT_4 0 }"

definition MOTOR_2_LED_LEFT_ON :: "kenv \<Rightarrow> unit engine_prog" where
  "MOTOR_2_LED_LEFT_ON E = do {
     gpio_set_value E TOY_GPIO_OUTPUT_RIGHT_1 1;
     gpio_set_value E TOY_GPIO_OUTPUT_RIGHT_2 1 }"

definition MOTOR_2_LED_LEFT_OFF :: "kenv \<Rightarrow> unit engine_prog" where
  "MOTOR_2_LED_LEFT_OFF E = do {
     gpio_set_value E TOY_GPIO_OUTPUT_RIGHT_1 0;
     gpio_set_value E TOY_GPIO_OUTPUT_RIGHT_2 0 }"

definition MOTOR_2_LED_RIGHT_ON :: "kenv \<Rightarrow> unit engine_prog" where
  "MOTOR_2_LED_RIGHT_ON E = do {
     gpio_set_value E TOY_GPIO_OUTPUT_RIGHT_3 1;
     gpio_set_value E TOY_GPIO_OUTPUT_RIGHT_4 1 }"

definition MOTOR_2_LED_RIGHT_OFF :: "kenv \<Rightarrow> unit engine_prog" where
  "MOTOR_2_LED_RIGHT_OFF E = do {
     gpio_set_value E TOY_GPIO_OUTPUT_RIGHT_3 0;
     gpio_set_value E TOY_GPIO_OUTPUT_RIGHT_4 0 }"

lemmas motor_1_leds =
  MOTOR_1_LED_LEFT_ON_def MOTOR_1_LED_LEFT_OFF_def MOTOR_1_LED_RIGHT_ON_def MOTOR_1_LED_RIGHT_OFF_def

lemmas motor_2_leds =
  MOTOR_2_LED_LEFT_ON_def MOTOR_2_LED_LEFT_OFF_def MOTOR_2_LED_RIGHT_ON_def MOTOR_2_LED_RIGHT_OFF_def

definition motor_1_left :: "nat set" where "motor_1_left = {17, 27}"
definition motor_1_right :: "nat set" where "motor_1_right = {22, 5}"
definition motor_2_left :: "nat set" where "motor_2_left = {6, 26}"
definition motor_2_right :: "nat set" where "motor_2_right = {23, 24}"

lemmas motor_pins = motor_1_left_def motor_1_right_def motor_2_left_def motor_2_right_def

lemma motor_pinsD:
  "p \<in> motor_1_left \<Longrightarrow> p \<notin> motor_1_right \<and> p \<notin> motor_2_left \<and> p \<notin> motor_2_right"
  "p \<in> motor_1_right \<Longrightarrow> p \<notin> motor_1_left \<and> p \<notin> motor_2_left \<and> p \<notin> motor_2_right"
  "p \<in> motor_2_left \<Longrightarrow> p \<notin> motor_1_left \<and> p \<notin> motor_1_right \<and> p \<notin> motor_2_right"
  "p \<in> motor_2_right \<Longrightarrow> p \<notin> motor_1_left \<and> p \<notin> motor_1_right \<and> p \<notin> motor_2_left"
  by (auto simp: motor_pins)

interpretation m1: led_pair
  "MOTOR_1_LED_LEFT_ON E" "MOTOR_1_LED_LEFT_OFF E" motor_1_left
  "MOTOR_1_LED_RIGHT_ON E" "MOTOR_1_LED_RIGHT_OFF E" motor_1_right for E
  by unfold_locales
    (auto simp: motor_1_leds engine_gpio_pins motor_pins exec_simps fun_eq_iff intro!: emits_intros)

interpretation m2: led_pair
  "MOTOR_2_LED_LEFT_ON E" "MOTOR_2_LED_LEFT_OFF E" motor_2_left
  "MOTOR_2_LED_RIGHT_ON E" "MOTOR_2_LED_RIGHT_OFF E" motor_2_right for E
  by unfold_locales
    (auto simp: motor_2_leds engine_gpio_pins motor_pins exec_simps fun_eq_iff intro!: emits_intros)

section \<open>Interrupt handler and timer callbacks\<close>

definition k_gpio_irq_signal_handler :: "kenv \<Rightarrow> int engine_prog" where
  "k_gpio_irq_signal_handler E = do {
     _ \<leftarrow> hrtimer_try_to_cancel E MOTOR_1_HRTIMER;
     _ \<leftarrow> hrtimer_try_to_cancel E MOTOR_2_HRTIMER;
     MOTOR_1_LED_LEFT_OFF E;
     MOTOR_1_LED_RIGHT_OFF E;
     MOTOR_2_LED_LEFT_OFF E;
     MOTOR_2_LED_RIGHT_OFF E;
     State_Monad.return IRQ_HANDLED }"

text \<open>The C expression \<^verbatim>\<open>MAX_TIMEOUT_MSEC * (100 - speed) / 100\<close> on 32 bit signed ints.\<close>

definition motor_timeout :: "s32 \<Rightarrow> s32" where
  "motor_timeout speed = c_div (of_nat MAX_TIMEOUT_MSEC * (100 - speed)) 100"

definition motor_1_timer_callback :: "kenv \<Rightarrow> hrtimer_restart engine_prog" where
  "motor_1_timer_callback E = do {
     modify (\<lambda>s. s\<lparr>motor_1_toggle := c_not (motor_1_toggle s)\<rparr>);
     toggle \<leftarrow> gets motor_1_toggle;
     (if toggle \<noteq> 0 then do {
        MOTOR_1_LED_LEFT_ON E;
        MOTOR_1_LED_RIGHT_OFF E }
      else do {
        MOTOR_1_LED_LEFT_OFF E;
        MOTOR_1_LED_RIGHT_ON E });
     speed \<leftarrow> gets motor_1_speed;
     hrtimer_forward_now E MOTOR_1_HRTIMER (sint (motor_timeout speed));
     State_Monad.return HRTIMER_RESTART }"

definition motor_2_timer_callback :: "kenv \<Rightarrow> hrtimer_restart engine_prog" where
  "motor_2_timer_callback E = do {
     modify (\<lambda>s. s\<lparr>motor_2_toggle := c_not (motor_2_toggle s)\<rparr>);
     toggle \<leftarrow> gets motor_2_toggle;
     (if toggle \<noteq> 0 then do {
        MOTOR_2_LED_LEFT_ON E;
        MOTOR_2_LED_RIGHT_OFF E }
      else do {
        MOTOR_2_LED_LEFT_OFF E;
        MOTOR_2_LED_RIGHT_ON E });
     speed \<leftarrow> gets motor_2_speed;
     hrtimer_forward_now E MOTOR_2_HRTIMER (sint (motor_timeout speed));
     State_Monad.return HRTIMER_RESTART }"

section \<open>File operations\<close>

definition toy_driver_read :: "nat \<Rightarrow> int engine_prog" where
  "toy_driver_read count = State_Monad.return (int BUF_SIZE)"

definition toy_driver_write :: "nat \<Rightarrow> int engine_prog" where
  "toy_driver_write count = State_Monad.return (int count)"

definition toy_driver_open :: "int engine_prog" where
  "toy_driver_open = State_Monad.return 0"

definition toy_driver_close :: "int engine_prog" where
  "toy_driver_close = State_Monad.return 0"

text \<open>
  \<open>user_speed\<close> is the int the argument of the ioctl points to.  The four bytes are copied in before
  the request code is looked at, and a request that was served returns the positive \<^verbatim>\<open>EINVAL\<close>.
\<close>

definition toy_ioctl :: "kenv \<Rightarrow> u32 \<Rightarrow> s32 \<Rightarrow> int engine_prog" where
  "toy_ioctl E cmd user_speed = do {
     failed \<leftarrow> copy_from_user E 4;
     if failed \<noteq> 0 then State_Monad.return (- EFAULT)
     else do {
       (if cmd = MOTOR_1_START_SPEED then do {
          modify (\<lambda>s. s\<lparr>motor_1_speed := user_speed\<rparr>);
          active \<leftarrow> hrtimer_active E MOTOR_1_HRTIMER;
          (if active = 0 then do {
             hrtimer_init E MOTOR_1_HRTIMER;
             hrtimer_set_function E MOTOR_1_HRTIMER }
           else State_Monad.return ());
          hrtimer_start E MOTOR_1_HRTIMER MAX_TIMEOUT_MSEC }
        else if cmd = MOTOR_2_START_SPEED then do {
          modify (\<lambda>s. s\<lparr>motor_2_speed := user_speed\<rparr>);
          active \<leftarrow> hrtimer_active E MOTOR_2_HRTIMER;
          (if active = 0 then do {
             hrtimer_init E MOTOR_2_HRTIMER;
             hrtimer_set_function E MOTOR_2_HRTIMER }
           else State_Monad.return ());
          hrtimer_start E MOTOR_2_HRTIMER MAX_TIMEOUT_MSEC }
        else if cmd = MOTOR_1_SET_SPEED then
          modify (\<lambda>s. s\<lparr>motor_1_speed := user_speed\<rparr>)
        else if cmd = MOTOR_2_SET_SPEED then
          modify (\<lambda>s. s\<lparr>motor_2_speed := user_speed\<rparr>)
        else if cmd = MOTOR_1_HALT then do {
          _ \<leftarrow> hrtimer_try_to_cancel E MOTOR_1_HRTIMER;
          MOTOR_1_LED_LEFT_OFF E;
          MOTOR_1_LED_RIGHT_OFF E }
        else if cmd = MOTOR_2_HALT then do {
          _ \<leftarrow> hrtimer_try_to_cancel E MOTOR_2_HRTIMER;
          MOTOR_2_LED_LEFT_OFF E;
          MOTOR_2_LED_RIGHT_OFF E }
        else State_Monad.return ());
       State_Monad.return EINVAL } }"

section \<open>Loading and unloading the module\<close>

definition register_gpio_output :: "kenv \<Rightarrow> nat \<Rightarrow> int engine_prog" where
  "register_gpio_output E gpio_num = do {
     busy \<leftarrow> gpio_request E gpio_num (''toy-gpio-'' @ show_nat gpio_num);
     if busy \<noteq> 0 then State_Monad.return (-1)
     else do {
       refused \<leftarrow> gpio_direction_output E gpio_num 0;
       if refused \<noteq> 0 then State_Monad.return (-1) else State_Monad.return 0 } }"

definition output_pins :: "nat list" where
  "output_pins = [TOY_GPIO_OUTPUT_LEFT_1, TOY_GPIO_OUTPUT_LEFT_2, TOY_GPIO_OUTPUT_LEFT_3,
     TOY_GPIO_OUTPUT_LEFT_4, TOY_GPIO_OUTPUT_RIGHT_1, TOY_GPIO_OUTPUT_RIGHT_2,
     TOY_GPIO_OUTPUT_RIGHT_3, TOY_GPIO_OUTPUT_RIGHT_4]"

text \<open>The labels of the error exit of \<^verbatim>\<open>toy_module_init\<close>; each falls through to the next.\<close>

definition cerror :: "kenv \<Rightarrow> int engine_prog" where
  "cerror E = do { unregister_chrdev_region E; State_Monad.return (-1) }"

definition device_error :: "kenv \<Rightarrow> int engine_prog" where
  "device_error E = do { c \<leftarrow> gets toy_class; class_destroy E c; cerror E }"

definition reg_error :: "kenv \<Rightarrow> int engine_prog" where
  "reg_error E = do { c \<leftarrow> gets toy_class; device_destroy E c; device_error E }"

definition gpio_error :: "kenv \<Rightarrow> int engine_prog" where
  "gpio_error E = do {
     gpio_free E TOY_GPIO_INPUT;
     for_each (gpio_free E) output_pins;
     reg_error E }"

definition toy_module_init :: "kenv \<Rightarrow> int engine_prog" where
  "toy_module_init E = do {
     r \<leftarrow> alloc_chrdev_region E ''toy_engine_driver'';
     if r < 0 then State_Monad.return (-1) else do {
     c \<leftarrow> class_create E ''toy_engine_class'';
     modify (\<lambda>s. s\<lparr>toy_class := c\<rparr>);
     if c = 0 then cerror E else do {
     d \<leftarrow> device_create E c ''toy_engine_driver'';
     if d = 0 then device_error E else do {
     cdev_init E;
     a \<leftarrow> cdev_add E;
     if a = -1 then reg_error E else do {
     claim_all (register_gpio_output E) output_pins;
     busy \<leftarrow> gpio_request E TOY_GPIO_INPUT ''toy-gpio-16'';
     if busy \<noteq> 0 then gpio_error E else do {
     refused \<leftarrow> gpio_direction_input E TOY_GPIO_INPUT;
     if refused \<noteq> 0 then gpio_error E else do {
     irq \<leftarrow> gpio_to_irq E 16;
     modify (\<lambda>s. s\<lparr>button_irq := irq\<rparr>);
     gpio_set_debounce E 16 300;
     failed \<leftarrow> request_irq E irq IRQF_TRIGGER_RISING;
     if failed \<noteq> 0 then gpio_error E else do {
     hrtimer_init E MOTOR_1_HRTIMER;
     hrtimer_set_function E MOTOR_1_HRTIMER;
     hrtimer_start E MOTOR_1_HRTIMER MAX_TIMEOUT_MSEC;
     hrtimer_init E MOTOR_2_HRTIMER;
     hrtimer_set_function E MOTOR_2_HRTIMER;
     hrtimer_start E MOTOR_2_HRTIMER MAX_TIMEOUT_MSEC;
     State_Monad.return 0 }}}}}}}}"

definition toy_module_exit :: "kenv \<Rightarrow> unit engine_prog" where
  "toy_module_exit E = do {
     irq \<leftarrow> gets button_irq;
     free_irq E irq;
     _ \<leftarrow> hrtimer_cancel E MOTOR_1_HRTIMER;
     _ \<leftarrow> hrtimer_cancel E MOTOR_2_HRTIMER;
     gpio_set_value E TOY_GPIO_INPUT 0;
     gpio_free E TOY_GPIO_INPUT;
     for_each (gpio_free E) output_pins;
     cdev_del E;
     c \<leftarrow> gets toy_class;
     device_destroy E c;
     class_destroy E c;
     unregister_chrdev_region E }"

section \<open>What the handlers do\<close>

lemmas led_effects [led_simps] =
  m1.l.bank_effects m1.r.bank_effects m2.l.bank_effects m2.r.bank_effects

text \<open>The LED macros leave the variables of the driver alone.\<close>

lemma led_frames [frame_simps]:
  "motor_1_speed (exec (MOTOR_1_LED_LEFT_ON E) s) = motor_1_speed s"
  "motor_1_speed (exec (MOTOR_1_LED_LEFT_OFF E) s) = motor_1_speed s"
  "motor_1_speed (exec (MOTOR_1_LED_RIGHT_ON E) s) = motor_1_speed s"
  "motor_1_speed (exec (MOTOR_1_LED_RIGHT_OFF E) s) = motor_1_speed s"
  "motor_2_speed (exec (MOTOR_2_LED_LEFT_ON E) s) = motor_2_speed s"
  "motor_2_speed (exec (MOTOR_2_LED_LEFT_OFF E) s) = motor_2_speed s"
  "motor_2_speed (exec (MOTOR_2_LED_RIGHT_ON E) s) = motor_2_speed s"
  "motor_2_speed (exec (MOTOR_2_LED_RIGHT_OFF E) s) = motor_2_speed s"
  by (simp_all add: motor_1_leds motor_2_leds exec_simps)

lemma callback_1_level:
  "level (trace (exec (motor_1_timer_callback E) s)) p =
     (if p \<in> motor_1_left then Some (if motor_1_toggle s = 0 then 1 else 0)
      else if p \<in> motor_1_right then Some (if motor_1_toggle s = 0 then 0 else 1)
      else level (trace s) p)"
  by (simp add: motor_1_timer_callback_def exec_simps m1.light_left m1.light_right)

lemma callback_2_level:
  "level (trace (exec (motor_2_timer_callback E) s)) p =
     (if p \<in> motor_2_left then Some (if motor_2_toggle s = 0 then 1 else 0)
      else if p \<in> motor_2_right then Some (if motor_2_toggle s = 0 then 0 else 1)
      else level (trace s) p)"
  by (simp add: motor_2_timer_callback_def exec_simps m2.light_left m2.light_right)

lemma callback_1_armed: "armed (trace (exec (motor_1_timer_callback E) s)) = armed (trace s)"
  by (simp add: motor_1_timer_callback_def exec_simps led_simps)

lemma callback_2_armed: "armed (trace (exec (motor_2_timer_callback E) s)) = armed (trace s)"
  by (simp add: motor_2_timer_callback_def exec_simps led_simps)

lemma irq_level:
  "level (trace (exec (k_gpio_irq_signal_handler E) s)) p =
     (if p \<in> motor_1_left \<union> motor_1_right \<union> motor_2_left \<union> motor_2_right then Some 0
      else level (trace s) p)"
  by (simp add: k_gpio_irq_signal_handler_def exec_simps m1.dark m2.dark)

text \<open>The ioctl, request by request, once the argument was copied in.\<close>

definition copied :: "kenv \<Rightarrow> engine_state \<Rightarrow> bool" where
  "copied E s \<longleftrightarrow> E (trace s) (Task (CopyFromUser 4)) = 0"

lemma ioctl_fault:
  "\<not> copied E s \<Longrightarrow> result (toy_ioctl E cmd v) s = - EFAULT \<and>
     exec (toy_ioctl E cmd v) s = exec (copy_from_user E 4) s"
  by (simp add: toy_ioctl_def copied_def exec_simps)

lemma ioctl_result: "copied E s \<Longrightarrow> result (toy_ioctl E cmd v) s = EINVAL"
  by (simp add: toy_ioctl_def copied_def exec_simps)

lemma ioctl_speeds:
  assumes "copied E s"
  shows "motor_1_speed (exec (toy_ioctl E cmd v) s) =
      (if cmd = MOTOR_1_START_SPEED \<or> cmd = MOTOR_1_SET_SPEED then v else motor_1_speed s)"
    and "motor_2_speed (exec (toy_ioctl E cmd v) s) =
      (if cmd = MOTOR_2_START_SPEED \<or> cmd = MOTOR_2_SET_SPEED then v else motor_2_speed s)"
  using assms
  by (auto simp: toy_ioctl_def copied_def exec_simps motor_codes motor_1_leds motor_2_leds)

lemma ioctl_level:
  "level (trace (exec (toy_ioctl E cmd v) s)) p =
     (if copied E s \<and> cmd = MOTOR_1_HALT \<and> p \<in> motor_1_left \<union> motor_1_right then Some 0
      else if copied E s \<and> cmd = MOTOR_2_HALT \<and> p \<in> motor_2_left \<union> motor_2_right then Some 0
      else level (trace s) p)"
  by (auto simp: toy_ioctl_def copied_def exec_simps motor_codes m1.dark m2.dark)

lemma ioctl_armed_start_1:
  "copied E s \<Longrightarrow> armed (trace (exec (toy_ioctl E MOTOR_1_START_SPEED v) s)) =
     insert MOTOR_1_HRTIMER (armed (trace s))"
  by (auto simp: toy_ioctl_def copied_def exec_simps motor_codes)

lemma ioctl_armed_start_2:
  "copied E s \<Longrightarrow> armed (trace (exec (toy_ioctl E MOTOR_2_START_SPEED v) s)) =
     insert MOTOR_2_HRTIMER (armed (trace s))"
  by (auto simp: toy_ioctl_def copied_def exec_simps motor_codes)

lemma ioctl_armed_other:
  assumes "\<not> (copied E s \<and> cmd \<in> {MOTOR_1_START_SPEED, MOTOR_2_START_SPEED})"
  shows "armed (trace (exec (toy_ioctl E cmd v) s)) \<subseteq> armed (trace s)"
  using assms by (auto simp: toy_ioctl_def copied_def exec_simps motor_codes led_simps split: if_splits)

lemma ioctl_armed_1:
  assumes "MOTOR_1_HRTIMER \<in> armed (trace (exec (toy_ioctl E cmd v) s))"
  shows "MOTOR_1_HRTIMER \<in> armed (trace s) \<or> cmd = MOTOR_1_START_SPEED"
  using assms ioctl_armed_other [of E s cmd v] ioctl_armed_start_2 [of E s v] by blast

lemma ioctl_armed_2:
  assumes "MOTOR_2_HRTIMER \<in> armed (trace (exec (toy_ioctl E cmd v) s))"
  shows "MOTOR_2_HRTIMER \<in> armed (trace s) \<or> cmd = MOTOR_2_START_SPEED"
  using assms ioctl_armed_other [of E s cmd v] ioctl_armed_start_1 [of E s v] by blast

section \<open>Events and runs of the driver\<close>

datatype engine_event = Ioctl u32 s32 | Timer_1 | Timer_2 | Button

text \<open>A timer callback runs only while its timer is armed; the other handlers run at any time.\<close>

definition engine_step :: "kenv \<Rightarrow> engine_event \<Rightarrow> engine_state \<Rightarrow> engine_state option" where
  "engine_step E e s = (case e of
       Ioctl cmd v \<Rightarrow> Some (exec (toy_ioctl E cmd v) s)
     | Timer_1 \<Rightarrow> if MOTOR_1_HRTIMER \<in> armed (trace s)
                  then Some (exec (motor_1_timer_callback E) s) else None
     | Timer_2 \<Rightarrow> if MOTOR_2_HRTIMER \<in> armed (trace s)
                  then Some (exec (motor_2_timer_callback E) s) else None
     | Button \<Rightarrow> Some (exec (k_gpio_irq_signal_handler E) s))"

text \<open>LEDs of both halves of a motor are lit, after the calls of a history; between handlers they never are.\<close>

definition both_halves :: "nat set \<Rightarrow> nat set \<Rightarrow> (kcall \<times> int) list \<Rightarrow> bool" where
  "both_halves left right h \<longleftrightarrow> (\<exists>p \<in> left. level h p = Some 1) \<and> (\<exists>q \<in> right. level h q = Some 1)"

definition halves_exclusive :: "engine_state \<Rightarrow> bool" where
  "halves_exclusive s \<longleftrightarrow> \<not> both_halves motor_1_left motor_1_right (trace s) \<and>
     \<not> both_halves motor_2_left motor_2_right (trace s)"

interpretation excl: kept_by "engine_step E" halves_exclusive "\<lambda>_. True" for E
  by unfold_locales
    (auto simp: engine_step_def halves_exclusive_def both_halves_def ioctl_level callback_1_level callback_2_level
      irq_level split: engine_event.splits if_splits dest: motor_pinsD)

text \<open>A motor that is stopped: its timer is not armed and its four LEDs are dark.\<close>

definition stopped_1 :: "engine_state \<Rightarrow> bool" where
  "stopped_1 s \<longleftrightarrow> MOTOR_1_HRTIMER \<notin> armed (trace s) \<and>
     (\<forall>p \<in> motor_1_left \<union> motor_1_right. level (trace s) p = Some 0)"

definition stopped_2 :: "engine_state \<Rightarrow> bool" where
  "stopped_2 s \<longleftrightarrow> MOTOR_2_HRTIMER \<notin> armed (trace s) \<and>
     (\<forall>p \<in> motor_2_left \<union> motor_2_right. level (trace s) p = Some 0)"

fun starts_1 :: "engine_event \<Rightarrow> bool" where
  "starts_1 (Ioctl cmd _) = (cmd = MOTOR_1_START_SPEED)"
| "starts_1 _ = False"

fun starts_2 :: "engine_event \<Rightarrow> bool" where
  "starts_2 (Ioctl cmd _) = (cmd = MOTOR_2_START_SPEED)"
| "starts_2 _ = False"

lemma irq_armed:
  "t \<in> armed (trace (exec (k_gpio_irq_signal_handler E) s)) \<Longrightarrow> t \<in> armed (trace s)"
  by (auto simp: k_gpio_irq_signal_handler_def exec_simps led_simps split: if_splits)

interpretation stop1: kept_by "engine_step E" stopped_1 "\<lambda>e. \<not> starts_1 e" for E
proof (unfold_locales, goal_cases)
  case (1 s e s')
  then show ?case
    by (cases e) (auto simp: engine_step_def stopped_1_def ioctl_level callback_2_level
        callback_2_armed irq_level split: if_splits dest: ioctl_armed_1 irq_armed motor_pinsD)
qed

interpretation stop2: kept_by "engine_step E" stopped_2 "\<lambda>e. \<not> starts_2 e" for E
proof (unfold_locales, goal_cases)
  case (1 s e s')
  then show ?case
    by (cases e) (auto simp: engine_step_def stopped_2_def ioctl_level callback_1_level
        callback_1_armed irq_level split: if_splits dest: ioctl_armed_2 irq_armed motor_pinsD)
qed

section \<open>Loading and unloading\<close>

interpretation reg: gpio_registration "register_gpio_output E" for E
proof (unfold_locales, goal_cases)
  case (1 p)
  show ?case
    unfolding register_gpio_output_def by (intro emits_intros) (auto simp: claim_calls_def)
next
  case (2 p)
  show ?case unfolding register_gpio_output_def by (intro only_trace_intros)
qed

definition module_resources :: "int \<Rightarrow> resource set" where
  "module_resources irq = {RChrdev, RClass, RDevice, RCdev, RIrq irq, RGpio TOY_GPIO_INPUT} \<union>
     RGpio ` set output_pins"

definition loaded :: "engine_state \<Rightarrow> bool" where
  "loaded s \<longleftrightarrow> held (trace s) \<subseteq> module_resources (button_irq s) \<and>
     armed (trace s) \<subseteq> {MOTOR_1_HRTIMER, MOTOR_2_HRTIMER} \<and>
     (RClass \<in> held (trace s) \<or> RDevice \<in> held (trace s) \<longrightarrow> 0 < toy_class s)"

declare reg.wp_claim_all [wp_intros]

lemmas engine_error_exits = cerror_def device_error_def reg_error_def gpio_error_def

lemma wp_engine_init_loaded:
  "clean s \<Longrightarrow> wp (toy_module_init E) (\<lambda>r s'. r = 0 \<longrightarrow> loaded s') s"
  unfolding toy_module_init_def engine_error_exits
  by (intro wp_intros) (auto simp: loaded_def clean_def module_resources_def split: if_splits)

lemma wp_init_failed:
  "clean s \<Longrightarrow> wp (toy_module_init E)
     (\<lambda>r s'. r \<noteq> 0 \<longrightarrow> r = -1 \<and> held (trace s') \<subseteq> {RCdev} \<and> armed (trace s') = {}) s"
  unfolding toy_module_init_def engine_error_exits
  by (intro wp_intros) (auto simp: clean_def split: if_splits)

lemma wp_init_levels:
  "\<forall>p. level (trace s) p \<noteq> Some 1 \<Longrightarrow>
   wp (toy_module_init E) (\<lambda>r s'. \<forall>p. level (trace s') p \<noteq> Some 1) s"
  unfolding toy_module_init_def engine_error_exits
  by (intro wp_intros) (simp_all, (metis zero_neq_one)+)

lemma wp_engine_exit_clean: "loaded s \<Longrightarrow> wp (toy_module_exit E) (\<lambda>_. clean) s"
  unfolding toy_module_exit_def
  by (intro wp_intros) (auto simp: loaded_def clean_def module_resources_def)

lemma wp_ioctl_loaded: "loaded s \<Longrightarrow> wp (toy_ioctl E cmd v) (\<lambda>_. loaded) s"
  unfolding toy_ioctl_def motor_1_leds motor_2_leds
  by (intro wp_intros) (auto simp: loaded_def)

lemma wp_callback_1_loaded: "loaded s \<Longrightarrow> wp (motor_1_timer_callback E) (\<lambda>_. loaded) s"
  unfolding motor_1_timer_callback_def motor_1_leds
  by (intro wp_intros) (auto simp: loaded_def)

lemma wp_callback_2_loaded: "loaded s \<Longrightarrow> wp (motor_2_timer_callback E) (\<lambda>_. loaded) s"
  unfolding motor_2_timer_callback_def motor_2_leds
  by (intro wp_intros) (auto simp: loaded_def)

lemma wp_irq_loaded: "loaded s \<Longrightarrow> wp (k_gpio_irq_signal_handler E) (\<lambda>_. loaded) s"
  unfolding k_gpio_irq_signal_handler_def motor_1_leds motor_2_leds
  by (intro wp_intros) (auto simp: loaded_def)

interpretation module: loadable_module "toy_module_init E" "toy_module_exit E" "engine_step E" loaded
  for E
proof (unfold_locales, goal_cases)
  case (1 s)
  then show ?case using wp_engine_init_loaded [of s E] by (simp add: wp_def)
next
  case (2 s e s')
  then show ?case
    using wp_ioctl_loaded wp_callback_1_loaded wp_callback_2_loaded wp_irq_loaded
    by (cases e) (auto simp: engine_step_def wp_def split: if_splits)
next
  case (3 s)
  then show ?case using wp_engine_exit_clean [of s E] by (simp add: wp_def clean_def)
qed

section \<open>The blink period\<close>

lemma sint_100_minus:
  assumes "- 1000000 \<le> sint speed" "sint speed \<le> 1000000"
  shows "sint (of_nat MAX_TIMEOUT_MSEC * (100 - speed) :: s32) = 2000 * (100 - sint speed)"
proof -
  have d: "sint (100 - speed) = 100 - sint speed"
    using assms sint_sub32 [of 100 speed] by simp
  with assms show ?thesis
    using sint_mult32 [of 2000 "100 - speed"] by (simp add: MAX_TIMEOUT_MSEC_def)
qed

lemma motor_timeout_value:
  assumes "- 1000000 \<le> sint speed" "sint speed \<le> 1000000"
  shows "sint (motor_timeout speed) = 20 * (100 - sint speed)"
proof -
  have "(2000 * (100 - sint speed)) sdiv 100 = 20 * (100 - sint speed)"
    by (cases "sint speed \<le> 100") (simp_all add: sdiv_pos sdiv_neg)
  then have "motor_timeout speed = word_of_int (20 * (100 - sint speed))"
    using assms by (simp add: motor_timeout_def c_div_def sint_100_minus)
  with assms show ?thesis
    using sint_of_int32 [of "20 * (100 - sint speed)"] by simp
qed

section \<open>Properties\<close>

text \<open>
  \<^verbatim>\<open>hrtimer_try_to_cancel\<close> answers -1 only when the callback of the timer is running on another
  processor.  The handlers are not interleaved here, so a theorem may assume it does not.
\<close>

definition cancels :: "kenv \<Rightarrow> bool" where
  "cancels E \<longleftrightarrow> (\<forall>h t. E h (Timer (HrtimerTryToCancel t)) \<noteq> - 1)"

lemma obliging_cancels: "cancels obliging"
  by (simp add: cancels_def)

lemma irq_disarms:
  "cancels E \<Longrightarrow> MOTOR_1_HRTIMER \<notin> armed (trace (exec (k_gpio_irq_signal_handler E) s)) \<and>
     MOTOR_2_HRTIMER \<notin> armed (trace (exec (k_gpio_irq_signal_handler E) s))"
  by (simp add: k_gpio_irq_signal_handler_def exec_simps led_simps cancels_def)

lemma irq_stops:
  "cancels E \<Longrightarrow> stopped_1 (exec (k_gpio_irq_signal_handler E) s) \<and>
     stopped_2 (exec (k_gpio_irq_signal_handler E) s)"
  using irq_disarms [of E s] by (simp add: stopped_1_def stopped_2_def irq_level)

lemma halt_stops:
  assumes "cancels E" "copied E s"
  shows "stopped_1 (exec (toy_ioctl E MOTOR_1_HALT v) s)" "stopped_2 (exec (toy_ioctl E MOTOR_2_HALT v) s)"
  using assms
  by (auto simp: stopped_1_def stopped_2_def ioctl_level motor_codes,
      auto simp: toy_ioctl_def exec_simps led_simps copied_def cancels_def motor_codes)

lemma ioctl_armed_exact:
  assumes "cancels E" "copied E s"
  shows "armed (trace (exec (toy_ioctl E cmd v) s)) =
    (if cmd = MOTOR_1_START_SPEED then insert MOTOR_1_HRTIMER (armed (trace s))
     else if cmd = MOTOR_2_START_SPEED then insert MOTOR_2_HRTIMER (armed (trace s))
     else if cmd = MOTOR_1_HALT then armed (trace s) - {MOTOR_1_HRTIMER}
     else if cmd = MOTOR_2_HALT then armed (trace s) - {MOTOR_2_HRTIMER}
     else armed (trace s))"
  using assms
  by (simp add: toy_ioctl_def copied_def cancels_def exec_simps led_simps motor_codes)

lemma callback_speeds:
  "motor_1_speed (exec (motor_1_timer_callback E) s) = motor_1_speed s"
  "motor_2_speed (exec (motor_1_timer_callback E) s) = motor_2_speed s"
  "motor_1_speed (exec (motor_2_timer_callback E) s) = motor_1_speed s"
  "motor_2_speed (exec (motor_2_timer_callback E) s) = motor_2_speed s"
  by (simp_all add: motor_1_timer_callback_def motor_2_timer_callback_def exec_simps frame_simps
      motor_1_leds motor_2_leds)

text \<open>The state of the module once it was loaded from scratch.\<close>

definition booted :: "kenv \<Rightarrow> engine_state" where
  "booted E = exec (toy_module_init E) engine_initial"

lemma booted_exclusive: "halves_exclusive (booted E)"
  using wp_init_levels [of engine_initial E]
  by (simp add: booted_def wp_def halves_exclusive_def both_halves_def engine_initial_def)

lemma obliging_boot:
  "result (toy_module_init obliging) engine_initial = 0"
  "MOTOR_1_HRTIMER \<in> armed (trace (booted obliging))"
  by (simp_all add: booted_def toy_module_init_def exec_simps engine_initial_def output_pins_def
      register_gpio_output_def armed_def)

lemma obliging_copied [simp]: "copied obliging s"
  by (simp add: copied_def)

lemma run_ioctl:
  "run_events (engine_step E) (Ioctl cmd v # es) s =
     run_events (engine_step E) es (exec (toy_ioctl E cmd v) s)"
  by (simp add: engine_step_def)

text \<open>
  C2.  The emergency stop holds: after the button was pressed both motors stay stopped, their timers
  off and all eight LEDs dark, whatever happens next, until a start request for a motor comes.
\<close>

theorem engine_emergency_stop:
  assumes "cancels E" "run_events (engine_step E) (Button # es) s = Some s'"
    and "\<forall>e \<in> set es. \<not> starts_1 e \<and> \<not> starts_2 e"
  shows "stopped_1 s' \<and> stopped_2 s'"
proof -
  let ?b = "exec (k_gpio_irq_signal_handler E) s"
  have run: "run_events (engine_step E) es ?b = Some s'"
    using assms(2) by (simp add: engine_step_def)
  have "list_all (\<lambda>e. \<not> starts_1 e) es" "list_all (\<lambda>e. \<not> starts_2 e) es"
    using assms(3) by (simp_all add: list_all_iff)
  then show ?thesis
    using irq_stops [OF assms(1), of s] stop1.run_keeps [OF _ _ run] stop2.run_keeps [OF _ _ run]
    by blast
qed

theorem engine_emergency_stop_witness:
  "\<exists>s'. run_events (engine_step obliging) [Button, Ioctl MOTOR_1_SET_SPEED 50] (booted obliging) =
     Some s' \<and> stopped_1 s' \<and> stopped_2 s'"
proof -
  have "\<exists>s'. run_events (engine_step obliging) [Button, Ioctl MOTOR_1_SET_SPEED 50] (booted obliging) =
      Some s'"
    by (simp add: engine_step_def)
  then show ?thesis
    using engine_emergency_stop [OF obliging_cancels, of "[Ioctl MOTOR_1_SET_SPEED 50]" "booted obliging"]
    by (auto simp: motor_codes)
qed

text \<open>
  C20.  A halt request that could be read stops its motor, and the motor stays stopped until a start
  request for the same motor; requests for the other motor do not revive it.
\<close>

theorem engine_halt_holds:
  assumes "cancels E" "copied E s"
  shows "(run_events (engine_step E) (Ioctl MOTOR_1_HALT v # es) s = Some s' \<and>
      (\<forall>e \<in> set es. \<not> starts_1 e) \<longrightarrow> stopped_1 s') \<and>
    (run_events (engine_step E) (Ioctl MOTOR_2_HALT v # es) s = Some s' \<and>
      (\<forall>e \<in> set es. \<not> starts_2 e) \<longrightarrow> stopped_2 s')"
  using stop1.run_keeps [OF halt_stops(1) [OF assms, of v], where E = E and es = es and s' = s']
    stop2.run_keeps [OF halt_stops(2) [OF assms, of v], where E = E and es = es and s' = s']
  by (simp add: run_ioctl list_all_iff del: run_events.simps)

theorem engine_halt_holds_witness:
  "\<exists>s'. run_events (engine_step obliging) [Ioctl MOTOR_1_HALT 0, Ioctl MOTOR_2_START_SPEED 50]
     (booted obliging) = Some s' \<and> stopped_1 s'"
proof -
  have "\<exists>s'. run_events (engine_step obliging) [Ioctl MOTOR_1_HALT 0, Ioctl MOTOR_2_START_SPEED 50]
      (booted obliging) = Some s'"
    by (simp add: engine_step_def)
  then show ?thesis
    using engine_halt_holds [OF obliging_cancels obliging_copied, of 0
        "[Ioctl MOTOR_2_START_SPEED 50]" "booted obliging"]
    by (auto simp: motor_codes)
qed

text \<open>
  Inside a handler: the history after its first \<open>k\<close> calls.  The ioctl and the button only darken LEDs, a
  callback drives the four LEDs of its motor one after the other and then forwards its timer.
\<close>

definition moment :: "engine_state \<Rightarrow> engine_state \<Rightarrow> nat \<Rightarrow> (kcall \<times> int) list" where
  "moment s s' k = take (length (trace s) + k) (trace s')"

lemma moment_append: "trace s' = trace s @ cs \<Longrightarrow> moment s s' k = trace s @ take k cs"
  by (simp add: moment_def)

definition darkening :: "kcall set" where
  "darkening = range (\<lambda>p. Gpio (GpioSetValue p 0)) \<union> range Timer \<union> range Task"

lemma darkening_levels: "fst ` set cs \<subseteq> darkening \<Longrightarrow> fold level_step cs m p \<in> {m p, Some 0}"
proof (induction cs arbitrary: m)
  case (Cons c cs)
  then have "level_step c m p \<in> {m p, Some 0}" by (cases c) (auto simp: darkening_def)
  moreover from Cons have "fold level_step cs (level_step c m) p \<in> {level_step c m p, Some 0}" by simp
  ultimately show ?case by auto
qed simp

lemma emits_darkening: "emits darkening (toy_ioctl E cmd v)" "emits darkening (k_gpio_irq_signal_handler E)"
  unfolding toy_ioctl_def k_gpio_irq_signal_handler_def motor_1_leds motor_2_leds
  by (intro emits_intros; simp add: darkening_def)+

lemma darkening_moment:
  assumes "emits darkening m" "\<not> both_halves left right (trace s)"
  shows "\<not> both_halves left right (moment s (exec m s) k)"
proof -
  obtain cs where cs: "trace (exec m s) = trace s @ cs" "fst ` set cs \<subseteq> darkening"
    using assms(1) by (meson emits_def)
  have "fst ` set (take k cs) \<subseteq> darkening" using cs(2) set_take_subset by fast
  from darkening_levels [OF this] have "level (moment s (exec m s) k) p \<in> {level (trace s) p, Some 0}" for p
    unfolding moment_append [OF cs(1)] level_append .
  then have "level (moment s (exec m s) k) p = Some 1 \<Longrightarrow> level (trace s) p = Some 1" for p
    by (metis insertE option.inject singletonD zero_neq_one)
  with assms(2) show ?thesis unfolding both_halves_def by blast
qed

lemma callback_calls:
  "\<exists>r1 r2 r3 r4 c. trace (exec (motor_1_timer_callback E) s) = trace s @
     (if motor_1_toggle s = 0
      then [(Gpio (GpioSetValue 17 1), r1), (Gpio (GpioSetValue 27 1), r2), (Gpio (GpioSetValue 22 0), r3), (Gpio (GpioSetValue 5 0), r4)]
      else [(Gpio (GpioSetValue 17 0), r1), (Gpio (GpioSetValue 27 0), r2), (Gpio (GpioSetValue 22 1), r3), (Gpio (GpioSetValue 5 1), r4)]) @
     [(Timer (fst c), snd c)]"
  "\<exists>r1 r2 r3 r4 c. trace (exec (motor_2_timer_callback E) s) = trace s @
     (if motor_2_toggle s = 0
      then [(Gpio (GpioSetValue 6 1), r1), (Gpio (GpioSetValue 26 1), r2), (Gpio (GpioSetValue 23 0), r3), (Gpio (GpioSetValue 24 0), r4)]
      else [(Gpio (GpioSetValue 6 0), r1), (Gpio (GpioSetValue 26 0), r2), (Gpio (GpioSetValue 23 1), r3), (Gpio (GpioSetValue 24 1), r4)]) @
     [(Timer (fst c), snd c)]"
  by (simp_all add: motor_1_timer_callback_def motor_2_timer_callback_def motor_1_leds motor_2_leds exec_simps engine_gpio_pins
      del: split_paired_Ex) (auto intro!: exI [of _ "(a, b)" for a b])

text \<open>The histories inside such a sequence of calls, and the pins it leaves alone.\<close>

lemma sequence_moment:
  assumes "trace s' = trace s @ (if on then [(Gpio (GpioSetValue a 1), r1), (Gpio (GpioSetValue b 1), r2),
        (Gpio (GpioSetValue c 0), r3), (Gpio (GpioSetValue d 0), r4)]
      else [(Gpio (GpioSetValue a 0), r1), (Gpio (GpioSetValue b 0), r2),
        (Gpio (GpioSetValue c 1), r3), (Gpio (GpioSetValue d 1), r4)]) @ [(Timer t, r5)]"
    and "distinct [a, b, c, d]" "\<not> both_halves {a, b} {c, d} (trace s)"
  shows "both_halves {a, b} {c, d} (moment s s' k) \<longleftrightarrow> on \<and>
      ((k = 1 \<or> k = 2) \<and> (level (trace s) c = Some 1 \<or> level (trace s) d = Some 1) \<or>
       k = 3 \<and> level (trace s) d = Some 1)"
    and "left \<inter> {a, b, c, d} = {} \<Longrightarrow> right \<inter> {a, b, c, d} = {} \<Longrightarrow>
      both_halves left right (moment s s' k) \<longleftrightarrow> both_halves left right (trace s)"
proof -
  have k: "k = 0 \<or> k = 1 \<or> k = 2 \<or> k = 3 \<or> k = 4 \<or> (\<exists>j. k = Suc (Suc (Suc (Suc (Suc j)))))"
    by presburger
  show "both_halves {a, b} {c, d} (moment s s' k) \<longleftrightarrow> on \<and>
      ((k = 1 \<or> k = 2) \<and> (level (trace s) c = Some 1 \<or> level (trace s) d = Some 1) \<or>
       k = 3 \<and> level (trace s) d = Some 1)"
    using k assms(2,3) unfolding moment_append [OF assms(1)]
    by (elim disjE exE; cases on) (auto simp: both_halves_def numeral_eq_Suc)
  have "level (moment s s' k) p = level (trace s) p" if "p \<notin> {a, b, c, d}" for p
    using k that unfolding moment_append [OF assms(1)]
    by (elim disjE exE; cases on) (auto simp: numeral_eq_Suc)
  then show "left \<inter> {a, b, c, d} = {} \<Longrightarrow> right \<inter> {a, b, c, d} = {} \<Longrightarrow>
      both_halves left right (moment s s' k) \<longleftrightarrow> both_halves left right (trace s)"
    unfolding both_halves_def by (metis disjoint_iff)
qed

text \<open>
  C18.  When LEDs of the left and of the right half of a motor are lit together, on every run of ioctls, timer
  callbacks and button presses after loading: never between two handlers, and within a handler only in the
  callback of the motor that turns from the right half to the left one.  It lights the left half
  first, so both are lit from its first call on until its third and fourth call have darkened those LEDs
  of the right half that were lit.
\<close>

theorem engine_halves_exclusive:
  assumes "run_events (engine_step E) es (booted E) = Some s" "engine_step E e s = Some s'"
  shows "halves_exclusive s \<and>
    (both_halves motor_1_left motor_1_right (moment s s' k) \<longleftrightarrow> e = Timer_1 \<and> motor_1_toggle s = 0 \<and>
      ((k = 1 \<or> k = 2) \<and> (\<exists>q \<in> motor_1_right. level (trace s) q = Some 1) \<or>
       k = 3 \<and> level (trace s) TOY_GPIO_OUTPUT_LEFT_4 = Some 1)) \<and>
    (both_halves motor_2_left motor_2_right (moment s s' k) \<longleftrightarrow> e = Timer_2 \<and> motor_2_toggle s = 0 \<and>
      ((k = 1 \<or> k = 2) \<and> (\<exists>q \<in> motor_2_right. level (trace s) q = Some 1) \<or>
       k = 3 \<and> level (trace s) TOY_GPIO_OUTPUT_RIGHT_4 = Some 1))"
proof -
  have x: "halves_exclusive s"
    using excl.run_keeps [OF booted_exclusive _ assms(1)] by (simp add: list_all_iff)
  then have no: "\<not> both_halves motor_1_left motor_1_right (trace s)" "\<not> both_halves motor_2_left motor_2_right (trace s)"
    by (simp_all add: halves_exclusive_def)
  show ?thesis
  proof (cases e)
    case (Ioctl cmd v)
    then have "s' = exec (toy_ioctl E cmd v) s" using assms(2) by (simp add: engine_step_def)
    then show ?thesis using x no Ioctl darkening_moment [OF emits_darkening(1)] by simp
  next
    case Button
    then have "s' = exec (k_gpio_irq_signal_handler E) s" using assms(2) by (simp add: engine_step_def)
    then show ?thesis using x no Button darkening_moment [OF emits_darkening(2)] by simp
  next
    case Timer_1
    then have s': "s' = exec (motor_1_timer_callback E) s" using assms(2) by (auto simp: engine_step_def split: if_splits)
    obtain r1 r2 r3 r4 c where "trace s' = trace s @
       (if motor_1_toggle s = 0
        then [(Gpio (GpioSetValue 17 1), r1), (Gpio (GpioSetValue 27 1), r2), (Gpio (GpioSetValue 22 0), r3), (Gpio (GpioSetValue 5 0), r4)]
        else [(Gpio (GpioSetValue 17 0), r1), (Gpio (GpioSetValue 27 0), r2), (Gpio (GpioSetValue 22 1), r3), (Gpio (GpioSetValue 5 1), r4)]) @
       [(Timer (fst c), snd c)]"
      using callback_calls(1) [of E s] unfolding s' by blast
    note m = sequence_moment [OF this, unfolded motor_pins [symmetric]]
    show ?thesis using x no m(1) [of k] m(2) [of motor_2_left motor_2_right k] Timer_1
      by (simp add: motor_pins engine_gpio_pins)
  next
    case Timer_2
    then have s': "s' = exec (motor_2_timer_callback E) s" using assms(2) by (auto simp: engine_step_def split: if_splits)
    obtain r1 r2 r3 r4 c where "trace s' = trace s @
       (if motor_2_toggle s = 0
        then [(Gpio (GpioSetValue 6 1), r1), (Gpio (GpioSetValue 26 1), r2), (Gpio (GpioSetValue 23 0), r3), (Gpio (GpioSetValue 24 0), r4)]
        else [(Gpio (GpioSetValue 6 0), r1), (Gpio (GpioSetValue 26 0), r2), (Gpio (GpioSetValue 23 1), r3), (Gpio (GpioSetValue 24 1), r4)]) @
       [(Timer (fst c), snd c)]"
      using callback_calls(2) [of E s] unfolding s' by blast
    note m = sequence_moment [OF this, unfolded motor_pins [symmetric]]
    show ?thesis using x no m(1) [of k] m(2) [of motor_1_left motor_1_right k] Timer_2
      by (simp add: motor_pins engine_gpio_pins)
  qed
qed

theorem engine_halves_exclusive_witness:
  "\<exists>s s'. run_events (engine_step obliging) [Timer_1, Timer_1] (booted obliging) = Some s \<and>
     engine_step obliging Timer_1 s = Some s' \<and> halves_exclusive s \<and> halves_exclusive s' \<and>
     both_halves motor_1_left motor_1_right (moment s s' 2)"
proof -
  have tog: "motor_1_toggle (exec (motor_1_timer_callback obliging) u) = c_not (motor_1_toggle u)" for u
    by (simp add: motor_1_timer_callback_def motor_1_leds exec_simps)
  have t0: "motor_1_toggle (booted obliging) = 0"
    by (simp add: booted_def toy_module_init_def exec_simps engine_initial_def output_pins_def register_gpio_output_def)
  let ?u = "exec (motor_1_timer_callback obliging) (booted obliging)"
  let ?s = "exec (motor_1_timer_callback obliging) ?u"
  let ?s' = "exec (motor_1_timer_callback obliging) ?s"
  have run: "run_events (engine_step obliging) [Timer_1, Timer_1] (booted obliging) = Some ?s"
    "run_events (engine_step obliging) [Timer_1, Timer_1, Timer_1] (booted obliging) = Some ?s'"
    and step: "engine_step obliging Timer_1 ?s = Some ?s'"
    "engine_step obliging Timer_1 ?s' = Some (exec (motor_1_timer_callback obliging) ?s')"
    using obliging_boot(2) by (simp_all add: engine_step_def callback_1_armed)
  have "motor_1_toggle ?s = 0" "\<exists>q \<in> motor_1_right. level (trace ?s) q = Some 1"
    using tog t0 by (simp_all add: callback_1_level c_not_def motor_pins)
  with engine_halves_exclusive [OF run(1) step(1), of 2] engine_halves_exclusive [OF run(2) step(2), of 0] run(1) step(1)
  show ?thesis by blast
qed

text \<open>
  C10.  The ioctl, whole: a request whose argument could be read returns the positive \<^verbatim>\<open>EINVAL\<close>
  whatever it was.  The start and set requests store the speed, a start request arms the timer of
  its motor, a halt request disarms it and darkens its LEDs, and nothing else changes; a code that
  is none of the six changes nothing at all.
\<close>

theorem engine_ioctl_effect:
  assumes "cancels E" "copied E s"
  shows "let s' = exec (toy_ioctl E cmd v) s in result (toy_ioctl E cmd v) s = EINVAL \<and>
    motor_1_speed s' = (if cmd \<in> {MOTOR_1_START_SPEED, MOTOR_1_SET_SPEED} then v else motor_1_speed s) \<and>
    motor_2_speed s' = (if cmd \<in> {MOTOR_2_START_SPEED, MOTOR_2_SET_SPEED} then v else motor_2_speed s) \<and>
    armed (trace s') =
      (if cmd = MOTOR_1_START_SPEED then insert MOTOR_1_HRTIMER (armed (trace s))
       else if cmd = MOTOR_2_START_SPEED then insert MOTOR_2_HRTIMER (armed (trace s))
       else if cmd = MOTOR_1_HALT then armed (trace s) - {MOTOR_1_HRTIMER}
       else if cmd = MOTOR_2_HALT then armed (trace s) - {MOTOR_2_HRTIMER}
       else armed (trace s)) \<and>
    level (trace s') = (\<lambda>p.
      if cmd = MOTOR_1_HALT \<and> p \<in> motor_1_left \<union> motor_1_right then Some 0
      else if cmd = MOTOR_2_HALT \<and> p \<in> motor_2_left \<union> motor_2_right then Some 0
      else level (trace s) p)"
proof -
  note ioctl_armed_exact [OF assms, of cmd v]
  moreover have "level (trace (exec (toy_ioctl E cmd v) s)) = (\<lambda>p.
      if cmd = MOTOR_1_HALT \<and> p \<in> motor_1_left \<union> motor_1_right then Some 0
      else if cmd = MOTOR_2_HALT \<and> p \<in> motor_2_left \<union> motor_2_right then Some 0
      else level (trace s) p)"
    by (rule ext) (simp only: ioctl_level assms(2) simp_thms)
  ultimately show ?thesis
    using ioctl_result [OF assms(2)] ioctl_speeds [OF assms(2), of cmd v]
    by (simp only: Let_def insert_iff empty_iff simp_thms)
qed

theorem engine_ioctl_effect_witness:
  "motor_1_speed (exec (toy_ioctl obliging MOTOR_1_START_SPEED 50) engine_initial) = 50 \<and>
   armed (trace (exec (toy_ioctl obliging MOTOR_1_START_SPEED 50) engine_initial)) = {MOTOR_1_HRTIMER}"
  using engine_ioctl_effect [OF obliging_cancels obliging_copied, of MOTOR_1_START_SPEED 50 engine_initial]
  by (simp add: engine_initial_def Let_def)

text \<open>
  A timer callback of the first motor at a speed of 0 to 100 percent swaps its two halves and
  asks to be called again after 20 ms for every percent below 100, so after 0 to 2000 ms.
\<close>

theorem engine_blink_period:
  assumes "0 \<le> sint (motor_1_speed s)" "sint (motor_1_speed s) \<le> 100"
  shows "\<exists>d. 0 \<le> d \<and> d \<le> 2000 \<and> d = 20 * (100 - sint (motor_1_speed s)) \<and>
    fst (last (trace (exec (motor_1_timer_callback E) s))) = Timer (HrtimerForwardNow MOTOR_1_HRTIMER d) \<and>
    (\<forall>p. level (trace (exec (motor_1_timer_callback E) s)) p =
       (if p \<in> motor_1_left then Some (if motor_1_toggle s = 0 then 1 else 0)
        else if p \<in> motor_1_right then Some (if motor_1_toggle s = 0 then 0 else 1)
        else level (trace s) p))"
proof -
  have "fst (last (trace (exec (motor_1_timer_callback E) s))) =
      Timer (HrtimerForwardNow MOTOR_1_HRTIMER (sint (motor_timeout (motor_1_speed s))))"
    by (simp add: motor_1_timer_callback_def exec_simps frame_simps)
  then show ?thesis
    using assms motor_timeout_value [of "motor_1_speed s"] by (simp add: callback_1_level)
qed

theorem engine_blink_period_witness:
  "sint (motor_1_speed engine_initial) = 1 \<and>
   fst (last (trace (exec (motor_1_timer_callback obliging) engine_initial))) =
     Timer (HrtimerForwardNow MOTOR_1_HRTIMER 1980)"
  using engine_blink_period [of engine_initial obliging] by (simp add: engine_initial_def)

text \<open>
  C30.  Loading the module, using it in any way and unloading it gives back every pin, the interrupt,
  the device and its class and the device number, and leaves no timer armed.
\<close>

theorem engine_session_clean:
  assumes "clean s" "result (toy_module_init E) s = 0"
    and "run_events (engine_step E) es (exec (toy_module_init E) s) = Some s'"
  shows "clean (exec (toy_module_exit E) s')"
  using assms by (rule module.session_clean)

theorem engine_session_clean_witness:
  "\<exists>s'. run_events (engine_step obliging) [Timer_1, Button] (exec (toy_module_init obliging) engine_initial) =
     Some s' \<and> clean (exec (toy_module_exit obliging) s')"
proof -
  have "clean engine_initial" by (simp add: clean_def engine_initial_def)
  moreover have "\<exists>s'. run_events (engine_step obliging) [Timer_1, Button]
      (exec (toy_module_init obliging) engine_initial) = Some s'"
    using obliging_boot(2) by (simp add: engine_step_def booted_def)
  ultimately show ?thesis using engine_session_clean [OF _ obliging_boot(1)] by blast
qed

text \<open>
  C31.  Loading that fails answers -1 with no timer armed, and gives back everything but the added
  character device, which the error exits after \<^verbatim>\<open>cdev_add\<close> never delete: a kernel that refuses the
  button's pin is left with the module's character device registered.
\<close>

theorem engine_load_failure:
  assumes "clean s" "result (toy_module_init E) s \<noteq> 0"
  shows "result (toy_module_init E) s = - 1 \<and> held (trace (exec (toy_module_init E) s)) \<subseteq> {RCdev} \<and>
    armed (trace (exec (toy_module_init E) s)) = {}"
  using wp_init_failed [OF assms(1), of E] assms(2) by (simp add: wp_def)

definition no_button :: kenv where
  "no_button h c = (if c = Gpio (GpioRequest TOY_GPIO_INPUT ''toy-gpio-16'') then - 16 else obliging h c)"

theorem engine_load_failure_witness:
  "result (toy_module_init no_button) engine_initial = - 1 \<and>
   held (trace (exec (toy_module_init no_button) engine_initial)) = {RCdev}"
proof -
  have run: "result (toy_module_init no_button) engine_initial \<noteq> 0"
      "RCdev \<in> held (trace (exec (toy_module_init no_button) engine_initial))"
    by (simp_all add: toy_module_init_def engine_error_exits exec_simps engine_initial_def
        output_pins_def register_gpio_output_def no_button_def engine_gpio_pins held_def)
  have "clean engine_initial" by (simp add: clean_def engine_initial_def)
  from engine_load_failure [OF this run(1)] run(2) show ?thesis by blast
qed

end
