(* ===== verification/Sensor_Driver.thy ===== *)
theory Sensor_Driver
  imports Kernel_Calls
begin

text \<open>
  The temperature driver, \<^verbatim>\<open>src/drivers/sensor/sensor.c\<close>: a BMP280 sensor on the I2C bus, read on
  demand through the device file and every two seconds by a work queue that a timer feeds; two sysfs
  attributes show the last value.  Every function of the file is modelled.  The values read over
  the bus are answers of the kernel, so parameters; the arithmetic on them is that of 32 bit ints.
\<close>

section \<open>Constants and state\<close>

definition BUF_SIZE :: nat where "BUF_SIZE = 1024"
definition MAX_TIMEOUT_MSEC :: nat where "MAX_TIMEOUT_MSEC = 2000"
definition I2C_BUS_AVAILABLE :: nat where "I2C_BUS_AVAILABLE = 1"

record temp_attr =
  attr_name :: string
  attr_value :: s32

record sensor_state = "kcall io" +
  k_class :: int
  bmp_i2c_adapter :: int
  bmp280_i2c_client :: int
  dig_T1 :: s32
  dig_T2 :: s32
  dig_T3 :: s32
  k_workqueue :: int
  toy_kobj :: int
  notify :: temp_attr
  trigger :: temp_attr
  kernel_write_buffer :: "u8 list"

definition sensor_initial :: sensor_state where
  "sensor_initial = \<lparr>trace = [], k_class = 0, bmp_i2c_adapter = 0, bmp280_i2c_client = 0,
     dig_T1 = 0, dig_T2 = 0, dig_T3 = 0, k_workqueue = 0, toy_kobj = 0,
     notify = \<lparr>attr_name = ''notify'', attr_value = 0\<rparr>,
     trigger = \<lparr>attr_name = ''trigger'', attr_value = 0\<rparr>,
     kernel_write_buffer = replicate BUF_SIZE 0\<rparr>"

type_synonym 'a sensor_prog = "(sensor_state, 'a) state"

section \<open>Reading the temperature\<close>

text \<open>The shifts of C on signed ints: \<^verbatim>\<open><<\<close> is \<open>push_bit\<close>, \<^verbatim>\<open>>>\<close> is the arithmetic shift.\<close>

definition raw_value :: "s32 \<Rightarrow> s32 \<Rightarrow> s32 \<Rightarrow> s32" where
  "raw_value d1 d2 d3 = signed_drop_bit 4 (push_bit 16 d1 OR push_bit 8 d2 OR d3)"

definition compensate :: "s32 \<Rightarrow> s32 \<Rightarrow> s32 \<Rightarrow> s32 \<Rightarrow> s32" where
  "compensate t1 t2 t3 raw_temp =
     (let var1 = signed_drop_bit 11 ((signed_drop_bit 3 raw_temp - push_bit 1 t1) * t2);
          d = signed_drop_bit 4 raw_temp - t1;
          var2 = signed_drop_bit 14 (signed_drop_bit 12 (d * d) * t3)
      in signed_drop_bit 8 ((var1 + var2) * 5 + 128))"

definition read_temperature :: "kenv \<Rightarrow> s32 sensor_prog" where
  "read_temperature E = do {
     client \<leftarrow> gets bmp280_i2c_client;
     d1 \<leftarrow> i2c_smbus_read_byte_data E client 0xFA;
     d2 \<leftarrow> i2c_smbus_read_byte_data E client 0xFB;
     d3 \<leftarrow> i2c_smbus_read_byte_data E client 0xFC;
     t1 \<leftarrow> gets dig_T1;
     t2 \<leftarrow> gets dig_T2;
     t3 \<leftarrow> gets dig_T3;
     State_Monad.return (compensate t1 t2 t3
       (raw_value (word_of_int d1) (word_of_int d2) (word_of_int d3))) }"

section \<open>File operations\<close>

text \<open>
  \<^verbatim>\<open>snprintf(out_string, 20, "%d.%d\n", ...)\<close> writes at most 19 characters and the terminating zero.  The buffer is on
  the stack and not initialised: \<open>stack i\<close> is the byte that was \<open>i\<close> places behind its start before the call.
\<close>

definition temperature_text :: "s32 \<Rightarrow> string" where
  "temperature_text t = show_int (sint (c_div t 100)) @ ''.'' @ show_int (sint (c_mod t 100)) @ [CHR 0x0A]"

definition out_string :: "(nat \<Rightarrow> char) \<Rightarrow> s32 \<Rightarrow> nat \<Rightarrow> char" where
  "out_string stack t i = (let text = take 19 (temperature_text t) @ [CHR 0x00]
     in if i < length text then text ! i else stack i)"

text \<open>The bytes handed to \<^verbatim>\<open>copy_to_user\<close>, as many as the caller asked for, and the result.\<close>

definition k_driver_read :: "kenv \<Rightarrow> (nat \<Rightarrow> char) \<Rightarrow> nat \<Rightarrow> (char list \<times> int) sensor_prog" where
  "k_driver_read E stack count = do {
     temperature \<leftarrow> read_temperature E;
     _ \<leftarrow> copy_to_user E count;
     State_Monad.return (map (out_string stack temperature) [0..<count], int count) }"

definition k_driver_write :: "kenv \<Rightarrow> u8 list \<Rightarrow> int option sensor_prog" where
  "k_driver_write E buf = do {
     kb \<leftarrow> gets kernel_write_buffer;
     kb' \<leftarrow> copy_in E kb buf;
     (case kb' of
        None \<Rightarrow> State_Monad.return None
      | Some b \<Rightarrow> do {
          modify (\<lambda>s. s\<lparr>kernel_write_buffer := b\<rparr>);
          State_Monad.return (Some (int (length buf))) }) }"

definition k_driver_open :: "int sensor_prog" where
  "k_driver_open = State_Monad.return 0"

definition k_driver_close :: "int sensor_prog" where
  "k_driver_close = State_Monad.return 0"

section \<open>The sysfs attributes\<close>

datatype attribute = Notify | Trigger

definition attribute_of :: "attribute \<Rightarrow> sensor_state \<Rightarrow> temp_attr" where
  "attribute_of a s = (case a of Notify \<Rightarrow> notify s | Trigger \<Rightarrow> trigger s)"

definition set_value :: "attribute \<Rightarrow> s32 \<Rightarrow> sensor_state \<Rightarrow> sensor_state" where
  "set_value a v s = (case a of
       Notify \<Rightarrow> s\<lparr>notify := (notify s)\<lparr>attr_value := v\<rparr>\<rparr>
     | Trigger \<Rightarrow> s\<lparr>trigger := (trigger s)\<lparr>attr_value := v\<rparr>\<rparr>)"

text \<open>The kernel's \<^verbatim>\<open>sscanf(buf, "%d", &v)\<close>: spaces, a minus sign, decimal digits; \<open>None\<close> when there is no digit.\<close>

definition is_space :: "char \<Rightarrow> bool" where
  "is_space c \<longleftrightarrow> (of_char c :: nat) \<in> {9, 10, 11, 12, 13, 32, 160}"

definition scan_d :: "string \<Rightarrow> int option" where
  "scan_d buf = (let str = dropWhile is_space buf in
     case str of
       [] \<Rightarrow> None
     | c # rest \<Rightarrow>
         (if c = CHR ''-'' then
            (let ds = takeWhile is_digit rest in
             if ds = [] then None else Some (- int (digits_value ds)))
          else
            (let ds = takeWhile is_digit str in
             if ds = [] then None else Some (int (digits_value ds)))))"

definition show_attr :: "attribute \<Rightarrow> (string \<times> int) sensor_prog" where
  "show_attr a = do {
     da \<leftarrow> gets (attribute_of a);
     let text = show_int (sint (attr_value da)) @ [CHR 0x0A];
     State_Monad.return (text, int (length text)) }"

definition store :: "kenv \<Rightarrow> attribute \<Rightarrow> string \<Rightarrow> int sensor_prog" where
  "store E a buf = do {
     (case scan_d buf of
        Some v \<Rightarrow> modify (set_value a (word_of_int v))
      | None \<Rightarrow> State_Monad.return ());
     da \<leftarrow> gets (attribute_of a);
     kobj \<leftarrow> gets toy_kobj;
     (if attr_name da = ''notify'' then do {
        modify (set_value Notify (attr_value da));
        sysfs_notify E kobj ''notify'' }
      else if attr_name da = ''trigger'' then do {
        modify (set_value Trigger (attr_value da));
        sysfs_notify E kobj ''trigger'' }
      else State_Monad.return ());
     State_Monad.return 4 }"

section \<open>The periodic measurement\<close>

definition workqueue_fn :: "kenv \<Rightarrow> unit sensor_prog" where
  "workqueue_fn E = do {
     temperature \<leftarrow> read_temperature E;
     modify (set_value Notify temperature);
     kobj \<leftarrow> gets toy_kobj;
     sysfs_notify E kobj ''notify'' }"

definition HRTIMER_RESTART :: int where "HRTIMER_RESTART = 1"

definition sensor_timer_callback :: "kenv \<Rightarrow> int sensor_prog" where
  "sensor_timer_callback E = do {
     w \<leftarrow> gets k_workqueue;
     queue_work E w;
     hrtimer_forward_now E SENSOR_HRTIMER (int MAX_TIMEOUT_MSEC);
     State_Monad.return HRTIMER_RESTART }"

section \<open>Loading and unloading the module\<close>

definition cerror :: "kenv \<Rightarrow> int sensor_prog" where
  "cerror E = do { unregister_chrdev_region E; State_Monad.return (-1) }"

definition device_error :: "kenv \<Rightarrow> int sensor_prog" where
  "device_error E = do { c \<leftarrow> gets k_class; class_destroy E c; cerror E }"

definition reg_error :: "kenv \<Rightarrow> int sensor_prog" where
  "reg_error E = do { c \<leftarrow> gets k_class; device_destroy E c; device_error E }"

text \<open>From the calibration on: the sysfs object, the timer and the work queue.\<close>

definition start_measuring :: "kenv \<Rightarrow> int sensor_prog" where
  "start_measuring E = do {
     hrtimer_init E SENSOR_HRTIMER;
     hrtimer_set_function E SENSOR_HRTIMER;
     hrtimer_start E SENSOR_HRTIMER MAX_TIMEOUT_MSEC;
     w \<leftarrow> create_workqueue E ''k_wq'';
     modify (\<lambda>s. s\<lparr>k_workqueue := w\<rparr>);
     State_Monad.return 0 }"

definition calibrate :: "kenv \<Rightarrow> int sensor_prog" where
  "calibrate E = do {
     client \<leftarrow> gets bmp280_i2c_client;
     _ \<leftarrow> i2c_smbus_read_byte_data E client 0xD0;
     t1 \<leftarrow> i2c_smbus_read_word_data E client 0x88;
     modify (\<lambda>s. s\<lparr>dig_T1 := word_of_int t1\<rparr>);
     t2 \<leftarrow> i2c_smbus_read_word_data E client 0x8a;
     modify (\<lambda>s. s\<lparr>dig_T2 := word_of_int t2\<rparr>);
     t3 \<leftarrow> i2c_smbus_read_word_data E client 0x8c;
     modify (\<lambda>s. s\<lparr>dig_T3 := word_of_int t3\<rparr>);
     i2c_smbus_write_byte_data E client 0xf5 160;
     i2c_smbus_write_byte_data E client 0xf4 183;
     kobj \<leftarrow> kzalloc E;
     modify (\<lambda>s. s\<lparr>toy_kobj := kobj\<rparr>);
     if kobj \<noteq> 0 then do {
       kobject_init E kobj;
       failed \<leftarrow> kobject_add E kobj ''toy'';
       if failed \<noteq> 0 then do {
         kobject_put E kobj;
         modify (\<lambda>s. s\<lparr>toy_kobj := 0\<rparr>);
         reg_error E }
       else start_measuring E }
     else start_measuring E }"

text \<open>
  \<^verbatim>\<open>if((k_class = class_create(...) == NULL))\<close> stores the outcome of the comparison, so a class that
  was created leaves \<^verbatim>\<open>k_class\<close> at 0.
\<close>

definition k_module_init :: "kenv \<Rightarrow> int sensor_prog" where
  "k_module_init E = do {
     r \<leftarrow> alloc_chrdev_region E ''k_i2c_driver'';
     if r < 0 then State_Monad.return (-1) else do {
     c \<leftarrow> class_create E ''k_i2c_class'';
     modify (\<lambda>s. s\<lparr>k_class := (if c = 0 then 1 else 0)\<rparr>);
     cls \<leftarrow> gets k_class;
     if cls \<noteq> 0 then cerror E else do {
     d \<leftarrow> device_create E cls ''k_i2c_driver'';
     if d = 0 then device_error E else do {
     cdev_init E;
     a \<leftarrow> cdev_add E;
     if a = -1 then reg_error E else do {
     adapter \<leftarrow> i2c_get_adapter E I2C_BUS_AVAILABLE;
     modify (\<lambda>s. s\<lparr>bmp_i2c_adapter := adapter\<rparr>);
     if adapter \<noteq> 0 then do {
       client \<leftarrow> i2c_new_client_device E adapter;
       modify (\<lambda>s. s\<lparr>bmp280_i2c_client := client\<rparr>);
       if client \<noteq> 0 then do {
         failed \<leftarrow> i2c_add_driver E;
         if failed \<noteq> 0 then reg_error E
         else do { i2c_put_adapter E adapter; calibrate E } }
       else do { i2c_put_adapter E adapter; calibrate E } }
     else calibrate E }}}}}"

definition k_module_exit :: "kenv \<Rightarrow> unit sensor_prog" where
  "k_module_exit E = do {
     w \<leftarrow> gets k_workqueue;
     destroy_workqueue E w;
     _ \<leftarrow> hrtimer_cancel E SENSOR_HRTIMER;
     kobj \<leftarrow> gets toy_kobj;
     (if kobj \<noteq> 0 then do { kobject_put E kobj; kfree E kobj } else State_Monad.return ());
     client \<leftarrow> gets bmp280_i2c_client;
     i2c_unregister_device E client;
     i2c_del_driver E;
     cdev_del E;
     c \<leftarrow> gets k_class;
     device_destroy E c;
     class_destroy E c;
     unregister_chrdev_region E }"

section \<open>The arithmetic, on mathematical integers\<close>

definition raw_ref :: "int \<Rightarrow> int \<Rightarrow> int \<Rightarrow> int" where
  "raw_ref d1 d2 d3 = (d1 * 65536 + d2 * 256 + d3) div 16"

definition var1_ref :: "int \<Rightarrow> int \<Rightarrow> int \<Rightarrow> int" where
  "var1_ref t1 t2 raw = (raw div 8 - 2 * t1) * t2 div 2048"

definition square_ref :: "int \<Rightarrow> int \<Rightarrow> int" where
  "square_ref t1 raw = (raw div 16 - t1) * (raw div 16 - t1)"

definition var2_ref :: "int \<Rightarrow> int \<Rightarrow> int \<Rightarrow> int" where
  "var2_ref t1 t3 raw = square_ref t1 raw div 4096 * t3 div 16384"

definition compensate_ref :: "int \<Rightarrow> int \<Rightarrow> int \<Rightarrow> int \<Rightarrow> int" where
  "compensate_ref t1 t2 t3 raw = ((var1_ref t1 t2 raw + var2_ref t1 t3 raw) * 5 + 128) div 256"

definition in32 :: "int \<Rightarrow> bool" where
  "in32 k \<longleftrightarrow> - (2 ^ 31) \<le> k \<and> k < 2 ^ 31"

text \<open>The intermediate results that may leave the range of an int.\<close>

definition fits :: "int \<Rightarrow> int \<Rightarrow> int \<Rightarrow> int \<Rightarrow> bool" where
  "fits t1 t2 t3 raw \<longleftrightarrow> in32 ((raw div 8 - 2 * t1) * t2) \<and> in32 (square_ref t1 raw) \<and>
     in32 (square_ref t1 raw div 4096 * t3) \<and>
     in32 ((var1_ref t1 t2 raw + var2_ref t1 t3 raw) * 5) \<and>
     in32 ((var1_ref t1 t2 raw + var2_ref t1 t3 raw) * 5 + 128)"

lemma sint_in32: "in32 (sint (x :: s32))"
  using sint_range32 [of x] by (simp add: in32_def)

lemma byte_bits:
  assumes "0 \<le> d" "d < 256" "bit (word_of_int d :: s32) k"
  shows "k < 8"
proof -
  have "take_bit 8 d = d" using assms by (simp add: take_bit_int_eq_self)
  with assms(3) show ?thesis by (metis bit_take_bit_iff bit_word_of_int_iff)
qed

lemma raw_bits:
  assumes "0 \<le> d1" "d1 < 256" "0 \<le> d2" "d2 < 256" "0 \<le> d3" "d3 < 256"
  shows "push_bit 16 (word_of_int d1) OR push_bit 8 (word_of_int d2) OR (word_of_int d3 :: s32) =
    word_of_int (d1 * 65536 + d2 * 256 + d3)"
proof -
  let ?a = "push_bit 16 (word_of_int d1) :: s32" and ?b = "push_bit 8 (word_of_int d2) :: s32"
    and ?c = "word_of_int d3 :: s32"
  note small = byte_bits [OF assms(1,2)] byte_bits [OF assms(3,4)] byte_bits [OF assms(5,6)]
  have "?b AND ?c = 0"
    by (rule bit_eqI) (use small in \<open>fastforce simp: bit_simps\<close>)
  then have bc: "?b OR ?c = ?b + ?c" by (simp add: disjunctive_add_eq_or)
  have "?a AND (?b OR ?c) = 0"
    by (rule bit_eqI) (use small in \<open>fastforce simp: bit_simps\<close>)
  then have "?a OR (?b OR ?c) = ?a + (?b OR ?c)" by (simp add: disjunctive_add_eq_or)
  with bc show ?thesis by (simp add: push_bit_eq_mult)
qed

lemma raw_value_ok:
  assumes "0 \<le> d1" "d1 < 256" "0 \<le> d2" "d2 < 256" "0 \<le> d3" "d3 < 256"
  shows "sint (raw_value (word_of_int d1) (word_of_int d2) (word_of_int d3)) = raw_ref d1 d2 d3"
proof -
  have "sint (word_of_int (d1 * 65536 + d2 * 256 + d3) :: s32) = d1 * 65536 + d2 * 256 + d3"
    using assms by (intro sint_of_int32) auto
  then show ?thesis
    by (simp add: raw_value_def raw_bits [OF assms] sint_shr32 raw_ref_def)
qed

lemma raw_ref_range:
  assumes "0 \<le> d1" "d1 < 256" "0 \<le> d2" "d2 < 256" "0 \<le> d3" "d3 < 256"
  shows "0 \<le> raw_ref d1 d2 d3 \<and> raw_ref d1 d2 d3 < 2 ^ 20"
proof -
  have "0 \<le> d1 * 65536 + d2 * 256 + d3" "d1 * 65536 + d2 * 256 + d3 < 2 ^ 24"
    using assms by simp_all
  then show ?thesis unfolding raw_ref_def by (simp add: div_less_dividend) linarith
qed

lemma compensate_ok:
  assumes "0 \<le> sint t1" "sint t1 < 65536" "0 \<le> sint raw" "sint raw < 2 ^ 20"
    and "fits (sint t1) (sint t2) (sint t3) (sint raw)"
  shows "sint (compensate t1 t2 t3 raw) = compensate_ref (sint t1) (sint t2) (sint t3) (sint raw)"
proof -
  note f = assms(5) [unfolded fits_def in32_def]
  have p: "sint (push_bit 1 t1) = 2 * sint t1"
    using assms(1,2) sint_mult32 [of t1 2] by (simp add: push_bit_eq_mult)
  have "0 \<le> sint raw div 8" "sint raw div 8 < 2 ^ 17" "0 \<le> sint raw div 16" "sint raw div 16 < 2 ^ 16"
    using assms(3,4) by auto
  then have a: "sint (signed_drop_bit 3 raw - push_bit 1 t1) = sint raw div 8 - 2 * sint t1"
    and d: "sint (signed_drop_bit 4 raw - t1) = sint raw div 16 - sint t1"
    using assms(1,2) p by (simp_all add: sint_sub32 sint_shr32)
  have v1: "sint (signed_drop_bit 11 ((signed_drop_bit 3 raw - push_bit 1 t1) * t2)) =
      var1_ref (sint t1) (sint t2) (sint raw)"
    using f a by (simp add: sint_shr32 sint_mult32 var1_ref_def)
  let ?d = "signed_drop_bit 4 raw - t1"
  have sq: "sint (?d * ?d) = square_ref (sint t1) (sint raw)"
    using f d sint_mult32 [of ?d ?d] by (simp add: square_ref_def)
  have v2: "sint (signed_drop_bit 14 (signed_drop_bit 12 (?d * ?d) * t3)) =
      var2_ref (sint t1) (sint t3) (sint raw)"
    using f sq sint_mult32 [of "signed_drop_bit 12 (?d * ?d)" t3]
    by (simp add: sint_shr32 var2_ref_def)
  let ?v1 = "signed_drop_bit 11 ((signed_drop_bit 3 raw - push_bit 1 t1) * t2)"
  let ?v2 = "signed_drop_bit 14 (signed_drop_bit 12 (?d * ?d) * t3)"
  have "sint (?v1 + ?v2) = var1_ref (sint t1) (sint t2) (sint raw) + var2_ref (sint t1) (sint t3) (sint raw)"
    using f v1 v2 sint_add32 [of ?v1 ?v2] by simp
  then have "sint ((?v1 + ?v2) * 5) =
      (var1_ref (sint t1) (sint t2) (sint raw) + var2_ref (sint t1) (sint t3) (sint raw)) * 5"
    using f sint_mult32 [of "?v1 + ?v2" 5] by simp
  then have "sint ((?v1 + ?v2) * 5 + 128) =
      (var1_ref (sint t1) (sint t2) (sint raw) + var2_ref (sint t1) (sint t3) (sint raw)) * 5 + 128"
    using f sint_add32 [of "(?v1 + ?v2) * 5" 128] by simp
  then show ?thesis
    by (simp add: compensate_def compensate_ref_def Let_def sint_shr32)
qed

section \<open>The text interface\<close>

lemma digit_not_space: "is_digit c \<Longrightarrow> \<not> is_space c \<and> c \<noteq> CHR ''-''"
  by (auto simp: is_digit_def is_space_def)

lemma scan_show_int: "scan_d (show_int v @ CHR 0x0A # rest) = Some v"
proof -
  have nl: "\<not> is_digit (CHR 0x0A)" by (simp add: is_digit_def)
  have tw: "takeWhile is_digit (show_nat n @ CHR 0x0A # rest) = show_nat n" for n
    by (rule takeWhile_digits [OF show_nat_digits nl])
  obtain c ds where c: "show_nat (nat v) = c # ds" by (cases "show_nat (nat v)") auto
  then have "is_digit c" using show_nat_digits [of "nat v"] by simp
  then have d: "\<not> is_space c" "c \<noteq> CHR ''-''" using digit_not_space by auto
  show ?thesis
  proof (cases "v < 0")
    case True
    have "\<not> is_space (CHR ''-'')" by (simp add: is_space_def)
    with True tw [of "nat (- v)"] show ?thesis
      by (simp add: scan_d_def show_int_def show_nat_value Let_def)
  next
    case False
    have "scan_d (show_nat (nat v) @ CHR 0x0A # rest) =
        (let ds = takeWhile is_digit (show_nat (nat v) @ CHR 0x0A # rest) in
         if ds = [] then None else Some (int (digits_value ds)))"
      using d c by (simp add: scan_d_def Let_def)
    with False tw [of "nat v"] show ?thesis
      by (simp add: show_int_def show_nat_value Let_def)
  qed
qed

lemma store_value:
  assumes "scan_d buf = Some v" "attr_name (attribute_of a s) \<in> {''notify'', ''trigger''}"
    and "attr_name (notify s) = ''notify''" "attr_name (trigger s) = ''trigger''"
  shows "attr_value (attribute_of a (exec (store E a buf) s)) = word_of_int v"
  using assms
  by (cases a) (simp_all add: store_def set_value_def attribute_of_def exec_simps)

lemma show_nat_small: "n < 10 \<Longrightarrow> show_nat n = [char_of (48 + n)]"
  by (simp add: show_nat.simps)

lemma show_nat_two: "10 \<le> n \<Longrightarrow> n < 100 \<Longrightarrow> show_nat n = [char_of (48 + n div 10), char_of (48 + n mod 10)]"
  by (subst show_nat.simps) (simp add: show_nat_small)

lemma smod_pos:
  fixes k l :: int
  assumes "0 \<le> k" "0 < l"
  shows "k smod l = k mod l"
  using assms by (cases "k = 0") (simp_all add: signed_modulo_int_def)

lemma c_div_mod_100:
  assumes "0 \<le> sint t"
  shows "sint (c_div t 100) = sint t div 100" "sint (c_mod t 100) = sint t mod 100"
proof -
  have "sint t div 100 \<le> sint t" using assms by (simp add: zdiv_mono2 [of _ 1, simplified])
  then show "sint (c_div t 100) = sint t div 100"
    using assms sint_range32 [of t] sint_of_int32 [of "sint t div 100"]
    by (simp add: c_div_def sdiv_pos)
  show "sint (c_mod t 100) = sint t mod 100"
    using assms sint_of_int32 [of "sint t mod 100"] pos_mod_bound [of 100 "sint t"]
      pos_mod_sign [of 100 "sint t"]
    by (simp add: c_mod_def smod_pos)
qed

section \<open>Events, loading and unloading\<close>

datatype sensor_event =
  Tick | Work | Read "nat \<Rightarrow> char" nat | Write "u8 list" | Show attribute | Store attribute string

definition sensor_step :: "kenv \<Rightarrow> sensor_event \<Rightarrow> sensor_state \<Rightarrow> sensor_state option" where
  "sensor_step E e s = (case e of
       Tick \<Rightarrow> if SENSOR_HRTIMER \<in> armed (trace s) then Some (exec (sensor_timer_callback E) s) else None
     | Work \<Rightarrow> Some (exec (workqueue_fn E) s)
     | Read stack n \<Rightarrow> Some (exec (k_driver_read E stack n) s)
     | Write buf \<Rightarrow> (case run_state (k_driver_write E buf) s of (None, _) \<Rightarrow> None | (Some _, s') \<Rightarrow> Some s')
     | Show a \<Rightarrow> Some (exec (show_attr a) s)
     | Store a buf \<Rightarrow> Some (exec (store E a buf) s))"

definition module_resources :: "resource set" where
  "module_resources = {RChrdev, RClass, RCdev, RI2cClient, RI2cDriver, RKmem, RKobject, RWorkqueue}"

definition loaded :: "sensor_state \<Rightarrow> bool" where
  "loaded s \<longleftrightarrow> held (trace s) \<subseteq> module_resources \<and> armed (trace s) \<subseteq> {SENSOR_HRTIMER} \<and>
     k_class s = 0 \<and> (RI2cClient \<in> held (trace s) \<longrightarrow> 0 < bmp280_i2c_client s) \<and>
     (RKmem \<in> held (trace s) \<longrightarrow> 0 < toy_kobj s) \<and> (RKobject \<in> held (trace s) \<longrightarrow> toy_kobj s \<noteq> 0)"

lemmas sensor_error_exits = cerror_def device_error_def reg_error_def

text \<open>The state between the two halves of \<^verbatim>\<open>k_module_init\<close>.\<close>

definition bus_ready :: "sensor_state \<Rightarrow> bool" where
  "bus_ready s \<longleftrightarrow> held (trace s) \<subseteq> {RChrdev, RClass, RCdev, RI2cClient, RI2cDriver} \<and>
     armed (trace s) = {} \<and> k_class s = 0 \<and>
     (RI2cClient \<in> held (trace s) \<longrightarrow> 0 < bmp280_i2c_client s)"

lemma wp_start_measuring:
  assumes "held (trace s) \<subseteq> module_resources" "armed (trace s) = {}" "k_class s = 0"
    "RI2cClient \<in> held (trace s) \<longrightarrow> 0 < bmp280_i2c_client s"
    "RKmem \<in> held (trace s) \<longrightarrow> 0 < toy_kobj s" "RKobject \<in> held (trace s) \<longrightarrow> toy_kobj s \<noteq> 0"
  shows "wp (start_measuring E) (\<lambda>r s'. r = 0 \<longrightarrow> loaded s') s"
  unfolding start_measuring_def
  by (intro wp_intros) (use assms in \<open>auto simp: loaded_def module_resources_def\<close>)

lemma wp_reg_error: "wp (reg_error E) (\<lambda>r s'. r = 0 \<longrightarrow> Q s') s"
  unfolding sensor_error_exits by (intro wp_intros) simp

lemma wp_calibrate:
  assumes "bus_ready s"
  shows "wp (calibrate E) (\<lambda>r s'. r = 0 \<longrightarrow> loaded s') s"
  unfolding calibrate_def
  by (intro wp_intros wp_start_measuring wp_reg_error)
    (use assms in \<open>auto simp: bus_ready_def module_resources_def split: if_splits\<close>)

lemma wp_sensor_init_loaded:
  assumes "clean s"
  shows "wp (k_module_init E) (\<lambda>r s'. r = 0 \<longrightarrow> loaded s') s"
  unfolding k_module_init_def cerror_def device_error_def
  by (intro wp_intros wp_calibrate wp_reg_error)
    (use assms in \<open>auto simp: bus_ready_def clean_def split: if_splits\<close>)

lemma wp_sensor_exit:
  assumes "loaded s"
  shows "wp (k_module_exit E) (\<lambda>_ s'. held (trace s') \<subseteq> {RClass} \<and> armed (trace s') = {} \<and>
    (RClass \<in> held (trace s) \<longrightarrow> RClass \<in> held (trace s'))) s"
  unfolding k_module_exit_def
  by (intro wp_intros) (use assms in \<open>auto simp: loaded_def module_resources_def\<close>)

text \<open>The handlers acquire nothing and arm no timer.\<close>

definition sensor_calls :: "kcall set" where
  "sensor_calls = range Task \<union> range (\<lambda>(c, r). I2c (I2cSmbusReadByteData c r)) \<union>
     range (\<lambda>(k, n). Kobj (SysfsNotify k n)) \<union> range (\<lambda>w. Kobj (QueueWork w)) \<union>
     range (\<lambda>(t, d). Timer (HrtimerForwardNow t d))"

lemma sensor_callsI [simp]:
  "Task c \<in> sensor_calls" "I2c (I2cSmbusReadByteData a r) \<in> sensor_calls"
  "Kobj (SysfsNotify k n) \<in> sensor_calls" "Kobj (QueueWork w) \<in> sensor_calls"
  "Timer (HrtimerForwardNow t d) \<in> sensor_calls"
  by (auto simp: sensor_calls_def)

lemma sensor_calls_keep:
  assumes "emits sensor_calls m"
  shows "held (trace (exec m s)) = held (trace s)" "armed (trace (exec m s)) = armed (trace s)"
  using assms by (auto intro!: emits_held [of sensor_calls] emits_armed [of sensor_calls]
      simp: sensor_calls_def)

lemma emits_read_temperature [emits_intros]: "emits sensor_calls (read_temperature E)"
  unfolding read_temperature_def by (intro emits_intros; simp)

lemma trace_set_value [simp]: "trace (set_value a v s) = trace s"
  by (cases a) (simp_all add: set_value_def)

lemma emits_sensor:
  "emits sensor_calls (sensor_timer_callback E)" "emits sensor_calls (workqueue_fn E)"
  "emits sensor_calls (k_driver_read E stack n)" "emits sensor_calls (show_attr a)"
  unfolding sensor_timer_callback_def workqueue_fn_def k_driver_read_def show_attr_def Let_def
  by (intro emits_intros; simp)+

lemma emits_sensor_write: "emits sensor_calls (k_driver_write E buf)"
proof -
  have "emits sensor_calls (case kb' of None \<Rightarrow> State_Monad.return None
      | Some b \<Rightarrow> do { modify (\<lambda>s. s\<lparr>kernel_write_buffer := b\<rparr>);
          State_Monad.return (Some (int (length buf))) })" for kb'
    by (cases kb') (auto intro!: emits_intros)
  then show ?thesis
    unfolding k_driver_write_def copy_in_def by (intro emits_intros) simp_all
qed

lemma emits_store: "emits sensor_calls (store E a buf)"
  unfolding store_def by (cases "scan_d buf") (simp_all, (intro emits_intros; simp)+)

definition fixed_part :: "sensor_state \<Rightarrow> (int \<times> int \<times> int) \<times> s32 \<times> s32 \<times> s32" where
  "fixed_part s = ((k_class s, bmp280_i2c_client s, toy_kobj s), dig_T1 s, dig_T2 s, dig_T3 s)"

lemma set_value_fixed [simp]: "fixed_part (set_value a v s) = fixed_part s"
  by (cases a) (simp_all add: set_value_def fixed_part_def)

lemma fixed_trace [simp]: "fixed_part (s\<lparr>trace := t\<rparr>) = fixed_part s"
  "fixed_part (s\<lparr>kernel_write_buffer := b\<rparr>) = fixed_part s"
  by (simp_all add: fixed_part_def)

lemma handlers_fixed:
  "fixed_part (exec (sensor_timer_callback E) s) = fixed_part s"
  "fixed_part (exec (workqueue_fn E) s) = fixed_part s"
  "fixed_part (exec (k_driver_read E stack n) s) = fixed_part s"
  "fixed_part (exec (show_attr a) s) = fixed_part s"
  "fixed_part (exec (k_driver_write E buf) s) = fixed_part s"
  "fixed_part (exec (store E a txt) s) = fixed_part s"
  by (auto simp: sensor_timer_callback_def workqueue_fn_def read_temperature_def k_driver_read_def
      show_attr_def k_driver_write_def copy_in_def store_def exec_simps Let_def
      split: option.splits)

lemma loaded_cong:
  assumes "emits sensor_calls m" "fixed_part (exec m s) = fixed_part s" "loaded s"
  shows "loaded (exec m s)"
  using assms(2,3) sensor_calls_keep [OF assms(1), of s] by (simp add: loaded_def fixed_part_def)

lemmas loaded_after =
  loaded_cong [OF emits_sensor(1) handlers_fixed(1)] loaded_cong [OF emits_sensor(2) handlers_fixed(2)]
  loaded_cong [OF emits_sensor(3) handlers_fixed(3)] loaded_cong [OF emits_sensor(4) handlers_fixed(4)]
  loaded_cong [OF emits_sensor_write handlers_fixed(5)] loaded_cong [OF emits_store handlers_fixed(6)]

lemma sensor_step_runs:
  assumes "sensor_step E e s = Some s'"
  shows "s' = (case e of Tick \<Rightarrow> exec (sensor_timer_callback E) s | Work \<Rightarrow> exec (workqueue_fn E) s
    | Read stack n \<Rightarrow> exec (k_driver_read E stack n) s | Write buf \<Rightarrow> exec (k_driver_write E buf) s
    | Show a \<Rightarrow> exec (show_attr a) s | Store a buf \<Rightarrow> exec (store E a buf) s)"
  using assms
  by (cases e) (auto simp: sensor_step_def split: if_splits prod.splits option.splits)

lemma sensor_step_loaded:
  assumes "loaded s" "sensor_step E e s = Some s'"
  shows "loaded s'"
  using loaded_after [where s = s] assms(1) sensor_step_runs [OF assms(2)]
  by (cases e) simp_all

interpretation module: module_session "k_module_init E" "k_module_exit E" "sensor_step E" loaded
  "{RClass}" for E
proof (unfold_locales, goal_cases)
  case (1 s)
  then show ?case using wp_sensor_init_loaded [of s E] by (simp add: wp_def)
next
  case (2 s e s')
  then show ?case by (rule sensor_step_loaded)
next
  case (3 s)
  then show ?case using wp_sensor_exit [of s E] by (simp add: wp_def)
qed

section \<open>Properties\<close>

text \<open>
  A sensor whose registers do not change: every byte read of register \<open>r\<close> answers \<open>bytes r\<close>, every
  word read \<open>words r\<close>.  The kernel answers a word read with an unsigned 16 bit number.
\<close>

definition chip :: "kenv \<Rightarrow> (nat \<Rightarrow> int) \<Rightarrow> (nat \<Rightarrow> int) \<Rightarrow> bool" where
  "chip E bytes words \<longleftrightarrow> (\<forall>h c r. E h (I2c (I2cSmbusReadByteData c r)) = bytes r \<and>
     E h (I2c (I2cSmbusReadWordData c r)) = words r) \<and>
     (\<forall>r. 0 \<le> bytes r \<and> bytes r < 256) \<and> (\<forall>r. 0 \<le> words r \<and> words r < 65536)"

definition calibrated :: "(nat \<Rightarrow> int) \<Rightarrow> sensor_state \<Rightarrow> bool" where
  "calibrated words s \<longleftrightarrow> dig_T1 s = word_of_int (words 0x88) \<and> dig_T2 s = word_of_int (words 0x8a) \<and>
     dig_T3 s = word_of_int (words 0x8c)"

lemma chip_answers: "chip E bytes words \<Longrightarrow> answers E (I2c (I2cSmbusReadWordData c r)) = {words r}"
  by (auto simp: chip_def answers_def)

lemmas wp_with_answers =
  wp_bind wp_return wp_gets wp_modify wp_invoke_answers wp_perform wp_if

lemma wp_calibrate_values:
  assumes "chip E bytes words"
  shows "wp (calibrate E) (\<lambda>r s'. r = 0 \<longrightarrow> calibrated words s') s"
  unfolding calibrate_def start_measuring_def
  by (intro wp_with_answers wp_reg_error) (simp_all add: calibrated_def chip_answers [OF assms])

lemma wp_init_calibrated:
  assumes "chip E bytes words"
  shows "wp (k_module_init E) (\<lambda>r s'. r = 0 \<longrightarrow> calibrated words s') s"
  unfolding k_module_init_def cerror_def device_error_def
  by (intro wp_intros wp_calibrate_values [OF assms] wp_reg_error) simp_all

lemma step_fixed:
  assumes "sensor_step E e s = Some s'"
  shows "fixed_part s' = fixed_part s"
  using handlers_fixed [where s = s] sensor_step_runs [OF assms] by (cases e) simp_all

interpretation cal: kept_by "sensor_step E" "calibrated words" "\<lambda>_. True" for E words
  by unfold_locales (auto simp: calibrated_def fixed_part_def dest!: step_fixed)

lemma session_calibrated:
  assumes "chip E bytes words" "result (k_module_init E) s0 = 0"
    and "run_events (sensor_step E) es (exec (k_module_init E) s0) = Some s"
  shows "calibrated words s"
proof -
  have "calibrated words (exec (k_module_init E) s0)"
    using wp_init_calibrated [OF assms(1), of s0] assms(2) by (simp add: wp_def)
  from cal.run_keeps [OF this _ assms(3)] show ?thesis by (simp add: list_all_iff)
qed

lemma read_temperature_chip:
  assumes "chip E bytes words"
  shows "result (read_temperature E) s = compensate (dig_T1 s) (dig_T2 s) (dig_T3 s)
    (raw_value (word_of_int (bytes 0xFA)) (word_of_int (bytes 0xFB)) (word_of_int (bytes 0xFC)))"
  using assms by (simp add: read_temperature_def exec_simps chip_def)

text \<open>
  C22.  The temperature: once the module was loaded, and however it was used since, a measurement
  returns the value of the compensation formula on mathematical integers, with the calibration words
  taken as unsigned numbers, as long as no intermediate product leaves the range of an int.
\<close>

theorem sensor_temperature_exact:
  assumes "chip E bytes words" "result (k_module_init E) s0 = 0"
    and "run_events (sensor_step E) es (exec (k_module_init E) s0) = Some s"
    and "fits (words 0x88) (words 0x8a) (words 0x8c) (raw_ref (bytes 0xFA) (bytes 0xFB) (bytes 0xFC))"
  shows "sint (result (read_temperature E) s) =
    compensate_ref (words 0x88) (words 0x8a) (words 0x8c) (raw_ref (bytes 0xFA) (bytes 0xFB) (bytes 0xFC))"
proof -
  have b: "0 \<le> bytes r" "bytes r < 256" and w: "0 \<le> words r" "words r < 65536" for r
    using assms(1) by (auto simp: chip_def)
  have sw: "sint (word_of_int (words r) :: s32) = words r" for r
    using w [of r] by (intro sint_of_int32) auto
  note raw = raw_value_ok [OF b b b] and range = raw_ref_range [OF b b b]
  have cal: "calibrated words s" by (rule session_calibrated [OF assms(1-3)])
  show ?thesis
    using compensate_ok [of "dig_T1 s" "raw_value (word_of_int (bytes 0xFA)) (word_of_int (bytes 0xFB))
        (word_of_int (bytes 0xFC))" "dig_T2 s" "dig_T3 s"] cal w range assms(4)
    by (simp add: read_temperature_chip [OF assms(1)] calibrated_def sw raw)
qed

text \<open>
  The example of the sensor's data sheet: raw value 519888, calibration words 27504, 26435 and
  64536.  The last stands for -1000 on the chip, where these words are signed.
\<close>

definition example_bytes :: "nat \<Rightarrow> int" where
  "example_bytes r = (if r = 0xFA then 0x7E else if r = 0xFB then 0xED else 0)"

definition example_words :: "nat \<Rightarrow> int" where
  "example_words r = (if r = 0x88 then 27504 else if r = 0x8a then 26435 else if r = 0x8c then 64536 else 0)"

definition example_chip :: kenv where
  "example_chip h c = (case c of
       I2c (I2cSmbusReadByteData _ r) \<Rightarrow> example_bytes r
     | I2c (I2cSmbusReadWordData _ r) \<Rightarrow> example_words r
     | _ \<Rightarrow> obliging h c)"

lemma example_chip_simps [simp]:
  "example_chip h (I2c (I2cSmbusReadByteData a r)) = example_bytes r"
  "example_chip h (I2c (I2cSmbusReadWordData a r)) = example_words r"
  "example_chip h (Module m) = obliging h (Module m)" "example_chip h (Gpio g) = 0"
  "example_chip h (Timer t) = 0" "example_chip h (Task u) = obliging h (Task u)"
  "example_chip h (Kobj k) = obliging h (Kobj k)" "example_chip h (I2c (I2cGetAdapter i)) = 1"
  "example_chip h (I2c (I2cPutAdapter a)) = 0" "example_chip h (I2c (I2cNewClientDevice a)) = 1"
  "example_chip h (I2c I2cAddDriver) = 0" "example_chip h (I2c (I2cSmbusWriteByteData a i j)) = 0"
  by (simp_all add: example_chip_def)

lemma example_is_chip: "chip example_chip example_bytes example_words"
  by (simp add: chip_def example_bytes_def example_words_def)

lemma sensor_demo_boot:
  "result (k_module_init example_chip) sensor_initial = 0"
  "SENSOR_HRTIMER \<in> armed (trace (exec (k_module_init example_chip) sensor_initial))"
  "RClass \<in> held (trace (exec (k_module_init example_chip) sensor_initial))"
  by (simp_all add: k_module_init_def calibrate_def start_measuring_def exec_simps sensor_initial_def
      armed_def held_def)

lemma example_values:
  "raw_ref (example_bytes 0xFA) (example_bytes 0xFB) (example_bytes 0xFC) = 519888"
  "compensate_ref 27504 26435 64536 519888 = 2983" "compensate_ref 27504 26435 (- 1000) 519888 = 2508"
  by (simp_all add: raw_ref_def example_bytes_def compensate_ref_def var1_ref_def var2_ref_def square_ref_def)

theorem sensor_temperature_exact_witness:
  "sint (result (read_temperature example_chip) (exec (k_module_init example_chip) sensor_initial)) = 2983"
proof -
  have "fits 27504 26435 64536 519888"
    by (simp add: fits_def in32_def var1_ref_def var2_ref_def square_ref_def)
  then show ?thesis
    using sensor_temperature_exact [OF example_is_chip sensor_demo_boot(1), of "[]"] example_values
    by (simp add: example_words_def)
qed

text \<open>
  The calibration words reach the formula as numbers from 0 to 65535: none of the three is ever
  negative, although the chip's second and third word are signed.  On the data sheet's example the
  driver therefore measures 29.83 degrees; the formula with the signed word gives 25.08.
\<close>

theorem sensor_calibration_unsigned:
  assumes "chip E bytes words" "result (k_module_init E) s0 = 0"
    and "run_events (sensor_step E) es (exec (k_module_init E) s0) = Some s"
  shows "(\<forall>t \<in> {dig_T1 s, dig_T2 s, dig_T3 s}. 0 \<le> sint t \<and> sint t < 65536) \<and>
    compensate_ref 27504 26435 64536 519888 = 2983 \<and> compensate_ref 27504 26435 (- 1000) 519888 = 2508"
proof -
  have w: "0 \<le> words r \<and> words r < 65536" for r
    using assms(1) by (auto simp: chip_def)
  have "sint (word_of_int (words r) :: s32) = words r" for r
    using w [of r] by (intro sint_of_int32) auto
  then show ?thesis
    using session_calibrated [OF assms] w example_values by (simp add: calibrated_def)
qed

theorem sensor_calibration_unsigned_witness:
  "0 \<le> sint (dig_T3 (exec (k_module_init example_chip) sensor_initial))"
  using sensor_calibration_unsigned [OF example_is_chip sensor_demo_boot(1), of "[]"] by simp

text \<open>
  The text of a temperature that is not negative: the whole degrees, a point, and the hundredths
  without a leading zero, so below ten hundredths only one digit follows the point.
\<close>

theorem sensor_text_format:
  assumes "0 \<le> sint t"
  shows "temperature_text t = show_int (sint t div 100) @ ''.'' @
    (if sint t mod 100 < 10 then [char_of (48 + nat (sint t mod 100))]
     else [char_of (48 + nat (sint t mod 100) div 10), char_of (48 + nat (sint t mod 100) mod 10)]) @
    [CHR 0x0A]"
proof -
  have m: "0 \<le> sint t mod 100" "sint t mod 100 < 100" by simp_all
  then have "\<not> sint t mod 100 < 10 \<Longrightarrow> 10 \<le> nat (sint t mod 100) \<and> nat (sint t mod 100) < 100" by linarith
  with m show ?thesis
    by (simp add: temperature_text_def c_div_mod_100 [OF assms] show_int_def show_nat_small show_nat_two)
qed

theorem sensor_text_format_witness:
  "temperature_text 2505 = ''25.5'' @ [CHR 0x0A]"
  using sensor_text_format [of 2505] by (simp add: show_int_def show_nat.simps char_of_eq_iff take_bit_eq_mod)

text \<open>The number of characters of a temperature.\<close>

lemma length_show_nat: "n < 10 ^ k \<Longrightarrow> 0 < k \<Longrightarrow> length (show_nat n) \<le> k"
proof (induction k arbitrary: n)
  case (Suc k)
  show ?case
  proof (cases "n < 10")
    case False
    then have "0 < k" using Suc.prems(1) by (cases k) simp_all
    moreover have "n div 10 < 10 ^ k" using Suc.prems(1) by (simp add: less_mult_imp_div_less mult.commute)
    ultimately have "length (show_nat (n div 10)) \<le> k" by (rule Suc.IH [rotated])
    with False show ?thesis by (subst show_nat.simps) simp
  qed (subst show_nat.simps, simp)
qed simp

lemma length_show_int:
  assumes "\<bar>v\<bar> < 10 ^ k" "0 < k"
  shows "length (show_int v) \<le> Suc k"
proof -
  have "nat \<bar>v\<bar> < 10 ^ k" using assms(1) by (simp add: nat_less_iff)
  with assms(2) have "length (show_nat (nat \<bar>v\<bar>)) \<le> k" by (intro length_show_nat)
  then show ?thesis by (simp add: show_int_def abs_if split: if_splits)
qed

lemma c_div_mod_range: "\<bar>sint (c_div t 100)\<bar> < 10 ^ 8" "\<bar>sint (c_mod t 100)\<bar> < 10 ^ 2"
proof -
  have t: "- (2 ^ 31) \<le> sint t" "sint t < 2 ^ 31" using sint_range32 [of t] by auto
  have d: "\<bar>sint t sdiv 100\<bar> \<le> 21474836" "\<bar>sint t smod 100\<bar> < 100"
    using t minus_sdiv_mult_eq_smod [of "sint t" 100, symmetric]
    by (cases "0 \<le> sint t"; simp add: sdiv_pos sdiv_neg abs_le_iff; linarith)+
  have "sint (c_div t 100) = sint t sdiv 100" "sint (c_mod t 100) = sint t smod 100"
    using d by (simp_all add: c_div_def c_mod_def sint_of_int32 abs_le_iff abs_less_iff)
  with d show "\<bar>sint (c_div t 100)\<bar> < 10 ^ 8" "\<bar>sint (c_mod t 100)\<bar> < 10 ^ 2" by simp_all
qed

lemma length_temperature_text: "length (temperature_text t) \<le> 14"
  using length_show_int [OF c_div_mod_range(1) [of t]] length_show_int [OF c_div_mod_range(2) [of t]]
  by (simp add: temperature_text_def)


definition named :: "sensor_state \<Rightarrow> bool" where
  "named s \<longleftrightarrow> attr_name (notify s) = ''notify'' \<and> attr_name (trigger s) = ''trigger''"

lemma set_value_named [simp]: "named (set_value a v s) = named s"
  by (cases a) (simp_all add: set_value_def named_def)

lemma named_trace [simp]: "named (s\<lparr>trace := t\<rparr>) = named s"
  "named (s\<lparr>kernel_write_buffer := b\<rparr>) = named s"
  by (simp_all add: named_def)

lemma handlers_named:
  "named (exec (sensor_timer_callback E) s) = named s"
  "named (exec (workqueue_fn E) s) = named s"
  "named (exec (k_driver_read E stack n) s) = named s"
  "named (exec (show_attr a) s) = named s"
  "named (exec (k_driver_write E buf) s) = named s"
  "named (exec (store E a txt) s) = named s"
  by (auto simp: sensor_timer_callback_def workqueue_fn_def read_temperature_def k_driver_read_def
      show_attr_def k_driver_write_def copy_in_def store_def exec_simps Let_def
      split: option.splits)

interpretation names: kept_by "sensor_step E" named "\<lambda>_. True" for E
proof (unfold_locales, goal_cases)
  case (1 s e s')
  then show ?case
    using handlers_named [where s = s] sensor_step_runs [OF 1(3)] by (cases e) simp_all
qed

lemma wp_init_named: "named s \<Longrightarrow> wp (k_module_init E) (\<lambda>_. named) s"
  unfolding k_module_init_def calibrate_def start_measuring_def sensor_error_exits
  by (intro wp_intros) (simp_all add: named_def)

text \<open>
  The sysfs attributes: at any time after loading, a decimal number written to an attribute and
  read back gives the same text, the other attribute keeps its value, and \<^verbatim>\<open>store\<close> answers that it
  took four bytes however many it was given.
\<close>

theorem sensor_store_show:
  assumes "run_events (sensor_step E) es (exec (k_module_init E) sensor_initial) = Some s" "in32 v"
  shows "let s' = exec (store E a (show_int v @ [CHR 0x0A])) s in
    fst (result (show_attr a) s') = show_int v @ [CHR 0x0A] \<and>
    (\<forall>b. b \<noteq> a \<longrightarrow> attribute_of b s' = attribute_of b s) \<and>
    result (store E a (show_int v @ [CHR 0x0A])) s = 4"
proof -
  have "named (exec (k_module_init E) sensor_initial)"
    using wp_init_named [of sensor_initial E] by (simp add: wp_def named_def sensor_initial_def)
  from names.run_keeps [OF this _ assms(1)] have n: "named s" by (simp add: list_all_iff)
  let ?t = "show_int v @ [CHR 0x0A]"
  have "attr_name (attribute_of a s) \<in> {''notify'', ''trigger''}"
    using n by (cases a) (simp_all add: named_def attribute_of_def)
  then have "attr_value (attribute_of a (exec (store E a ?t) s)) = word_of_int v"
    using n scan_show_int [of v "[]"] by (intro store_value) (simp_all add: named_def)
  moreover have "sint (word_of_int v :: s32) = v"
    using assms(2) by (simp add: in32_def sint_of_int32)
  moreover have "b \<noteq> a \<Longrightarrow> attribute_of b (exec (store E a ?t) s) = attribute_of b s" for b
    using n scan_show_int [of v "[]"]
    by (cases a; cases b)
      (simp_all add: store_def set_value_def attribute_of_def exec_simps named_def)
  moreover have "result (store E a ?t) s = 4"
    by (simp add: store_def exec_simps)
  ultimately show ?thesis
    by (simp add: Let_def show_attr_def exec_simps)
qed

theorem sensor_store_show_witness:
  "fst (result (show_attr Trigger) (exec (store example_chip Trigger (show_int (- 42) @ [CHR 0x0A]))
     (exec (k_module_init example_chip) sensor_initial))) = show_int (- 42) @ [CHR 0x0A]"
  using sensor_store_show [of example_chip "[]" "exec (k_module_init example_chip) sensor_initial"
      "- 42" Trigger]
  by (simp add: in32_def Let_def)

interpretation class_kept: kept_by "sensor_step E" "\<lambda>s. RClass \<in> held (trace s)" "\<lambda>_. True" for E
proof (unfold_locales, goal_cases)
  case (1 s e s')
  then show ?case
    using sensor_step_runs [OF 1(3)] emits_sensor [THEN sensor_calls_keep(1)]
      emits_sensor_write [THEN sensor_calls_keep(1)] emits_store [THEN sensor_calls_keep(1)]
    by (cases e) simp_all
qed

text \<open>
  A session: after loading, any use and unloading, everything is given back and the timer is off,
  except the device class: once created it is never destroyed, because \<^verbatim>\<open>k_class\<close> holds the outcome
  of a comparison and not the class.
\<close>

theorem sensor_session_leaks_class:
  assumes "clean s" "result (k_module_init E) s = 0"
    and "run_events (sensor_step E) es (exec (k_module_init E) s) = Some s'"
    and "RClass \<in> held (trace (exec (k_module_init E) s))"
  shows "held (trace (exec (k_module_exit E) s')) = {RClass} \<and>
    armed (trace (exec (k_module_exit E) s')) = {}"
proof -
  have "RClass \<in> held (trace s')"
    using class_kept.run_keeps [OF assms(4) _ assms(3)] by (simp add: list_all_iff)
  then show ?thesis
    using wp_sensor_exit [OF module.session_loaded [OF assms(1-3)], of E] by (auto simp: wp_def)
qed

theorem sensor_session_leaks_class_witness:
  "held (trace (exec (k_module_exit example_chip) (exec (k_module_init example_chip) sensor_initial))) =
     {RClass}"
proof -
  have "clean sensor_initial" by (simp add: clean_def sensor_initial_def)
  from sensor_session_leaks_class [OF this sensor_demo_boot(1) _ sensor_demo_boot(3), of "[]"]
  show ?thesis by simp
qed

text \<open>
  Unloading destroys the work queue before it stops the timer: there is a moment at which the
  queue is gone and the timer that feeds it is still armed.
\<close>

theorem sensor_exit_race:
  assumes "SENSOR_HRTIMER \<in> armed (trace s)"
  shows "\<exists>before after. trace (exec (k_module_exit E) s) = trace s @ before @ after \<and>
    RWorkqueue \<notin> held (trace s @ before) \<and> SENSOR_HRTIMER \<in> armed (trace s @ before)"
proof -
  let ?d = "Kobj (DestroyWorkqueue (k_workqueue s))"
  let ?s = "s\<lparr>trace := trace s @ [(?d, E (trace s) ?d)]\<rparr>"
  obtain rest :: "unit sensor_prog"
    where rest: "exec (k_module_exit E) s = exec rest ?s" and "emits UNIV rest"
  proof -
    let ?rest = "do {
       _ \<leftarrow> hrtimer_cancel E SENSOR_HRTIMER;
       kobj \<leftarrow> gets toy_kobj;
       (if kobj \<noteq> 0 then do { kobject_put E kobj; kfree E kobj } else State_Monad.return ());
       client \<leftarrow> gets bmp280_i2c_client;
       i2c_unregister_device E client;
       i2c_del_driver E;
       cdev_del E;
       c \<leftarrow> gets k_class;
       device_destroy E c;
       class_destroy E c;
       unregister_chrdev_region E } :: unit sensor_prog"
    have "exec (k_module_exit E) s = exec ?rest ?s"
      unfolding k_module_exit_def by (subst exec_bind, subst exec_bind) (simp only: run_gets run_perform fst_conv snd_conv)
    moreover have "emits UNIV ?rest" by (intro emits_intros) simp_all
    ultimately show ?thesis by (rule that)
  qed
  then obtain cs where "trace (exec (k_module_exit E) s) = trace ?s @ cs"
    by (metis emits_def)
  then show ?thesis
    using assms by (intro exI [of _ "[(?d, E (trace s) ?d)]"] exI [of _ cs]) simp
qed

theorem sensor_exit_race_witness:
  "\<exists>before. RWorkqueue \<notin> held (trace (exec (k_module_init example_chip) sensor_initial) @ before) \<and>
     SENSOR_HRTIMER \<in> armed (trace (exec (k_module_init example_chip) sensor_initial) @ before)"
  using sensor_exit_race [OF sensor_demo_boot(2), of example_chip] by blast

definition no_bus :: kenv where
  "no_bus h c = (if c = I2c (I2cGetAdapter I2C_BUS_AVAILABLE) then 0 else obliging h c)"

text \<open>
  Without an I2C bus loading goes on to read the sensor through a null client: the missing
  adapter is noticed and then ignored.
\<close>

theorem sensor_null_client:
  "\<exists>r. (I2c (I2cSmbusReadByteData 0 0xD0), r) \<in> set (trace (exec (k_module_init no_bus) sensor_initial)) \<and>
     result (k_module_init no_bus) sensor_initial = 0"
  by (simp add: k_module_init_def calibrate_def start_measuring_def exec_simps sensor_initial_def
      no_bus_def)

end
