(* ===== verification/User_Calls.thy ===== *)
theory User_Calls
  imports Toy_Prelude
begin

text \<open>
  The operating system interface the user space programs of the repository call.  As for the kernel
  interface, every call and its answer is kept in the trace and the answers are the parameter \<open>E\<close>;
  what a call hands over besides its result (a line of the terminal, the payload of a message, the
  contents of a file) is an argument of the function that uses it.  Terminal output is not recorded.
\<close>

section \<open>Messages\<close>

text \<open>\<^verbatim>\<open>toy_msg_t\<close> of \<^verbatim>\<open>src/toy_message.h\<close>, without the pointer no program reads.\<close>

record toy_msg_t =
  msg_type :: u32
  param1 :: u32
  param2 :: u32

definition MESSAGE_ID_EXIT :: u32 where "MESSAGE_ID_EXIT = 0"
definition MESSAGE_ID_INFO :: u32 where "MESSAGE_ID_INFO = 1"
definition MESSAGE_ID_ENGINE :: u32 where "MESSAGE_ID_ENGINE = 2"

text \<open>
  \<^verbatim>\<open>robot_message_t\<close>: the identifier and the words of the union that the programs use; the first word
  is the identifier of a robot or of a motor, the second the speed of a motor, the last, at offset
  36, the temperature.  The bytes in between are not set by the senders.
\<close>

record robot_message_t =
  rm_id :: u32
  unit_id :: u32
  motor_speed :: u32
  info_temperature :: u32

text \<open>\<^verbatim>\<open>shm_sensor_t\<close> of \<^verbatim>\<open>src/system/shared_memory.h\<close>.\<close>

record shm_sensor_t =
  temp :: s32
  press :: s32
  humidity :: s32

datatype message =
    Toy_message toy_msg_t
  | Robot_info u32 u32 u32  \<comment> \<open>message id, robot id, temperature\<close>

section \<open>The calls\<close>

datatype file_call =
    Open string | Close int | Ioctl int u32 s32 | Read int nat | Write int "u8 list"
  | Lseek int | Poll int int | Fstat int | Lstat string | Opendir string | Fwrite nat
  | Socket | Getcwd

datatype queue_call =
    MqUnlink string | MqCreate string int int | MqOpen string
  | MqSend int message | MqReceive int

datatype memory_call =
    Malloc nat | Realloc nat | Mmap nat | Munmap nat | Mincore nat
  | Shmget int int | Shmat int | Shmdt int | ShmRemove int

datatype process_call =
    Fork | Clone | Execvp "string list" | Waitpid int | Prctl string | PthreadCreate string
  | PthreadAttr string | Sigaction string | Sleep nat | Nanosleep int int | Setitimer int int
  | Umask nat | Dlopen string | Dlsym string | Dlclose | Camera string

datatype guard_call =
    SeccompInit | SeccompRuleAdd string | SeccompExport | SeccompLoad | SeccompRelease
  | MutexLock string | MutexUnlock string | SemWait | SemPost | CondWait | CondSignal
  | InotifyInit | InotifyAddWatch string

datatype ucall =
    File file_call | Queue queue_call | Memory memory_call | Process process_call
  | Guard guard_call

type_synonym 'r uio = "(ucall, 'r) io_scheme"
type_synonym uenv = "ucall env"

abbreviation "mq_send E q m \<equiv> invoke E (Queue (MqSend q m))"
abbreviation "mq_open E name \<equiv> invoke E (Queue (MqOpen name))"
abbreviation "mq_receive E q \<equiv> invoke E (Queue (MqReceive q))"

text \<open>
  A process can end early: by \<^verbatim>\<open>exit\<close>, by a failed \<^verbatim>\<open>assert\<close>, by replacing itself with another
  program, by an access outside of its objects, or never come back from a call.
\<close>

datatype stop = Exit int | Abort | Exec "string list" | Bad_access | Hang

type_synonym 'a outcome = "stop + 'a"

definition EXIT_SUCCESS :: int where "EXIT_SUCCESS = 0"
definition EXIT_FAILURE :: int where "EXIT_FAILURE = 1"

text \<open>\<^verbatim>\<open>assert\<close> before the rest of a function.\<close>

definition asserting :: "bool \<Rightarrow> ('s, 'a outcome) state \<Rightarrow> ('s, 'a outcome) state" where
  "asserting b m = (if b then m else State_Monad.return (Inl Abort))"

lemma asserting_simps [simp]: "asserting True m = m" "asserting False m = State_Monad.return (Inl Abort)"
  by (simp_all add: asserting_def)

text \<open>Sequencing of programs that may stop.\<close>

definition then_do :: "('s, 'a outcome) state \<Rightarrow> ('a \<Rightarrow> ('s, 'b outcome) state) \<Rightarrow> ('s, 'b outcome) state" where
  "then_do m f = State_Monad.bind m (\<lambda>r. case r of Inl e \<Rightarrow> State_Monad.return (Inl e) | Inr x \<Rightarrow> f x)"

lemma run_then_do [exec_simps]:
  "run_state (then_do m f) s = (case run_state m s of
     (Inl e, s') \<Rightarrow> (Inl e, s') | (Inr x, s') \<Rightarrow> run_state (f x) s')"
  by (simp add: then_do_def split: prod.splits sum.splits)

lemma then_do_Inr: "result m s = Inr x \<Longrightarrow> run_state (then_do m f) s = run_state (f x) (exec m s)"
  by (simp add: run_then_do case_prod_beta)

lemma keeps_then_do [keeps_intros]:
  "keeps g m \<Longrightarrow> (\<And>x. keeps g (f x)) \<Longrightarrow> keeps g (then_do m f)"
  by (auto simp: then_do_def intro!: keeps_intros split: sum.split)

lemma keeps_asserting [keeps_intros]: "(b \<Longrightarrow> keeps g m) \<Longrightarrow> keeps g (asserting b m)"
  by (simp add: asserting_def keeps_intros)

section \<open>What a sequence of calls means\<close>

text \<open>The requests a program made of a device, and the messages it sent, in the order of the calls.\<close>

fun requests :: "(ucall \<times> int) list \<Rightarrow> (u32 \<times> s32) list" where
  "requests [] = []"
| "requests ((File (Ioctl fd cmd v), r) # h) = (cmd, v) # requests h"
| "requests (_ # h) = requests h"

lemma requests_append [simp]: "requests (g @ h) = requests g @ requests h"
  by (induction g rule: requests.induct) simp_all

fun sent :: "(ucall \<times> int) list \<Rightarrow> (int \<times> message) list" where
  "sent [] = []"
| "sent ((Queue (MqSend q m), r) # h) = (q, m) # sent h"
| "sent (_ # h) = sent h"

lemma sent_append [simp]: "sent (g @ h) = sent g @ sent h"
  by (induction g rule: sent.induct) simp_all

section \<open>Numbers in text\<close>

text \<open>
  \<^verbatim>\<open>atoi\<close>: white space, a sign, digits; the rest is ignored.  The C library computes it through
  \<^verbatim>\<open>strtol\<close>, which stays in the range of a 64 bit long, and drops the upper half.
\<close>

definition c_isspace :: "char \<Rightarrow> bool" where
  "c_isspace c \<longleftrightarrow> (of_char c :: nat) \<in> {9, 10, 11, 12, 13, 32}"

definition strtol10 :: "string \<Rightarrow> int" where
  "strtol10 str = (let str = dropWhile c_isspace str in
     case str of
       [] \<Rightarrow> 0
     | c # rest \<Rightarrow>
         (if c = CHR ''-'' then max (- (2 ^ 63)) (- int (digits_value (takeWhile is_digit rest)))
          else if c = CHR ''+'' then min (2 ^ 63 - 1) (int (digits_value (takeWhile is_digit rest)))
          else min (2 ^ 63 - 1) (int (digits_value (takeWhile is_digit str)))))"

definition atoi :: "string \<Rightarrow> s32" where
  "atoi str = word_of_int (strtol10 str)"

lemma digit_not_sign: "is_digit c \<Longrightarrow> \<not> c_isspace c \<and> c \<noteq> CHR ''-'' \<and> c \<noteq> CHR ''+''"
  by (auto simp: is_digit_def c_isspace_def)

lemma takeWhile_all_digits: "list_all is_digit ds \<Longrightarrow> takeWhile is_digit ds = ds"
  by (induction ds) simp_all

lemma strtol_show_int:
  assumes "- (2 ^ 31) \<le> v" "v < 2 ^ 31" "rest = [] \<or> (\<exists>c cs. rest = c # cs \<and> \<not> is_digit c)"
  shows "strtol10 (show_int v @ rest) = v"
proof -
  have tw: "takeWhile is_digit (show_nat n @ rest) = show_nat n" for n
    using assms(3) show_nat_digits [of n] by (auto simp: takeWhile_digits takeWhile_all_digits)
  obtain c ds where c: "show_nat (nat v) = c # ds" by (cases "show_nat (nat v)") auto
  then have "is_digit c" using show_nat_digits [of "nat v"] by simp
  then have d: "\<not> c_isspace c" "c \<noteq> CHR ''-''" "c \<noteq> CHR ''+''" using digit_not_sign by auto
  show ?thesis
  proof (cases "v < 0")
    case True
    have "\<not> c_isspace (CHR ''-'')" by (simp add: c_isspace_def)
    with True tw [of "nat (- v)"] assms(1) show ?thesis
      by (simp add: strtol10_def show_int_def show_nat_value Let_def)
  next
    case False
    have "strtol10 (show_nat (nat v) @ rest) =
        min (2 ^ 63 - 1) (int (digits_value (takeWhile is_digit (show_nat (nat v) @ rest))))"
      using d c by (simp add: strtol10_def Let_def)
    with False tw [of "nat v"] assms(2) show ?thesis
      by (simp add: show_int_def show_nat_value)
  qed
qed

lemma atoi_show_int:
  assumes "- (2 ^ 31) \<le> v" "v < 2 ^ 31" "rest = [] \<or> (\<exists>c cs. rest = c # cs \<and> \<not> is_digit c)"
  shows "sint (atoi (show_int v @ rest)) = v"
  using assms(1,2) by (simp add: atoi_def strtol_show_int [OF assms] sint_of_int32)

end
