(* ===== verification/Shared_Memory.thy ===== *)
theory Shared_Memory
  imports User_Calls
begin

text \<open>
  The shared memory helpers, \<^verbatim>\<open>src/system/shared_memory.c\<close>: creating, attaching, detaching and
  removing the segments that processes share, and the table of their identifiers.  Pointers are
  integers: -1 is the error value, 0 the null pointer.
\<close>

definition SHM_KEY_BASE :: int where "SHM_KEY_BASE = 10"
definition SHM_KEY_SENSOR :: int where "SHM_KEY_SENSOR = SHM_KEY_BASE"
definition SHM_KEY_MAX :: int where "SHM_KEY_MAX = 11"

lemmas shm_keys = SHM_KEY_BASE_def SHM_KEY_SENSOR_def SHM_KEY_MAX_def

text \<open>The table of the process; the records of the programs that use it extend this one.\<close>

record shm_state = "ucall io" +
  shm_id :: "int list"

definition shm_table_ok :: "'r shm_state_scheme \<Rightarrow> bool" where
  "shm_table_ok s \<longleftrightarrow> int (length (shm_id s)) = SHM_KEY_MAX - SHM_KEY_BASE"

definition toy_shm_attach :: "uenv \<Rightarrow> int \<Rightarrow> ('r shm_state_scheme, int) state" where
  "toy_shm_attach E shmid =
     (if shmid < 0 then State_Monad.return (-1)
      else do {
        ptr \<leftarrow> invoke E (Memory (Shmat shmid));
        if ptr = -1 then State_Monad.return (-1) else State_Monad.return ptr })"

text \<open>
  The arguments are checked, but a wrong key is only reported: the function goes on and stores the
  identifier outside of the table.
\<close>

definition toy_shm_create :: "uenv \<Rightarrow> int \<Rightarrow> int \<Rightarrow> ('r shm_state_scheme, int outcome) state" where
  "toy_shm_create E key sz = do {
     let key_offset = key - SHM_KEY_BASE;
     r \<leftarrow> invoke E (Memory (Shmget key sz));
     table \<leftarrow> gets shm_id;
     if key_offset < 0 \<or> int (length table) \<le> key_offset then State_Monad.return (Inl Bad_access)
     else do {
       modify (\<lambda>s. s\<lparr>shm_id := table[nat key_offset := r]\<rparr>);
       if r = -1 then State_Monad.return (Inr (-1))
       else do {
         ptr \<leftarrow> toy_shm_attach E r;
         if ptr = -1 then State_Monad.return (Inr (-1)) else State_Monad.return (Inr ptr) } } }"

definition toy_shm_detach :: "uenv \<Rightarrow> int \<Rightarrow> ('r shm_state_scheme, int) state" where
  "toy_shm_detach E ptr =
     (if ptr = 0 then State_Monad.return (-1) else invoke E (Memory (Shmdt ptr)))"

definition toy_shm_remove :: "uenv \<Rightarrow> int \<Rightarrow> ('r shm_state_scheme, int) state" where
  "toy_shm_remove E shmid =
     (if shmid \<le> 0 then State_Monad.return (-1) else invoke E (Memory (ShmRemove shmid)))"

definition toy_shm_get_keyid :: "int \<Rightarrow> ('r shm_state_scheme, int) state" where
  "toy_shm_get_keyid key =
     (if key < SHM_KEY_BASE \<or> SHM_KEY_MAX \<le> key then State_Monad.return (-1)
      else gets (\<lambda>s. shm_id s ! nat (key - SHM_KEY_BASE)))"

section \<open>Lemmas\<close>

lemma create_table_ok:
  "shm_table_ok s \<Longrightarrow> shm_table_ok (exec (toy_shm_create E key sz) s)"
  by (auto simp: toy_shm_create_def toy_shm_attach_def exec_simps Let_def shm_table_ok_def)

lemma remaining_table:
  "shm_id (exec (toy_shm_attach E i) s) = shm_id s" "shm_id (exec (toy_shm_detach E p) s) = shm_id s"
  "shm_id (exec (toy_shm_remove E i) s) = shm_id s" "shm_id (exec (toy_shm_get_keyid k) s) = shm_id s"
  by (auto simp: toy_shm_attach_def toy_shm_detach_def toy_shm_remove_def toy_shm_get_keyid_def exec_simps)

section \<open>Properties\<close>

text \<open>
  Creating a segment under a valid key and asking for its identifier later gives the identifier
  the kernel handed out, and the result is the address the segment was attached at, or -1 when the
  kernel refused one of the two steps.  A segment of another key is stored outside of the table.
\<close>

theorem shm_create_keyid:
  assumes "shm_table_ok s"
  shows "if SHM_KEY_BASE \<le> key \<and> key < SHM_KEY_MAX then
      (let s' = exec (toy_shm_create E key sz) s; i = E (trace s) (Memory (Shmget key sz)) in
       result (toy_shm_get_keyid key) s' = i \<and>
       (\<exists>ptr. result (toy_shm_create E key sz) s = Inr ptr \<and> (i < 0 \<longrightarrow> ptr = -1) \<and>
          (0 \<le> i \<longrightarrow> ptr = E (trace s @ [(Memory (Shmget key sz), i)]) (Memory (Shmat i)))))
    else result (toy_shm_create E key sz) s = Inl Bad_access"
  using assms
  by (auto simp: toy_shm_create_def toy_shm_attach_def toy_shm_get_keyid_def exec_simps Let_def
      shm_table_ok_def shm_keys)

definition shm_demo :: uenv where
  "shm_demo h c = (case c of Memory (Shmget _ _) \<Rightarrow> 7 | Memory (Shmat _) \<Rightarrow> 4096 | _ \<Rightarrow> 0)"

theorem shm_create_keyid_witness:
  "result (toy_shm_create shm_demo SHM_KEY_SENSOR 12) \<lparr>trace = [], shm_id = [0]\<rparr> = Inr 4096 \<and>
   result (toy_shm_create shm_demo 3 12) \<lparr>trace = [], shm_id = [0]\<rparr> = Inl Bad_access"
  using shm_create_keyid [of "\<lparr>trace = [], shm_id = [0]\<rparr>" SHM_KEY_SENSOR shm_demo 12]
    shm_create_keyid [of "\<lparr>trace = [], shm_id = [0]\<rparr>" 3 shm_demo 12]
  by (auto simp: shm_table_ok_def shm_keys shm_demo_def Let_def)

text \<open>
  The identifier 0 is a segment like any other for attaching, and cannot be removed: removing
  it answers -1 without a call, attaching to it makes the call.
\<close>

theorem shm_identifier_zero:
  "result (toy_shm_remove E 0) s = -1 \<and> trace (exec (toy_shm_remove E 0) s) = trace s \<and>
   (\<exists>r. trace (exec (toy_shm_attach E 0) s) = trace s @ [(Memory (Shmat 0), r)])"
  by (simp add: toy_shm_remove_def toy_shm_attach_def exec_simps)

end
