(* ===== verification/Dump_State.thy ===== *)
theory Dump_State
  imports User_Calls
begin

text \<open>
  The state dump, \<^verbatim>\<open>src/system/dump_state.c\<close>: copying the contents of files to the terminal.  The
  text written is the result of the functions, since writing it is all they are for.
\<close>

section \<open>Dumping a file\<close>

text \<open>
  What a file hands over: the pieces the successive reads return, up to the read that returns
  nothing or fails, the formatted time of its last change, and the text of the error when it cannot
  be opened.
\<close>

record dump_source =
  pieces :: "string list"
  stamp :: string
  open_error :: string

definition newline :: char where "newline = CHR 0x0A"

type_synonym ('r, 'a) user_prog = "('r uio, 'a) state"

text \<open>The loop over the reads: what was written, and whether the last piece ended with a newline.\<close>

primrec dump_loop :: "uenv \<Rightarrow> string list \<Rightarrow> bool \<Rightarrow> ('r, string \<times> bool) user_prog" where
  "dump_loop E [] nl = State_Monad.return ([], nl)"
| "dump_loop E (buffer # rest) nl = (if buffer = [] then State_Monad.return ([], nl)
     else do {
       ret \<leftarrow> invoke E (File (Fwrite (length buffer)));
       if ret \<le> 0 then State_Monad.return ([], last buffer = newline)
       else do {
         (out, nl) \<leftarrow> dump_loop E rest (last buffer = newline);
         State_Monad.return (buffer @ out, nl) } })"

definition has_stamp :: "string \<Rightarrow> bool" where
  "has_stamp path \<longleftrightarrow> take 6 path \<noteq> ''/proc/'' \<and> take 5 path \<noteq> ''/sys/''"

definition dump_header :: "uenv \<Rightarrow> int \<Rightarrow> string option \<Rightarrow> string \<Rightarrow> dump_source \<Rightarrow> ('r, string) user_prog" where
  "dump_header E fd title path src = (case title of
       None \<Rightarrow> State_Monad.return []
     | Some t \<Rightarrow> do {
         date \<leftarrow> (if has_stamp path then do {
             r \<leftarrow> invoke E (File (Fstat fd));
             State_Monad.return (if r = 0 then stamp src else []) }
           else State_Monad.return []);
         State_Monad.return (''--------- '' @ t @ '' ('' @ path @ date @ '') -------'' @ [newline]) })"

definition dump_file :: "uenv \<Rightarrow> string option \<Rightarrow> string \<Rightarrow> dump_source \<Rightarrow> ('r, int \<times> string) user_prog" where
  "dump_file E title path src = do {
     fd \<leftarrow> invoke E (File (Open path));
     if fd < 0 then
       State_Monad.return (-1, case title of None \<Rightarrow> []
         | Some t \<Rightarrow> ''--------- '' @ t @ '' ('' @ path @ '') --------'' @ [newline] @
             ''*** '' @ path @ '': '' @ open_error src @ [newline, newline])
     else do {
       head \<leftarrow> dump_header E fd title path src;
       (out, nl) \<leftarrow> dump_loop E (pieces src) False;
       perform E (File (Close fd));
       State_Monad.return (0, head @ out @ (if nl then [] else [newline]) @
         (if title = None then [] else [newline])) } }"

section \<open>The dump\<close>

definition dump_files :: "(string \<times> string) list" where
  "dump_files = [
     (''MEMORY INFO'', ''/proc/meminfo''),
     (''VIRTUAL MEMORY STATS'', ''/proc/vmstat''),
     (''VMALLOC INFO'', ''/proc/vmallocinfo''),
     (''SLAB INFO'', ''/proc/slabinfo''),
     (''ZONEINFO'', ''/proc/zoneinfo''),
     (''PAGETYPEINFO'', ''/proc/pagetypeinfo''),
     (''BUDDYINFO'', ''/proc/buddyinfo''),
     (''NETWORK DEV INFO'', ''/proc/net/dev''),
     (''NETWORK ROUTES'', ''/proc/net/route''),
     (''NETWORK ROUTES IPV6'', ''/proc/net/ipv6_route''),
     (''INTERRUPTS (1)'', ''/proc/interrupts'')]"

primrec dump_all :: "uenv \<Rightarrow> (string \<times> string) list \<Rightarrow> (string \<Rightarrow> dump_source) \<Rightarrow> ('r, string) user_prog" where
  "dump_all E [] fs = State_Monad.return []"
| "dump_all E (f # rest) fs = do {
     (_, out) \<leftarrow> dump_file E (Some (fst f)) (snd f) (fs (snd f));
     more \<leftarrow> dump_all E rest fs;
     State_Monad.return (out @ more) }"

definition dump_state :: "uenv \<Rightarrow> string \<Rightarrow> (string \<Rightarrow> dump_source) \<Rightarrow> ('r, string) user_prog" where
  "dump_state E date fs = do {
     let line = replicate 63 (CHR ''='') @ [newline];
     (_, kernel) \<leftarrow> dump_file E None ''/proc/version'' (fs ''/proc/version'');
     out \<leftarrow> dump_all E dump_files fs;
     let line' = replicate 56 (CHR ''='') @ [newline];
     State_Monad.return (line @ ''== dumpstate: '' @ date @ [newline] @ line @ [newline] @
       ''Kernel: '' @ kernel @ [newline] @ out @ [newline] @
       line' @ ''== dumpstate: done'' @ [newline] @ line') }"

section \<open>Lemmas\<close>

lemma dump_loop_keeps: "(\<And>s t. g (s\<lparr>trace := t\<rparr>) = g s) \<Longrightarrow> keeps g (dump_loop E bs nl)"
  by (induction bs arbitrary: nl) (auto intro!: keeps_intros)

lemma dump_file_keeps: "(\<And>s t. g (s\<lparr>trace := t\<rparr>) = g s) \<Longrightarrow> keeps g (dump_file E title path src)"
  by (auto simp: dump_file_def dump_header_def intro!: keeps_intros dump_loop_keeps split: option.split)

lemma dump_all_keeps: "(\<And>s t. g (s\<lparr>trace := t\<rparr>) = g s) \<Longrightarrow> keeps g (dump_all E fl fs)"
  by (induction fl) (auto intro!: keeps_intros dump_file_keeps)

lemma dump_state_keeps: "(\<And>s t. g (s\<lparr>trace := t\<rparr>) = g s) \<Longrightarrow> keeps g (dump_state E date fs)"
  by (auto simp: dump_state_def Let_def intro!: keeps_intros dump_file_keeps dump_all_keeps)

lemma concat_pieces: "[] \<notin> set bs \<Longrightarrow> concat bs = [] \<longleftrightarrow> bs = []"
  by (cases bs) auto

lemma dump_loop_result:
  assumes "\<And>h n. 0 < E h (File (Fwrite n))" "[] \<notin> set bs"
  shows "result (dump_loop E bs nl) s =
    (concat bs, if bs = [] then nl else last (concat bs) = newline)"
  using assms(2)
proof (induction bs arbitrary: nl s)
  case (Cons b bs)
  moreover have "\<not> E h (File (Fwrite n)) \<le> 0" for h n using assms(1) [of h n] by linarith
  moreover have "last (b @ concat bs) = (if bs = [] then last b else last (concat bs))"
    using Cons.prems concat_pieces [of bs] by (simp add: last_append del: concat_eq_Nil_conv)
  ultimately show ?case by (auto simp: exec_simps)
qed simp

section \<open>Properties\<close>

text \<open>
  A file that can be opened and whose pieces can be written is dumped whole: under its title,
  the contents byte for byte, closed by a newline when they do not end with one.
\<close>

theorem dump_file_whole:
  assumes "\<And>h. 0 \<le> E h (File (Open path))" "\<And>h n. 0 < E h (File (Fwrite n))"
    and "[] \<notin> set (pieces src)" "\<not> has_stamp path"
  shows "result (dump_file E (Some t) path src) (s :: 'a uio) =
    (0, ''--------- '' @ t @ '' ('' @ path @ '') -------'' @ [newline] @ concat (pieces src) @
       (if concat (pieces src) \<noteq> [] \<and> last (concat (pieces src)) = newline then [] else [newline]) @
       [newline])"
proof -
  have "\<not> E h (File (Open path)) < 0" for h using assms(1) [of h] by linarith
  moreover have "fst (result (dump_loop E (pieces src) False) u) = concat (pieces src)"
    "snd (result (dump_loop E (pieces src) False) u) \<longleftrightarrow>
      concat (pieces src) \<noteq> [] \<and> last (concat (pieces src)) = newline" for u :: "'a uio"
    using dump_loop_result [where E = E and nl = False and s = u, OF assms(2,3)] concat_pieces [OF assms(3)]
    by (auto simp del: concat_eq_Nil_conv)
  ultimately show ?thesis
    using assms(4) by (simp add: dump_file_def dump_header_def exec_simps del: concat_eq_Nil_conv)
qed

definition dump_demo :: uenv where "dump_demo h c = 1"

theorem dump_file_whole_witness:
  "result (dump_file dump_demo (Some ''MEMORY INFO'') ''/proc/meminfo''
      \<lparr>pieces = [''MemTotal'', '' 8''], stamp = [], open_error = []\<rparr>) \<lparr>trace = []\<rparr> =
    (0, ''--------- MEMORY INFO (/proc/meminfo) -------'' @ [newline] @ ''MemTotal 8'' @ [newline, newline])"
  using dump_file_whole [of dump_demo "''/proc/meminfo''"
      "\<lparr>pieces = [''MemTotal'', '' 8''], stamp = [], open_error = []\<rparr>" "''MEMORY INFO''" "\<lparr>trace = []\<rparr>"]
  by (simp add: dump_demo_def has_stamp_def newline_def)

end
