(* ===== verification/State_Engine.thy ===== *)
theory State_Engine
  imports User_Calls
begin

text \<open>
  The state machine framework of the engine, \<^verbatim>\<open>src/engine/StateMachine.h\<close> and
  \<^verbatim>\<open>src/engine/StateMachine.cpp\<close>: external and internal events, the two state engines (with and
  without guards, entry and exit actions) and the ownership of event data on the heap.

  A call is a partial function on the machine and the world: \<open>None\<close> is a call that does not return,
  because an assertion failed (\<^verbatim>\<open>FaultHandler\<close> in \<^verbatim>\<open>src/engine/Fault.cpp\<close> loops forever), because
  the events never end, or because event data that is not allocated was used or deleted.
\<close>

section \<open>Heap and machine\<close>

datatype event_data = NoEventData | MotorData s32

text \<open>The heap of event data: address 0 is the null pointer, \<open>fresh\<close> the next unused address.\<close>

record world = "ucall io" +
  heap :: "nat \<rightharpoonup> event_data"
  fresh :: nat

record machine =
  MAX_STATES :: u8
  m_currentState :: u8
  m_newState :: u8
  m_eventGenerated :: bool
  m_pEventData :: nat

definition EVENT_IGNORED :: u8 where "EVENT_IGNORED = 0xFE"
definition CANNOT_HAPPEN :: u8 where "CANNOT_HAPPEN = 0xFF"

definition new_data :: "event_data \<Rightarrow> world \<Rightarrow> nat \<times> world" where
  "new_data d w = (fresh w, w\<lparr>heap := (heap w)(fresh w \<mapsto> d), fresh := fresh w + 1\<rparr>)"

definition delete_data :: "nat \<Rightarrow> world \<Rightarrow> world option" where
  "delete_data p w = (if p \<in> dom (heap w) then Some (w\<lparr>heap := (heap w)(p := None)\<rparr>) else None)"

type_synonym 'r object = "'r machine_scheme \<times> world"

text \<open>\<^verbatim>\<open>ASSERT_TRUE\<close>: a false condition never returns.\<close>

definition ASSERT_TRUE :: "bool \<Rightarrow> unit option" where
  "ASSERT_TRUE b = (if b then Some () else None)"

definition GetCurrentState :: "'r machine_scheme \<Rightarrow> u8" where
  "GetCurrentState m = m_currentState m"

definition SetCurrentState :: "u8 \<Rightarrow> 'r machine_scheme \<Rightarrow> 'r machine_scheme" where
  "SetCurrentState n m = m\<lparr>m_currentState := n\<rparr>"

section \<open>State actions\<close>

text \<open>
  A state of the map: its function and the type of event data it is declared with.  The downcast
  to the base class succeeds for every object, the one to \<^verbatim>\<open>MotorData\<close> only for motor data; a null
  pointer fails both.
\<close>

datatype data_type = Any_data | Motor_data

fun dynamic_cast :: "data_type \<Rightarrow> event_data \<Rightarrow> bool" where
  "dynamic_cast Any_data d = True"
| "dynamic_cast Motor_data d = (case d of MotorData _ \<Rightarrow> True | NoEventData \<Rightarrow> False)"

record 'r state_row =
  expects :: data_type
  func :: "event_data \<Rightarrow> 'r object \<Rightarrow> 'r object option"

definition InvokeStateAction :: "'r state_row \<Rightarrow> nat \<Rightarrow> 'r object \<Rightarrow> 'r object option" where
  "InvokeStateAction row p = (\<lambda>(m, w). case heap w p of
       None \<Rightarrow> None
     | Some d \<Rightarrow> if dynamic_cast (expects row) d then func row d (m, w) else None)"

text \<open>The rows of the extended map; \<open>None\<close> is a null pointer in the map.\<close>

record 'r state_row_ex =
  state_of :: "'r state_row"
  guard_of :: "(event_data \<Rightarrow> 'r object \<Rightarrow> (bool \<times> 'r object) option) option"
  entry_of :: "(event_data \<Rightarrow> 'r object \<Rightarrow> 'r object option) option"
  exit_of :: "('r object \<Rightarrow> 'r object option) option"

section \<open>The state engines\<close>

text \<open>The loop \<^verbatim>\<open>while(m_eventGenerated)\<close>; its body may fault and it may go on forever.\<close>

partial_function (option) while_events :: "('r object \<Rightarrow> 'r object option) \<Rightarrow> 'r object \<Rightarrow> 'r object option" where
  "while_events body obj = (if m_eventGenerated (fst obj)
     then Option.bind (body obj) (while_events body) else Some obj)"

definition run_state_row :: "'r state_row list \<Rightarrow> 'r object \<Rightarrow> 'r object option" where
  "run_state_row pStateMap = (\<lambda>(m, w). do {
     ASSERT_TRUE (m_newState m < MAX_STATES m);
     let state = pStateMap ! unat (m_newState m);
     let pDataTemp = m_pEventData m;
     let m = SetCurrentState (m_newState m) (m\<lparr>m_pEventData := 0, m_eventGenerated := False\<rparr>);
     (m, w) \<leftarrow> InvokeStateAction state pDataTemp (m, w);
     w \<leftarrow> (if pDataTemp \<noteq> 0 then delete_data pDataTemp w else Some w);
     Some (m, w) })"

definition StateEngine :: "'r state_row list \<Rightarrow> 'r object \<Rightarrow> 'r object option" where
  "StateEngine pStateMap = while_events (run_state_row pStateMap)"

definition with_data :: "nat \<Rightarrow> (event_data \<Rightarrow> 'r object \<Rightarrow> 'a option) \<Rightarrow> 'r object \<Rightarrow> 'a option" where
  "with_data p f = (\<lambda>(m, w). case heap w p of None \<Rightarrow> None | Some d \<Rightarrow> f d (m, w))"

definition change_state :: "'r state_row_ex \<Rightarrow> 'r state_row_ex \<Rightarrow> nat \<Rightarrow> 'r object \<Rightarrow> 'r object option" where
  "change_state old new p obj = do {
     obj \<leftarrow> (case exit_of old of None \<Rightarrow> Some obj | Some f \<Rightarrow> f obj);
     obj \<leftarrow> (case entry_of new of None \<Rightarrow> Some obj | Some f \<Rightarrow> with_data p f obj);
     ASSERT_TRUE (\<not> m_eventGenerated (fst obj));
     Some obj }"

definition run_state_row_ex :: "'r state_row_ex list \<Rightarrow> 'r object \<Rightarrow> 'r object option" where
  "run_state_row_ex pStateMapEx = (\<lambda>(m, w). do {
     ASSERT_TRUE (m_newState m < MAX_STATES m);
     let new = pStateMapEx ! unat (m_newState m);
     let old = pStateMapEx ! unat (m_currentState m);
     let pDataTemp = m_pEventData m;
     let m = m\<lparr>m_pEventData := 0, m_eventGenerated := False\<rparr>;
     (ok, obj) \<leftarrow> (case guard_of new of None \<Rightarrow> Some (True, (m, w)) | Some g \<Rightarrow> with_data pDataTemp g (m, w));
     (m, w) \<leftarrow> (if ok then do {
         (m, w) \<leftarrow> (if m_newState (fst obj) \<noteq> m_currentState (fst obj)
                    then change_state old new pDataTemp obj else Some obj);
         InvokeStateAction (state_of new) pDataTemp (SetCurrentState (m_newState m) m, w) }
       else Some obj);
     w \<leftarrow> (if pDataTemp \<noteq> 0 then delete_data pDataTemp w else Some w);
     Some (m, w) })"

definition StateEngineEx :: "'r state_row_ex list \<Rightarrow> 'r object \<Rightarrow> 'r object option" where
  "StateEngineEx pStateMapEx = while_events (run_state_row_ex pStateMapEx)"

section \<open>Events\<close>

definition InternalEvent :: "u8 \<Rightarrow> nat \<Rightarrow> 'r object \<Rightarrow> 'r object" where
  "InternalEvent newState pData = (\<lambda>(m, w).
     let (pData, w) = (if pData = 0 then new_data NoEventData w else (pData, w))
     in (m\<lparr>m_pEventData := pData, m_eventGenerated := True, m_newState := newState\<rparr>, w))"

definition ExternalEvent :: "'r state_row list \<Rightarrow> u8 \<Rightarrow> nat \<Rightarrow> 'r object \<Rightarrow> 'r object option" where
  "ExternalEvent pStateMap newState pData = (\<lambda>(m, w).
     if newState = EVENT_IGNORED then
       (if pData \<noteq> 0 then map_option (Pair m) (delete_data pData w) else Some (m, w))
     else StateEngine pStateMap (InternalEvent newState pData (m, w)))"

text \<open>\<^verbatim>\<open>BEGIN_TRANSITION_MAP ... END_TRANSITION_MAP(data)\<close>.\<close>

definition transition :: "'r state_row list \<Rightarrow> u8 list \<Rightarrow> nat \<Rightarrow> 'r object \<Rightarrow> 'r object option" where
  "transition pStateMap TRANSITIONS pData obj = do {
     ASSERT_TRUE (unat (GetCurrentState (fst obj)) < length TRANSITIONS);
     ExternalEvent pStateMap (TRANSITIONS ! unat (GetCurrentState (fst obj))) pData obj }"

section \<open>Lemmas\<close>

lemma while_idle [simp]: "\<not> m_eventGenerated (fst obj) \<Longrightarrow> while_events body obj = Some obj"
  by (simp add: while_events.simps)

lemma while_step:
  "m_eventGenerated (fst obj) \<Longrightarrow> while_events body obj = Option.bind (body obj) (while_events body)"
  by (simp add: while_events.simps)

lemma ASSERT_TRUE_simps [simp]: "ASSERT_TRUE True = Some ()" "ASSERT_TRUE False = None"
  by (simp_all add: ASSERT_TRUE_def)

lemma while_events_agree:
  assumes agree: "\<And>obj. ok obj \<Longrightarrow> m_eventGenerated (fst obj) \<Longrightarrow> body obj = body' obj"
    and keeps: "\<And>obj obj'. ok obj \<Longrightarrow> body obj = Some obj' \<Longrightarrow> ok obj'"
    and res: "while_events body obj = Some res"
  shows "ok obj \<Longrightarrow> while_events body' obj = Some res"
proof -
  have "b = body \<longrightarrow> ok obj \<longrightarrow> while_events body' obj = Some res"
    if "while_events b obj = Some res" for b obj res
  proof (rule while_events.raw_induct [OF _ that, where P = "\<lambda>b obj res.
      b = body \<longrightarrow> ok obj \<longrightarrow> while_events body' obj = Some res"], intro impI)
    fix we :: "('a object \<Rightarrow> 'a object option) \<Rightarrow> 'a object \<Rightarrow> 'a object option"
      and b :: "'a object \<Rightarrow> 'a object option" and obj res
    assume IH: "\<And>b obj res. we b obj = Some res \<Longrightarrow>
        b = body \<longrightarrow> ok obj \<longrightarrow> while_events body' obj = Some res"
      and run: "(if m_eventGenerated (fst obj) then Option.bind (b obj) (we b) else Some obj) = Some res"
      and b: "b = body" and ok: "ok obj"
    show "while_events body' obj = Some res"
    proof (cases "m_eventGenerated (fst obj)")
      case True
      with run obtain obj' where o: "b obj = Some obj'" "we b obj' = Some res"
        by (auto simp: bind_eq_Some_conv)
      have "ok obj'" using keeps [OF ok] o(1) b by simp
      with IH [OF o(2)] b have "while_events body' obj' = Some res" by simp
      with True o(1) b agree [OF ok True] show ?thesis by (simp add: while_step)
    qed (use run in simp)
  qed
  with res show "ok obj \<Longrightarrow> while_events body' obj = Some res" by blast
qed

lemma while_events_eq:
  assumes agree: "\<And>obj. ok obj \<Longrightarrow> m_eventGenerated (fst obj) \<Longrightarrow> body obj = body' obj"
    and keeps: "\<And>obj obj'. ok obj \<Longrightarrow> body obj = Some obj' \<Longrightarrow> ok obj'"
    and keeps': "\<And>obj obj'. ok obj \<Longrightarrow> body' obj = Some obj' \<Longrightarrow> ok obj'"
    and "ok obj"
  shows "while_events body obj = while_events body' obj"
proof (cases "while_events body obj")
  case None
  have "while_events body' obj \<noteq> Some res" for res
    using while_events_agree [of ok body' body obj res, OF agree [symmetric] keeps' _ assms(4)] None
    by auto
  with None show ?thesis by (cases "while_events body' obj") auto
next
  case (Some res)
  from while_events_agree [of ok body body', OF agree keeps this assms(4)] Some show ?thesis by simp
qed

text \<open>
  A map without guards, entry and exit actions (\<^verbatim>\<open>STATE_MAP_ENTRY_EX\<close>), and state functions that
  leave the bookkeeping of the machine to the engine.
\<close>

definition plain_row :: "'r state_row \<Rightarrow> 'r state_row_ex" where
  "plain_row row = \<lparr>state_of = row, guard_of = None, entry_of = None, exit_of = None\<rparr>"

definition in_range :: "'r state_row list \<Rightarrow> 'r object \<Rightarrow> bool" where
  "in_range mp obj \<longleftrightarrow> unat (MAX_STATES (fst obj)) = length mp \<and>
     unat (m_currentState (fst obj)) < length mp"

definition well_behaved :: "'r state_row \<Rightarrow> bool" where
  "well_behaved row \<longleftrightarrow> (\<forall>d obj obj'. func row d obj = Some obj' \<longrightarrow>
     MAX_STATES (fst obj') = MAX_STATES (fst obj) \<and>
     m_currentState (fst obj') = m_currentState (fst obj))"

lemma run_row_in_range:
  assumes "in_range mp obj" "list_all well_behaved mp" "run_state_row mp obj = Some obj'"
  shows "in_range mp obj'"
proof -
  obtain m w where obj: "obj = (m, w)" by force
  let ?row = "mp ! unat (m_newState m)"
  let ?m = "SetCurrentState (m_newState m) (m\<lparr>m_pEventData := 0, m_eventGenerated := False\<rparr>)"
  have lt: "m_newState m < MAX_STATES m"
    using assms(3) obj by (auto simp: run_state_row_def ASSERT_TRUE_def split: if_splits)
  with assms(1) obj have i: "unat (m_newState m) < length mp"
    by (simp add: in_range_def word_less_nat_alt)
  with assms(2) have wb: "well_behaved ?row" by (simp add: list_all_length)
  from assms(3) lt obtain d m' w' w'' where "func ?row d (?m, w) = Some (m', w')" "obj' = (m', w'')"
    by (auto simp: obj run_state_row_def Let_def InvokeStateAction_def bind_eq_Some_conv
        split: option.splits if_splits)
  with wb have "MAX_STATES (fst obj') = MAX_STATES ?m \<and> m_currentState (fst obj') = m_currentState ?m"
    unfolding well_behaved_def by (metis fst_conv)
  with assms(1) i obj show ?thesis by (simp add: in_range_def SetCurrentState_def)
qed

lemma plain_row_step:
  assumes "in_range mp obj"
  shows "run_state_row_ex (map plain_row mp) obj = run_state_row mp obj"
proof -
  obtain m w where obj: "obj = (m, w)" by force
  show ?thesis
  proof (cases "m_newState m < MAX_STATES m")
    case True
    with assms obj have "unat (m_newState m) < length mp" "unat (m_currentState m) < length mp"
      by (simp_all add: in_range_def word_less_nat_alt)
    then show ?thesis
      by (simp add: obj run_state_row_def run_state_row_ex_def plain_row_def change_state_def Let_def
          SetCurrentState_def)
  qed (simp add: obj run_state_row_def run_state_row_ex_def)
qed

text \<open>
  C9.  The two state engines agree: on a map whose rows have no guard, no entry and no exit action
  the extended engine does exactly what the plain one does, faults and endless runs included.
\<close>

theorem state_engines_agree:
  assumes "in_range mp obj" "list_all well_behaved mp"
  shows "StateEngineEx (map plain_row mp) obj = StateEngine mp obj"
  unfolding StateEngineEx_def StateEngine_def
  by (rule while_events_eq [where ok = "in_range mp"])
    (use assms plain_row_step run_row_in_range in \<open>metis+\<close>)

definition quiet_row :: "unit state_row" where
  "quiet_row = \<lparr>expects = Any_data, func = (\<lambda>d obj. Some obj)\<rparr>"

definition quiet_object :: "unit object" where
  "quiet_object = (\<lparr>MAX_STATES = 1, m_currentState = 0, m_newState = 0, m_eventGenerated = True,
     m_pEventData = 1\<rparr>, \<lparr>trace = [], heap = [1 \<mapsto> NoEventData], fresh = 2\<rparr>)"

theorem state_engines_agree_witness:
  "StateEngineEx [plain_row quiet_row] quiet_object = StateEngine [quiet_row] quiet_object"
  using state_engines_agree [of "[quiet_row]" quiet_object]
  by (simp add: in_range_def well_behaved_def quiet_row_def quiet_object_def)

end
