(* ===== verification/Motor_Engine.thy ===== *)
theory Motor_Engine
  imports State_Engine
begin

text \<open>
  The two motors and the interface of the engine: \<^verbatim>\<open>src/engine/LeftMotor.{h,cpp}\<close>,
  \<^verbatim>\<open>RightMotor.{h,cpp}\<close>, \<^verbatim>\<open>Motor.h\<close> and \<^verbatim>\<open>Engine.cpp\<close>.  Both motors are state machines of the
  framework with the same four states and transitions; they differ in their request codes and in
  what the idle state does.
\<close>

section \<open>States and request codes\<close>

definition ST_IDLE :: u8 where "ST_IDLE = 0"
definition ST_STOP :: u8 where "ST_STOP = 1"
definition ST_START :: u8 where "ST_START = 2"
definition ST_CHANGE_SPEED :: u8 where "ST_CHANGE_SPEED = 3"
definition ST_MAX_STATES :: u8 where "ST_MAX_STATES = 4"

lemmas motor_states =
  ST_IDLE_def ST_STOP_def ST_START_def ST_CHANGE_SPEED_def ST_MAX_STATES_def

definition MOTOR_1_START_SPEED :: u32 where "MOTOR_1_START_SPEED = IOW 0x77 0x31 8"
definition MOTOR_2_START_SPEED :: u32 where "MOTOR_2_START_SPEED = IOW 0x77 0x32 8"
definition MOTOR_1_SET_SPEED :: u32 where "MOTOR_1_SET_SPEED = IOW 0x77 0x33 8"
definition MOTOR_2_SET_SPEED :: u32 where "MOTOR_2_SET_SPEED = IOW 0x77 0x34 8"
definition MOTOR_1_HALT :: u32 where "MOTOR_1_HALT = IOW 0x77 0x35 8"
definition MOTOR_2_HALT :: u32 where "MOTOR_2_HALT = IOW 0x77 0x36 8"

record motor = machine +
  m_currentSpeed :: s32

type_synonym motor_row = "(\<lparr>m_currentSpeed :: s32\<rparr>) state_row"
type_synonym motor_object = "motor \<times> world"

abbreviation "toy_engine_driver \<equiv> ''/dev/toy_engine_driver''"

section \<open>The left motor\<close>

definition LeftMotor :: motor where
  "LeftMotor = \<lparr>MAX_STATES = ST_MAX_STATES, m_currentState = 0, m_newState = 0,
     m_eventGenerated = False, m_pEventData = 0, m_currentSpeed = 0\<rparr>"

definition LeftMotor_StartMotorSpeed :: "uenv \<Rightarrow> s32 \<Rightarrow> (world, unit) state" where
  "LeftMotor_StartMotorSpeed E speed = do {
     dev \<leftarrow> invoke E (File (Open toy_engine_driver));
     if dev < 0 then State_Monad.return ()
     else do {
       _ \<leftarrow> invoke E (File (Ioctl dev MOTOR_1_START_SPEED speed));
       perform E (File (Close dev)) } }"

definition LeftMotor_SetMotorSpeed :: "uenv \<Rightarrow> s32 \<Rightarrow> (world, unit) state" where
  "LeftMotor_SetMotorSpeed E speed = do {
     dev \<leftarrow> invoke E (File (Open toy_engine_driver));
     if dev < 0 then State_Monad.return ()
     else do {
       _ \<leftarrow> invoke E (File (Ioctl dev MOTOR_1_SET_SPEED speed));
       perform E (File (Close dev)) } }"

definition LeftMotor_HaltMotor :: "uenv \<Rightarrow> (world, unit) state" where
  "LeftMotor_HaltMotor E = do {
     dev \<leftarrow> invoke E (File (Open toy_engine_driver));
     if dev < 0 then State_Monad.return ()
     else do {
       _ \<leftarrow> invoke E (File (Ioctl dev MOTOR_1_HALT 0));
       perform E (File (Close dev)) } }"

definition LeftMotor_ST_Idle :: "uenv \<Rightarrow> event_data \<Rightarrow> motor_object \<Rightarrow> motor_object option" where
  "LeftMotor_ST_Idle E d = (\<lambda>(m, w).
     Some (m\<lparr>m_currentSpeed := 0\<rparr>, exec (LeftMotor_HaltMotor E) w))"

definition LeftMotor_ST_Stop :: "uenv \<Rightarrow> event_data \<Rightarrow> motor_object \<Rightarrow> motor_object option" where
  "LeftMotor_ST_Stop E d = (\<lambda>(m, w).
     let (m, w) = InternalEvent ST_IDLE 0 (m\<lparr>m_currentSpeed := 0\<rparr>, w)
     in Some (m, exec (LeftMotor_HaltMotor E) w))"

definition LeftMotor_ST_Start :: "uenv \<Rightarrow> event_data \<Rightarrow> motor_object \<Rightarrow> motor_object option" where
  "LeftMotor_ST_Start E d = (\<lambda>(m, w). case d of
       MotorData speed \<Rightarrow>
         Some (m\<lparr>m_currentSpeed := speed\<rparr>, exec (LeftMotor_StartMotorSpeed E speed) w)
     | NoEventData \<Rightarrow> None)"

definition LeftMotor_ST_ChangeSpeed :: "uenv \<Rightarrow> event_data \<Rightarrow> motor_object \<Rightarrow> motor_object option" where
  "LeftMotor_ST_ChangeSpeed E d = (\<lambda>(m, w). case d of
       MotorData speed \<Rightarrow>
         Some (m\<lparr>m_currentSpeed := speed\<rparr>, exec (LeftMotor_SetMotorSpeed E speed) w)
     | NoEventData \<Rightarrow> None)"

definition LeftMotor_STATE_MAP :: "uenv \<Rightarrow> motor_row list" where
  "LeftMotor_STATE_MAP E = [
     \<lparr>expects = Any_data, func = LeftMotor_ST_Idle E\<rparr>,
     \<lparr>expects = Any_data, func = LeftMotor_ST_Stop E\<rparr>,
     \<lparr>expects = Motor_data, func = LeftMotor_ST_Start E\<rparr>,
     \<lparr>expects = Motor_data, func = LeftMotor_ST_ChangeSpeed E\<rparr>]"

definition LeftMotor_SetSpeed :: "uenv \<Rightarrow> nat \<Rightarrow> motor_object \<Rightarrow> motor_object option" where
  "LeftMotor_SetSpeed E data = transition (LeftMotor_STATE_MAP E)
     [ST_START, CANNOT_HAPPEN, ST_CHANGE_SPEED, ST_CHANGE_SPEED] data"

definition LeftMotor_Halt :: "uenv \<Rightarrow> motor_object \<Rightarrow> motor_object option" where
  "LeftMotor_Halt E = transition (LeftMotor_STATE_MAP E)
     [EVENT_IGNORED, CANNOT_HAPPEN, ST_STOP, ST_STOP] 0"

section \<open>The right motor\<close>

definition RightMotor :: motor where
  "RightMotor = \<lparr>MAX_STATES = ST_MAX_STATES, m_currentState = 0, m_newState = 0,
     m_eventGenerated = False, m_pEventData = 0, m_currentSpeed = 0\<rparr>"

definition RightMotor_StartMotorSpeed :: "uenv \<Rightarrow> s32 \<Rightarrow> (world, unit) state" where
  "RightMotor_StartMotorSpeed E speed = do {
     dev \<leftarrow> invoke E (File (Open toy_engine_driver));
     if dev < 0 then State_Monad.return ()
     else do {
       _ \<leftarrow> invoke E (File (Ioctl dev MOTOR_2_START_SPEED speed));
       perform E (File (Close dev)) } }"

definition RightMotor_SetMotorSpeed :: "uenv \<Rightarrow> s32 \<Rightarrow> (world, unit) state" where
  "RightMotor_SetMotorSpeed E speed = do {
     dev \<leftarrow> invoke E (File (Open toy_engine_driver));
     if dev < 0 then State_Monad.return ()
     else do {
       _ \<leftarrow> invoke E (File (Ioctl dev MOTOR_2_SET_SPEED speed));
       perform E (File (Close dev)) } }"

definition RightMotor_HaltMotor :: "uenv \<Rightarrow> (world, unit) state" where
  "RightMotor_HaltMotor E = do {
     dev \<leftarrow> invoke E (File (Open toy_engine_driver));
     if dev < 0 then State_Monad.return ()
     else do {
       _ \<leftarrow> invoke E (File (Ioctl dev MOTOR_2_HALT 0));
       perform E (File (Close dev)) } }"

definition RightMotor_ST_Idle :: "uenv \<Rightarrow> event_data \<Rightarrow> motor_object \<Rightarrow> motor_object option" where
  "RightMotor_ST_Idle E d obj = Some obj"

definition RightMotor_ST_Stop :: "uenv \<Rightarrow> event_data \<Rightarrow> motor_object \<Rightarrow> motor_object option" where
  "RightMotor_ST_Stop E d = (\<lambda>(m, w).
     let (m, w) = InternalEvent ST_IDLE 0 (m\<lparr>m_currentSpeed := 0\<rparr>, w)
     in Some (m, exec (RightMotor_HaltMotor E) w))"

definition RightMotor_ST_Start :: "uenv \<Rightarrow> event_data \<Rightarrow> motor_object \<Rightarrow> motor_object option" where
  "RightMotor_ST_Start E d = (\<lambda>(m, w). case d of
       MotorData speed \<Rightarrow>
         Some (m\<lparr>m_currentSpeed := speed\<rparr>, exec (RightMotor_StartMotorSpeed E speed) w)
     | NoEventData \<Rightarrow> None)"

definition RightMotor_ST_ChangeSpeed :: "uenv \<Rightarrow> event_data \<Rightarrow> motor_object \<Rightarrow> motor_object option" where
  "RightMotor_ST_ChangeSpeed E d = (\<lambda>(m, w). case d of
       MotorData speed \<Rightarrow>
         Some (m\<lparr>m_currentSpeed := speed\<rparr>, exec (RightMotor_SetMotorSpeed E speed) w)
     | NoEventData \<Rightarrow> None)"

definition RightMotor_STATE_MAP :: "uenv \<Rightarrow> motor_row list" where
  "RightMotor_STATE_MAP E = [
     \<lparr>expects = Any_data, func = RightMotor_ST_Idle E\<rparr>,
     \<lparr>expects = Any_data, func = RightMotor_ST_Stop E\<rparr>,
     \<lparr>expects = Motor_data, func = RightMotor_ST_Start E\<rparr>,
     \<lparr>expects = Motor_data, func = RightMotor_ST_ChangeSpeed E\<rparr>]"

definition RightMotor_SetSpeed :: "uenv \<Rightarrow> nat \<Rightarrow> motor_object \<Rightarrow> motor_object option" where
  "RightMotor_SetSpeed E data = transition (RightMotor_STATE_MAP E)
     [ST_START, CANNOT_HAPPEN, ST_CHANGE_SPEED, ST_CHANGE_SPEED] data"

definition RightMotor_Halt :: "uenv \<Rightarrow> motor_object \<Rightarrow> motor_object option" where
  "RightMotor_Halt E = transition (RightMotor_STATE_MAP E)
     [EVENT_IGNORED, CANNOT_HAPPEN, ST_STOP, ST_STOP] 0"

section \<open>The interface of the engine\<close>

record engine_objects =
  rmotor :: motor
  lmotor :: motor
  hal_world :: world

definition engine_objects_initial :: engine_objects where
  "engine_objects_initial = \<lparr>rmotor = RightMotor, lmotor = LeftMotor,
     hal_world = \<lparr>trace = [], heap = Map.empty, fresh = 1\<rparr>\<rparr>"

definition set_right_motor_speed :: "uenv \<Rightarrow> s32 \<Rightarrow> engine_objects \<Rightarrow> (int \<times> engine_objects) option" where
  "set_right_motor_speed E speed g = do {
     let (data, w) = new_data (MotorData speed) (hal_world g);
     (m, w) \<leftarrow> RightMotor_SetSpeed E data (rmotor g, w);
     Some (0, g\<lparr>rmotor := m, hal_world := w\<rparr>) }"

definition halt_right_motor :: "uenv \<Rightarrow> engine_objects \<Rightarrow> (int \<times> engine_objects) option" where
  "halt_right_motor E g = do {
     (m, w) \<leftarrow> RightMotor_Halt E (rmotor g, hal_world g);
     Some (0, g\<lparr>rmotor := m, hal_world := w\<rparr>) }"

definition set_left_motor_speed :: "uenv \<Rightarrow> s32 \<Rightarrow> engine_objects \<Rightarrow> (int \<times> engine_objects) option" where
  "set_left_motor_speed E speed g = do {
     let (data, w) = new_data (MotorData speed) (hal_world g);
     (m, w) \<leftarrow> LeftMotor_SetSpeed E data (lmotor g, w);
     Some (0, g\<lparr>lmotor := m, hal_world := w\<rparr>) }"

definition halt_left_motor :: "uenv \<Rightarrow> engine_objects \<Rightarrow> (int \<times> engine_objects) option" where
  "halt_left_motor E g = do {
     (m, w) \<leftarrow> LeftMotor_Halt E (lmotor g, hal_world g);
     Some (0, g\<lparr>lmotor := m, hal_world := w\<rparr>) }"

section \<open>Requests of the driver\<close>

definition device_request :: "uenv \<Rightarrow> u32 \<Rightarrow> s32 \<Rightarrow> (world, unit) state" where
  "device_request E cmd v = do {
     dev \<leftarrow> invoke E (File (Open toy_engine_driver));
     if dev < 0 then State_Monad.return ()
     else do {
       _ \<leftarrow> invoke E (File (Ioctl dev cmd v));
       perform E (File (Close dev)) } }"

lemma motor_requests:
  "LeftMotor_StartMotorSpeed E v = device_request E MOTOR_1_START_SPEED v"
  "LeftMotor_SetMotorSpeed E v = device_request E MOTOR_1_SET_SPEED v"
  "LeftMotor_HaltMotor E = device_request E MOTOR_1_HALT 0"
  "RightMotor_StartMotorSpeed E v = device_request E MOTOR_2_START_SPEED v"
  "RightMotor_SetMotorSpeed E v = device_request E MOTOR_2_SET_SPEED v"
  "RightMotor_HaltMotor E = device_request E MOTOR_2_HALT 0"
  by (simp_all add: device_request_def LeftMotor_StartMotorSpeed_def LeftMotor_SetMotorSpeed_def
      LeftMotor_HaltMotor_def RightMotor_StartMotorSpeed_def RightMotor_SetMotorSpeed_def
      RightMotor_HaltMotor_def)

text \<open>The device file of the driver can be opened.\<close>

definition device_ok :: "uenv \<Rightarrow> bool" where
  "device_ok E \<longleftrightarrow> (\<forall>h. 0 \<le> E h (File (Open toy_engine_driver)))"

lemma device_request_heap [simp]:
  "heap (exec (device_request E cmd v) w) = heap w" "fresh (exec (device_request E cmd v) w) = fresh w"
  by (simp_all add: device_request_def exec_simps)

lemma device_request_requests:
  "device_ok E \<Longrightarrow> requests (trace (exec (device_request E cmd v) w)) = requests (trace w) @ [(cmd, v)]"
  by (simp add: device_request_def exec_simps device_ok_def not_less)

section \<open>What a motor promises\<close>

text \<open>
  A motor at rest between two events, seen as a mode; the heap between two events, with nothing
  allocated at the null pointer or beyond the next fresh address.
\<close>

datatype motor_mode = Stopped | Running s32

definition mode :: "motor \<Rightarrow> motor_mode" where
  "mode m = (if m_currentState m = ST_IDLE then Stopped else Running (m_currentSpeed m))"

definition resting :: "motor \<Rightarrow> bool" where
  "resting m \<longleftrightarrow> MAX_STATES m = ST_MAX_STATES \<and> \<not> m_eventGenerated m \<and> m_pEventData m = 0 \<and>
     (m_currentState m = ST_IDLE \<or> m_currentState m = ST_START \<or> m_currentState m = ST_CHANGE_SPEED)"

definition heap_ok :: "world \<Rightarrow> bool" where
  "heap_ok w \<longleftrightarrow> heap w 0 = None \<and> 0 < fresh w \<and> (\<forall>p \<ge> fresh w. heap w p = None)"

text \<open>
  The contract of a motor.  Setting the speed consumes the event data and makes one request, to
  start or to change the speed; halting a motor that runs makes its halt requests, halting one that
  is stopped nothing.  No event is left over and the heap is as before.
\<close>

locale motor_machine =
  fixes SetSpeed :: "uenv \<Rightarrow> nat \<Rightarrow> motor_object \<Rightarrow> motor_object option"
    and Halt :: "uenv \<Rightarrow> motor_object \<Rightarrow> motor_object option"
    and start_code set_code halt_code :: u32
    and halts :: nat
  assumes set_speed: "resting m \<Longrightarrow> heap_ok w \<Longrightarrow> heap w p = Some (MotorData v) \<Longrightarrow>
      \<exists>m' w'. SetSpeed E p (m, w) = Some (m', w') \<and> resting m' \<and> mode m' = Running v \<and>
        heap w' = (heap w)(p := None) \<and> fresh w' = fresh w \<and>
        (device_ok E \<longrightarrow> requests (trace w') = requests (trace w) @
           [(if mode m = Stopped then start_code else set_code, v)])"
    and halt: "resting m \<Longrightarrow> heap_ok w \<Longrightarrow>
      \<exists>m' w'. Halt E (m, w) = Some (m', w') \<and> resting m' \<and> mode m' = Stopped \<and>
        heap w' = heap w \<and> fresh w \<le> fresh w' \<and>
        (device_ok E \<longrightarrow> requests (trace w') = requests (trace w) @
           (if mode m = Stopped then [] else replicate halts (halt_code, 0)))"
begin

text \<open>The command with its own event data, as \<^verbatim>\<open>Engine.cpp\<close> sends it.\<close>

lemma set_speed_new:
  assumes "resting m" "heap_ok w"
  shows "\<exists>m' w'. (case new_data (MotorData v) w of (p, w1) \<Rightarrow> SetSpeed E p (m, w1)) = Some (m', w') \<and>
    resting m' \<and> mode m' = Running v \<and> heap_ok w' \<and> heap w' = heap w \<and>
    (device_ok E \<longrightarrow> requests (trace w') = requests (trace w) @
       [(if mode m = Stopped then start_code else set_code, v)])"
proof -
  let ?w = "w\<lparr>heap := (heap w)(fresh w \<mapsto> MotorData v), fresh := fresh w + 1\<rparr>"
  have ok: "heap_ok ?w" "heap ?w (fresh w) = Some (MotorData v)"
    using assms(2) by (auto simp: heap_ok_def)
  then obtain m' w' where r: "SetSpeed E (fresh w) (m, ?w) = Some (m', w')" "resting m'"
      "mode m' = Running v" "heap w' = (heap ?w)(fresh w := None)" "fresh w' = fresh ?w"
      "device_ok E \<longrightarrow> requests (trace w') = requests (trace w) @
         [(if mode m = Stopped then start_code else set_code, v)]"
    using set_speed [OF assms(1) ok, of E] by auto
  have "heap w' = heap w"
    using r(4) assms(2) by (auto simp: heap_ok_def)
  moreover have "heap_ok w'"
    using r(5) \<open>heap w' = heap w\<close> assms(2) by (auto simp: heap_ok_def)
  ultimately show ?thesis using r by (simp add: new_data_def)
qed

lemma halt_new:
  assumes "resting m" "heap_ok w"
  shows "\<exists>m' w'. Halt E (m, w) = Some (m', w') \<and> resting m' \<and> mode m' = Stopped \<and>
    heap_ok w' \<and> heap w' = heap w \<and>
    (device_ok E \<longrightarrow> requests (trace w') = requests (trace w) @
       (if mode m = Stopped then [] else replicate halts (halt_code, 0)))"
proof -
  obtain m' w' where r: "Halt E (m, w) = Some (m', w')" "resting m'" "mode m' = Stopped"
      "heap w' = heap w" "fresh w \<le> fresh w'"
      "device_ok E \<longrightarrow> requests (trace w') = requests (trace w) @
         (if mode m = Stopped then [] else replicate halts (halt_code, 0))"
    using halt [OF assms, of E] by auto
  moreover have "heap_ok w'"
    using r(4,5) assms(2) by (auto simp: heap_ok_def)
  ultimately show ?thesis by auto
qed

end

section \<open>Both motors keep it\<close>

lemmas machine_defs = transition_def ExternalEvent_def InternalEvent_def StateEngine_def
  run_state_row_def InvokeStateAction_def GetCurrentState_def SetCurrentState_def new_data_def
  delete_data_def EVENT_IGNORED_def CANNOT_HAPPEN_def motor_states

lemmas left_states = LeftMotor_STATE_MAP_def LeftMotor_ST_Idle_def LeftMotor_ST_Stop_def
  LeftMotor_ST_Start_def LeftMotor_ST_ChangeSpeed_def

lemmas right_states = RightMotor_STATE_MAP_def RightMotor_ST_Idle_def RightMotor_ST_Stop_def
  RightMotor_ST_Start_def RightMotor_ST_ChangeSpeed_def

lemma left_set_speed:
  assumes "resting m" "heap_ok w" "heap w p = Some (MotorData v)"
  shows "LeftMotor_SetSpeed E p (m, w) =
    (let new = (if mode m = Stopped then ST_START else ST_CHANGE_SPEED) in
     Some (m\<lparr>m_currentState := new, m_newState := new, m_currentSpeed := v\<rparr>,
       (exec (device_request E (if mode m = Stopped then MOTOR_1_START_SPEED else MOTOR_1_SET_SPEED) v) w)
         \<lparr>heap := (heap w)(p := None)\<rparr>))"
proof -
  have "p \<noteq> 0" using assms(2,3) unfolding heap_ok_def by (metis option.distinct(1))
  with assms show ?thesis
    by (cases m)
      (auto simp: LeftMotor_SetSpeed_def machine_defs left_states motor_requests resting_def mode_def
        while_step Let_def)
qed

lemma right_set_speed:
  assumes "resting m" "heap_ok w" "heap w p = Some (MotorData v)"
  shows "RightMotor_SetSpeed E p (m, w) =
    (let new = (if mode m = Stopped then ST_START else ST_CHANGE_SPEED) in
     Some (m\<lparr>m_currentState := new, m_newState := new, m_currentSpeed := v\<rparr>,
       (exec (device_request E (if mode m = Stopped then MOTOR_2_START_SPEED else MOTOR_2_SET_SPEED) v) w)
         \<lparr>heap := (heap w)(p := None)\<rparr>))"
proof -
  have "p \<noteq> 0" using assms(2,3) unfolding heap_ok_def by (metis option.distinct(1))
  with assms show ?thesis
    by (cases m)
      (auto simp: RightMotor_SetSpeed_def machine_defs right_states motor_requests resting_def mode_def
        while_step Let_def)
qed

lemma heap_two_gone:
  "heap_ok w \<Longrightarrow> (heap w)(fresh w := None, Suc (fresh w) := None) = heap w"
  "heap_ok w \<Longrightarrow> (heap w)(Suc (fresh w) := None, fresh w := None) = heap w"
  "heap_ok w \<Longrightarrow> (heap w)(fresh w := None) = heap w"
  "heap_ok w \<Longrightarrow> (heap w)(Suc (fresh w) := None) = heap w"
  by (auto simp: heap_ok_def)

lemma left_halt:
  assumes "resting m" "heap_ok w"
  shows "\<exists>m' w'. LeftMotor_Halt E (m, w) = Some (m', w') \<and> resting m' \<and> mode m' = Stopped \<and>
    heap w' = heap w \<and> fresh w \<le> fresh w' \<and> (device_ok E \<longrightarrow> requests (trace w') = requests (trace w) @
      (if mode m = Stopped then [] else [(MOTOR_1_HALT, 0), (MOTOR_1_HALT, 0)]))"
proof -
  have "0 < fresh w" using assms(2) by (simp add: heap_ok_def)
  with assms(1) show ?thesis
    by (cases m)
      (auto simp: LeftMotor_Halt_def machine_defs left_states motor_requests resting_def mode_def
        while_step Let_def device_request_requests heap_two_gone [OF assms(2)]
        intro!: exI [of _ "\<lparr>MAX_STATES = 4, m_currentState = 0, m_newState = 0,
          m_eventGenerated = False, m_pEventData = 0, m_currentSpeed = 0\<rparr>"])
qed

lemma right_halt:
  assumes "resting m" "heap_ok w"
  shows "\<exists>m' w'. RightMotor_Halt E (m, w) = Some (m', w') \<and> resting m' \<and> mode m' = Stopped \<and>
    heap w' = heap w \<and> fresh w \<le> fresh w' \<and> (device_ok E \<longrightarrow> requests (trace w') = requests (trace w) @
      (if mode m = Stopped then [] else replicate 1 (MOTOR_2_HALT, 0)))"
proof -
  have "0 < fresh w" using assms(2) by (simp add: heap_ok_def)
  with assms(1) show ?thesis
    by (cases m)
      (auto simp: RightMotor_Halt_def machine_defs right_states motor_requests resting_def mode_def
        while_step Let_def device_request_requests heap_two_gone [OF assms(2)]
        intro!: exI [of _ "\<lparr>MAX_STATES = 4, m_currentState = 0, m_newState = 0,
          m_eventGenerated = False, m_pEventData = 0, m_currentSpeed = 0\<rparr>"])
qed

interpretation left: motor_machine LeftMotor_SetSpeed LeftMotor_Halt
  MOTOR_1_START_SPEED MOTOR_1_SET_SPEED MOTOR_1_HALT 2
proof (unfold_locales, goal_cases)
  case (1 m w p v E)
  then show ?case
    by (auto simp: left_set_speed Let_def device_request_requests resting_def mode_def motor_states)
next
  case (2 m w E)
  moreover have "replicate 2 (MOTOR_1_HALT, 0::s32) = [(MOTOR_1_HALT, 0), (MOTOR_1_HALT, 0)]"
    by (simp add: numeral_2_eq_2)
  ultimately show ?case using left_halt [of m w E] by presburger
qed

interpretation right: motor_machine RightMotor_SetSpeed RightMotor_Halt
  MOTOR_2_START_SPEED MOTOR_2_SET_SPEED MOTOR_2_HALT 1
proof (unfold_locales, goal_cases)
  case (1 m w p v E)
  then show ?case
    by (auto simp: right_set_speed Let_def device_request_requests resting_def mode_def motor_states)
next
  case (2 m w E)
  then show ?case by (rule right_halt)
qed

section \<open>The engine\<close>

datatype engine_command = Set_right s32 | Set_left s32 | Halt_right | Halt_left

definition engine_do :: "uenv \<Rightarrow> engine_command \<Rightarrow> engine_objects \<Rightarrow> engine_objects option" where
  "engine_do E c g = map_option snd (case c of
       Set_right v \<Rightarrow> set_right_motor_speed E v g
     | Set_left v \<Rightarrow> set_left_motor_speed E v g
     | Halt_right \<Rightarrow> halt_right_motor E g
     | Halt_left \<Rightarrow> halt_left_motor E g)"

text \<open>The specification: two modes, and the requests each command makes of the driver.\<close>

fun spec_next :: "engine_command \<Rightarrow> motor_mode \<times> motor_mode \<Rightarrow> motor_mode \<times> motor_mode" where
  "spec_next (Set_right v) (r, l) = (Running v, l)"
| "spec_next (Set_left v) (r, l) = (r, Running v)"
| "spec_next Halt_right (r, l) = (Stopped, l)"
| "spec_next Halt_left (r, l) = (r, Stopped)"

fun spec_out :: "engine_command \<Rightarrow> motor_mode \<times> motor_mode \<Rightarrow> (u32 \<times> s32) list" where
  "spec_out (Set_right v) (r, l) = [(if r = Stopped then MOTOR_2_START_SPEED else MOTOR_2_SET_SPEED, v)]"
| "spec_out (Set_left v) (r, l) = [(if l = Stopped then MOTOR_1_START_SPEED else MOTOR_1_SET_SPEED, v)]"
| "spec_out Halt_right (r, l) = (if r = Stopped then [] else [(MOTOR_2_HALT, 0)])"
| "spec_out Halt_left (r, l) = (if l = Stopped then [] else [(MOTOR_1_HALT, 0), (MOTOR_1_HALT, 0)])"

definition spec_modes :: "engine_command list \<Rightarrow> motor_mode \<times> motor_mode" where
  "spec_modes cs = fold spec_next cs (Stopped, Stopped)"

fun spec_requests_from :: "motor_mode \<times> motor_mode \<Rightarrow> engine_command list \<Rightarrow> (u32 \<times> s32) list" where
  "spec_requests_from a [] = []"
| "spec_requests_from a (c # cs) = spec_out c a @ spec_requests_from (spec_next c a) cs"

definition spec_requests :: "engine_command list \<Rightarrow> (u32 \<times> s32) list" where
  "spec_requests = spec_requests_from (Stopped, Stopped)"

definition simulates :: "motor_mode \<times> motor_mode \<Rightarrow> engine_objects \<Rightarrow> bool" where
  "simulates a g \<longleftrightarrow> resting (rmotor g) \<and> resting (lmotor g) \<and> a = (mode (rmotor g), mode (lmotor g)) \<and>
     heap_ok (hal_world g) \<and> heap (hal_world g) = Map.empty"

lemma replicate_two: "replicate 2 x = [x, x]"
  by (simp add: numeral_2_eq_2)

lemma engine_do_simulates:
  assumes "simulates a g"
  shows "\<exists>g'. engine_do E c g = Some g' \<and> simulates (spec_next c a) g' \<and>
    (device_ok E \<longrightarrow>
      requests (trace (hal_world g')) = requests (trace (hal_world g)) @ spec_out c a)"
proof -
  let ?w = "hal_world g"
  have g: "resting (rmotor g)" "resting (lmotor g)" "heap_ok ?w" "heap ?w = Map.empty"
    and a: "a = (mode (rmotor g), mode (lmotor g))"
    using assms by (simp_all add: simulates_def)
  show ?thesis
  proof (cases c)
    case (Set_right v)
    with right.set_speed_new [OF g(1,3), where v = v and E = E] g a show ?thesis
      by (auto simp: engine_do_def set_right_motor_speed_def new_data_def simulates_def)
  next
    case (Set_left v)
    with left.set_speed_new [OF g(2,3), where v = v and E = E] g a show ?thesis
      by (auto simp: engine_do_def set_left_motor_speed_def new_data_def simulates_def)
  next
    case Halt_right
    with right.halt_new [OF g(1,3), of E] g a show ?thesis
      by (auto simp: engine_do_def halt_right_motor_def simulates_def)
  next
    case Halt_left
    with left.halt_new [OF g(2,3), of E] g a show ?thesis
      by (auto simp: engine_do_def halt_left_motor_def simulates_def replicate_two)
  qed
qed

lemma engine_run_simulates:
  assumes "simulates a g"
  shows "\<exists>g'. run_events (engine_do E) cs g = Some g' \<and> simulates (fold spec_next cs a) g' \<and>
    (device_ok E \<longrightarrow>
      requests (trace (hal_world g')) = requests (trace (hal_world g)) @ spec_requests_from a cs)"
  using assms
proof (induction cs arbitrary: a g)
  case (Cons c cs)
  from engine_do_simulates [OF Cons.prems, of E c] obtain g1 where g1: "engine_do E c g = Some g1"
      "simulates (spec_next c a) g1" "device_ok E \<longrightarrow>
      requests (trace (hal_world g1)) = requests (trace (hal_world g)) @ spec_out c a"
    by blast
  from Cons.IH [OF g1(2)] g1 show ?case by auto
qed simp

lemma initial_simulates: "simulates (Stopped, Stopped) engine_objects_initial"
  by (simp add: simulates_def engine_objects_initial_def RightMotor_def LeftMotor_def resting_def
      heap_ok_def mode_def motor_states)

text \<open>
  C4.  The engine implements its specification: for every sequence of commands the calls return, so
  no assertion fails, \<^verbatim>\<open>CANNOT_HAPPEN\<close> does not happen, no event data is used after or deleted twice;
  afterwards the motors are in the specified modes, every event data was deleted, and, when the
  device can be opened, the driver got exactly the specified requests.
\<close>

theorem engine_implements_spec:
  "\<exists>g. run_events (engine_do E) cs engine_objects_initial = Some g \<and>
     (mode (rmotor g), mode (lmotor g)) = spec_modes cs \<and> heap (hal_world g) = Map.empty \<and>
     (device_ok E \<longrightarrow> requests (trace (hal_world g)) = spec_requests cs)"
  using engine_run_simulates [OF initial_simulates, of E cs]
  by (auto simp: simulates_def spec_modes_def spec_requests_def engine_objects_initial_def)

definition ready_device :: uenv where
  "ready_device h c = 3"

theorem engine_implements_spec_witness:
  "\<exists>g. run_events (engine_do ready_device) [Set_left 50, Set_left 70, Halt_left] engine_objects_initial = Some g \<and>
     requests (trace (hal_world g)) = [(MOTOR_1_START_SPEED, 50), (MOTOR_1_SET_SPEED, 70),
       (MOTOR_1_HALT, 0), (MOTOR_1_HALT, 0)]"
proof -
  have "device_ok ready_device" by (simp add: device_ok_def ready_device_def)
  then show ?thesis
    using engine_implements_spec [of ready_device "[Set_left 50, Set_left 70, Halt_left]"]
    by (auto simp: spec_requests_def)
qed

text \<open>
  A machine in the transient state \<^verbatim>\<open>ST_STOP\<close> never returns from an external event: both
  transition maps say \<^verbatim>\<open>CANNOT_HAPPEN\<close> there, and the engine asserts that the new state is valid.
\<close>

theorem cannot_happen_faults:
  assumes "m_currentState m = ST_STOP" "MAX_STATES m = ST_MAX_STATES"
  shows "LeftMotor_SetSpeed E p (m, w) = None \<and> LeftMotor_Halt E (m, w) = None \<and>
    RightMotor_SetSpeed E p (m, w) = None \<and> RightMotor_Halt E (m, w) = None"
  using assms
  by (cases m) (auto simp: LeftMotor_SetSpeed_def LeftMotor_Halt_def RightMotor_SetSpeed_def
      RightMotor_Halt_def machine_defs while_step Let_def)

theorem cannot_happen_faults_witness:
  "LeftMotor_Halt ready_device (LeftMotor\<lparr>m_currentState := ST_STOP\<rparr>, hal_world engine_objects_initial) = None"
  using cannot_happen_faults [of "LeftMotor\<lparr>m_currentState := ST_STOP\<rparr>" ready_device 0
      "hal_world engine_objects_initial"]
  by (simp add: LeftMotor_def)

end
