(* ===== verification/System_Server.thy ===== *)
theory System_Server
  imports Shared_Memory Dump_State Motor_Engine
begin

text \<open>
  The system server, \<^verbatim>\<open>src/system/system_server.c\<close>: the threads that serve the message queues, the
  timer thread, the disk watcher and the start of the process.  A thread that waits in a receive is
  given the messages that arrive, in order; when they are used up it waits forever (\<open>Hang\<close>).
\<close>

section \<open>Constants and state\<close>

definition CAMERA_TAKE_PICTURE :: u32 where "CAMERA_TAKE_PICTURE = 1"
definition SENSOR_DATA :: u32 where "SENSOR_DATA = 1"
definition DUMP_STATE :: u32 where "DUMP_STATE = 2"
definition TOY_TEST_FS :: string where "TOY_TEST_FS = ''./fs/''"
definition BUF_LEN :: nat where "BUF_LEN = 1024"
definition LEFT_MOTOR :: u32 where "LEFT_MOTOR = 0"
definition RIGHT_MOTOR :: u32 where "RIGHT_MOTOR = 1"

text \<open>The variables of the file, the motors of the engine, and the sizes the disk watcher printed.\<close>

record system_state = shm_state +
  toy_timer :: s32
  system_loop_exit :: bool
  watchdog_queue :: int
  monitor_queue :: int
  disk_queue :: int
  camera_queue :: int
  engine_queue :: int
  backend_queue :: int
  global_timer_stopped :: bool
  the_sensor_info :: int
  engine :: engine_objects
  disk_reports :: "s32 list"

definition system_initial :: system_state where
  "system_initial = \<lparr>trace = [], shm_id = [0], toy_timer = 0, system_loop_exit = False,
     watchdog_queue = 0, monitor_queue = 0, disk_queue = 0, camera_queue = 0, engine_queue = 0,
     backend_queue = 0, global_timer_stopped = False, the_sensor_info = 0,
     engine = engine_objects_initial, disk_reports = []\<rparr>"

type_synonym 'a system_prog = "(system_state, 'a) state"

section \<open>Time\<close>

definition sighandler_timer :: "uenv \<Rightarrow> unit system_prog" where
  "sighandler_timer E = do {
     perform E (Guard (MutexLock ''toy_timer_mutex''));
     modify (\<lambda>s. s\<lparr>toy_timer := toy_timer s + 1\<rparr>);
     perform E (Guard (MutexUnlock ''toy_timer_mutex'')) }"

definition set_periodic_timer :: "uenv \<Rightarrow> int \<Rightarrow> int \<Rightarrow> unit system_prog" where
  "set_periodic_timer E sec_delay usec_delay = perform E (Process (Setitimer sec_delay usec_delay))"

text \<open>Unsigned milliseconds to seconds and nanoseconds.\<close>

definition posix_sleep_ms :: "uenv \<Rightarrow> u32 \<Rightarrow> int system_prog" where
  "posix_sleep_ms E timeout_ms =
     invoke E (Process (Nanosleep (uint (timeout_ms div 1000)) (uint ((timeout_ms mod 1000) * (1000 * 1000)))))"

definition timer_expire_signal_handler :: "uenv \<Rightarrow> unit system_prog" where
  "timer_expire_signal_handler E = perform E (Guard SemPost)"

text \<open>The loop of the timer thread; the list says of every wait whether \<^verbatim>\<open>errno\<close> is \<^verbatim>\<open>EINTR\<close> after it.\<close>

primrec timer_loop :: "uenv \<Rightarrow> bool list \<Rightarrow> unit outcome system_prog" where
  "timer_loop E [] = do {
     stopped \<leftarrow> gets global_timer_stopped;
     State_Monad.return (if stopped then Inr () else Inl Hang) }"
| "timer_loop E (eintr # rest) = do {
     stopped \<leftarrow> gets global_timer_stopped;
     if stopped then State_Monad.return (Inr ())
     else do {
       rc \<leftarrow> invoke E (Guard SemWait);
       if rc = -1 \<and> eintr then timer_loop E rest
       else if rc = -1 then State_Monad.return (Inl (Exit (-1)))
       else do { sighandler_timer E; timer_loop E rest } } }"

definition timer_thread :: "uenv \<Rightarrow> bool list \<Rightarrow> unit outcome system_prog" where
  "timer_thread E waits = do {
     _ \<leftarrow> invoke E (Process (Sigaction ''SIGALRM''));
     set_periodic_timer E 1 0;
     timer_loop E waits }"

section \<open>Threads that receive messages\<close>

primrec receive_loop :: "uenv \<Rightarrow> (system_state \<Rightarrow> int) \<Rightarrow> ('m \<Rightarrow> unit outcome system_prog) \<Rightarrow> 'm list \<Rightarrow>
    unit outcome system_prog" where
  "receive_loop E queue serve [] = State_Monad.return (Inl Hang)"
| "receive_loop E queue serve (msg # msgs) = do {
     q \<leftarrow> gets queue;
     mqretcode \<leftarrow> mq_receive E q;
     asserting (0 \<le> mqretcode) (then_do (serve msg) (\<lambda>_. receive_loop E queue serve msgs)) }"

definition watchdog_thread :: "uenv \<Rightarrow> toy_msg_t list \<Rightarrow> unit outcome system_prog" where
  "watchdog_thread E = receive_loop E watchdog_queue (\<lambda>msg. State_Monad.return (Inr ()))"

text \<open>
  A message for the monitor.  \<open>segment\<close> is what the shared memory holds when it is read; the pointer
  that \<^verbatim>\<open>toy_shm_attach\<close> returned is used without a look at it.  \<open>date\<close> and \<open>files\<close> are for the dump.
\<close>

definition serve_monitor :: "uenv \<Rightarrow> string \<Rightarrow> (string \<Rightarrow> dump_source) \<Rightarrow> toy_msg_t \<times> shm_sensor_t \<Rightarrow>
    unit outcome system_prog" where
  "serve_monitor E date files = (\<lambda>(msg, segment).
     if msg_type msg = SENSOR_DATA then do {
       ptr \<leftarrow> toy_shm_attach E (sint (param1 msg));
       modify (\<lambda>s. s\<lparr>the_sensor_info := ptr\<rparr>);
       if ptr = -1 \<or> ptr = 0 then State_Monad.return (Inl Bad_access)
       else do {
         q \<leftarrow> gets backend_queue;
         mqretcode \<leftarrow> mq_send E q (Robot_info MESSAGE_ID_INFO 12341234 (c_div (temp segment) 100));
         asserting (mqretcode = 0) (do {
           _ \<leftarrow> toy_shm_detach E ptr;
           State_Monad.return (Inr ()) }) } }
     else if msg_type msg = DUMP_STATE then do {
       _ \<leftarrow> dump_state E date files;
       State_Monad.return (Inr ()) }
     else State_Monad.return (Inr ()))"

definition monitor_thread :: "uenv \<Rightarrow> string \<Rightarrow> (string \<Rightarrow> dump_source) \<Rightarrow> (toy_msg_t \<times> shm_sensor_t) list \<Rightarrow>
    unit outcome system_prog" where
  "monitor_thread E date files = receive_loop E monitor_queue (serve_monitor E date files)"

text \<open>
  The module of the camera is loaded from a library (\<^verbatim>\<open>src/hal/hardware.c\<close>; the result is the status
  and the module pointer); its operations are calls of that library.
\<close>

definition EINVAL :: int where "EINVAL = 22"

definition load :: "uenv \<Rightarrow> int \<Rightarrow> (int \<times> int) system_prog" where
  "load E p_Hmi = do {
     handle \<leftarrow> invoke E (Process (Dlopen ''./libcamera.so''));
     if handle = 0 then State_Monad.return (- EINVAL, p_Hmi)
     else do {
       hmi \<leftarrow> invoke E (Process (Dlsym ''HMI''));
       if hmi = 0 then do {
         perform E (Process Dlclose);
         State_Monad.return (- EINVAL, p_Hmi) }
       else State_Monad.return (0, hmi) } }"

definition hw_get_camera_module :: "uenv \<Rightarrow> (int \<times> int) system_prog" where
  "hw_get_camera_module E = load E 0"

definition serve_camera :: "uenv \<Rightarrow> toy_msg_t \<Rightarrow> unit outcome system_prog" where
  "serve_camera E msg =
     (if msg_type msg = CAMERA_TAKE_PICTURE then do {
        perform E (Process (Camera ''take_picture''));
        State_Monad.return (Inr ()) }
      else if msg_type msg = DUMP_STATE then do {
        perform E (Process (Camera ''dump''));
        State_Monad.return (Inr ()) }
      else State_Monad.return (Inr ()))"

definition camera_service_thread :: "uenv \<Rightarrow> toy_msg_t list \<Rightarrow> unit outcome system_prog" where
  "camera_service_thread E msgs = do {
     (ret, module) \<leftarrow> hw_get_camera_module E;
     asserting (ret = 0) (receive_loop E camera_queue (serve_camera E) msgs) }"

text \<open>A call of the engine that does not come back leaves the thread where it is.\<close>

definition call_engine :: "(engine_objects \<Rightarrow> (int \<times> engine_objects) option) \<Rightarrow> unit outcome system_prog" where
  "call_engine f = State (\<lambda>s. case f (engine s) of
     None \<Rightarrow> (Inl Hang, s) | Some (_, g) \<Rightarrow> (Inr (), s\<lparr>engine := g\<rparr>))"

definition serve_engine :: "uenv \<Rightarrow> robot_message_t \<Rightarrow> unit outcome system_prog" where
  "serve_engine E msg =
     (if rm_id msg = MESSAGE_ID_ENGINE \<and> unit_id msg = LEFT_MOTOR then
        (if motor_speed msg = 0 then call_engine (halt_left_motor E)
         else call_engine (set_left_motor_speed E (motor_speed msg)))
      else if rm_id msg = MESSAGE_ID_ENGINE \<and> unit_id msg = RIGHT_MOTOR then
        (if motor_speed msg = 0 then call_engine (halt_right_motor E)
         else call_engine (set_right_motor_speed E (motor_speed msg)))
      else State_Monad.return (Inr ()))"

definition engine_thread :: "uenv \<Rightarrow> robot_message_t list \<Rightarrow> unit outcome system_prog" where
  "engine_thread E = receive_loop E engine_queue (serve_engine E)"

section \<open>The disk watcher\<close>

text \<open>A file with its size, or a directory with the entries \<^verbatim>\<open>readdir\<close> returns.\<close>

datatype node = Plain "64 word" | Directory "(string \<times> node) list"

text \<open>
  The size of a directory: the path of an entry is written into a buffer of 1024 bytes without a
  look at its length, and no directory is closed.
\<close>

fun get_directory_size :: "uenv \<Rightarrow> string \<Rightarrow> (string \<times> node) list \<Rightarrow> 64 word outcome system_prog"
  and add_entries :: "uenv \<Rightarrow> string \<Rightarrow> (string \<times> node) list \<Rightarrow> 64 word \<Rightarrow> 64 word outcome system_prog" where
  "get_directory_size E dirname entries = do {
     dir \<leftarrow> invoke E (File (Opendir dirname));
     if dir = 0 then State_Monad.return (Inr 0) else add_entries E dirname entries 0 }"
| "add_entries E dirname [] total_size = State_Monad.return (Inr total_size)"
| "add_entries E dirname ((d_name, n) # dit) total_size =
     (if d_name = ''.'' \<or> d_name = ''..'' then add_entries E dirname dit total_size
      else if 1024 \<le> length dirname + 1 + length d_name then State_Monad.return (Inl Bad_access)
      else do {
        let filePath = dirname @ ''/'' @ d_name;
        r \<leftarrow> invoke E (File (Lstat filePath));
        if r \<noteq> 0 then add_entries E dirname dit total_size
        else (case n of
            Directory sub \<Rightarrow> then_do (get_directory_size E filePath sub)
              (\<lambda>dir_size. add_entries E dirname dit (total_size + dir_size))
          | Plain st_size \<Rightarrow> add_entries E dirname dit (total_size + st_size)) })"

declare get_directory_size.simps [simp del] add_entries.simps [simp del]

text \<open>
  The loop of the disk watcher; the contents of the directory at each event are the argument.  The
  events that were read are stepped over without effect.
\<close>

primrec disk_loop :: "uenv \<Rightarrow> int \<Rightarrow> (string \<times> node) list list \<Rightarrow> unit outcome system_prog" where
  "disk_loop E inotifyFd [] = State_Monad.return (Inl Hang)"
| "disk_loop E inotifyFd (contents # rest) = do {
     numRead \<leftarrow> invoke E (File (Read inotifyFd BUF_LEN));
     if numRead = 0 \<or> numRead = -1 then State_Monad.return (Inr ())
     else then_do (get_directory_size E TOY_TEST_FS contents) (\<lambda>total_size. do {
       modify (\<lambda>s. s\<lparr>disk_reports := disk_reports s @ [ucast total_size]\<rparr>);
       disk_loop E inotifyFd rest }) }"

definition disk_service_thread :: "uenv \<Rightarrow> (string \<times> node) list list \<Rightarrow> unit outcome system_prog" where
  "disk_service_thread E contents = do {
     inotifyFd \<leftarrow> invoke E (Guard InotifyInit);
     if inotifyFd = -1 then State_Monad.return (Inr ())
     else do {
       wd \<leftarrow> invoke E (Guard (InotifyAddWatch TOY_TEST_FS));
       if wd = -1 then State_Monad.return (Inr ())
       else disk_loop E inotifyFd contents } }"

section \<open>The process\<close>

text \<open>Nobody calls \<^verbatim>\<open>signal_exit\<close>.\<close>

definition signal_exit :: "uenv \<Rightarrow> unit system_prog" where
  "signal_exit E = do {
     perform E (Guard (MutexLock ''system_loop_mutex''));
     modify (\<lambda>s. s\<lparr>system_loop_exit := True\<rparr>);
     perform E (Guard CondSignal);
     perform E (Guard (MutexUnlock ''system_loop_mutex'')) }"

definition open_queue :: "uenv \<Rightarrow> string \<Rightarrow> (int \<Rightarrow> system_state \<Rightarrow> system_state) \<Rightarrow> unit outcome system_prog" where
  "open_queue E name assign = do {
     q \<leftarrow> mq_open E name;
     modify (assign q);
     asserting (q \<noteq> -1) (State_Monad.return (Inr ())) }"

definition open_queues :: "uenv \<Rightarrow> unit outcome system_prog" where
  "open_queues E =
     then_do (open_queue E ''/watchdog_queue'' (\<lambda>q s. s\<lparr>watchdog_queue := q\<rparr>)) (\<lambda>_.
     then_do (open_queue E ''/monitor_queue'' (\<lambda>q s. s\<lparr>monitor_queue := q\<rparr>)) (\<lambda>_.
     then_do (open_queue E ''/disk_queue'' (\<lambda>q s. s\<lparr>disk_queue := q\<rparr>)) (\<lambda>_.
     then_do (open_queue E ''/camera_queue'' (\<lambda>q s. s\<lparr>camera_queue := q\<rparr>)) (\<lambda>_.
     then_do (open_queue E ''/mq_be_to_sys'' (\<lambda>q s. s\<lparr>engine_queue := q\<rparr>)) (\<lambda>_.
     open_queue E ''/mq_sys_to_be'' (\<lambda>q s. s\<lparr>backend_queue := q\<rparr>))))))"

text \<open>A call that returns an error number, checked by \<^verbatim>\<open>assert(retcode == 0)\<close>.\<close>

definition must :: "uenv \<Rightarrow> process_call \<Rightarrow> unit outcome system_prog" where
  "must E c = do {
     retcode \<leftarrow> invoke E (Process c);
     asserting (retcode = 0) (State_Monad.return (Inr ())) }"

definition start_threads :: "uenv \<Rightarrow> unit outcome system_prog" where
  "start_threads E = do {
     for_each (\<lambda>name. perform E (Process (PthreadCreate name)))
       [''watchdog_thread'', ''disk_service_thread'', ''monitor_thread'', ''camera_service_thread'',
        ''timer_thread''];
     then_do (must E (PthreadAttr ''init'')) (\<lambda>_.
     then_do (must E (PthreadAttr ''setschedpolicy'')) (\<lambda>_.
     then_do (must E (PthreadAttr ''getschedparam'')) (\<lambda>_.
     then_do (must E (PthreadAttr ''setschedparam'')) (\<lambda>_.
     must E (PthreadCreate ''engine_thread''))))) }"

text \<open>
  Waiting for the exit flag: the list holds the value the flag has after every wake up.  After it was
  seen the process sleeps forever.
\<close>

definition system_done :: "uenv \<Rightarrow> int outcome system_prog" where
  "system_done E = do {
     perform E (Guard (MutexUnlock ''system_loop_mutex''));
     State_Monad.return (Inl Hang) }"

primrec wait_exit :: "uenv \<Rightarrow> bool list \<Rightarrow> int outcome system_prog" where
  "wait_exit E [] = do {
     exit \<leftarrow> gets system_loop_exit;
     if exit then system_done E else State_Monad.return (Inl Hang) }"
| "wait_exit E (flag # rest) = do {
     exit \<leftarrow> gets system_loop_exit;
     if exit then system_done E
     else do {
       perform E (Guard CondWait);
       modify (\<lambda>s. s\<lparr>system_loop_exit := flag\<rparr>);
       wait_exit E rest } }"

definition system_server :: "uenv \<Rightarrow> bool list \<Rightarrow> int outcome system_prog" where
  "system_server E wakeups =
     then_do (open_queues E) (\<lambda>_.
     then_do (start_threads E) (\<lambda>_. do {
       perform E (Guard (MutexLock ''system_loop_mutex''));
       wait_exit E wakeups }))"

definition create_system_server :: "uenv \<Rightarrow> bool list \<Rightarrow> int outcome system_prog" where
  "create_system_server E wakeups = do {
     pid \<leftarrow> invoke E (Process Fork);
     if pid = 0 then do {
       r \<leftarrow> invoke E (Process (Prctl ''system_server''));
       if r = 0 then then_do (system_server E wakeups) (\<lambda>_. State_Monad.return (Inr 0))
       else State_Monad.return (Inr 0) }
     else State_Monad.return (Inr 0) }"

section \<open>The size of a tree\<close>

fun tree_bytes :: "(string \<times> node) list \<Rightarrow> nat" where
  "tree_bytes [] = 0"
| "tree_bytes ((name, n) # es) = (if name = ''.'' \<or> name = ''..'' then 0
     else case n of Plain sz \<Rightarrow> unat sz | Directory sub \<Rightarrow> tree_bytes sub) + tree_bytes es"

text \<open>Every path below a directory whose own path has \<open>n\<close> characters fits into the buffer.\<close>

fun paths_fit :: "nat \<Rightarrow> (string \<times> node) list \<Rightarrow> bool" where
  "paths_fit n [] = True"
| "paths_fit n ((name, d) # es) \<longleftrightarrow> (name = ''.'' \<or> name = ''..'' \<or>
     n + 1 + length name < 1024 \<and>
     (case d of Plain _ \<Rightarrow> True | Directory sub \<Rightarrow> paths_fit (n + 1 + length name) sub)) \<and> paths_fit n es"

definition readable :: "uenv \<Rightarrow> bool" where
  "readable E \<longleftrightarrow> (\<forall>h d. E h (File (Opendir d)) \<noteq> 0) \<and> (\<forall>h p. E h (File (Lstat p)) = 0)"

lemma readableD:
  "readable E \<Longrightarrow> E h (File (Opendir d)) \<noteq> 0" "readable E \<Longrightarrow> E h (File (Lstat p)) = 0"
  by (simp_all add: readable_def)

lemma directory_size_result:
  "readable E \<Longrightarrow> result (get_directory_size E dirname es) s =
     (if paths_fit (length dirname) es then Inr (of_nat (tree_bytes es)) else Inl Bad_access)"
  "readable E \<Longrightarrow> result (add_entries E dirname es acc) s =
     (if paths_fit (length dirname) es then Inr (acc + of_nat (tree_bytes es)) else Inl Bad_access)"
proof (induction E dirname es and E dirname es acc arbitrary: s and s
    rule: get_directory_size_add_entries.induct)
  case (1 E dirname es)
  from 1(1) [of 1] 1(2) show ?case by (simp add: get_directory_size.simps exec_simps readableD)
next
  case (2 E dirname acc)
  then show ?case by (simp add: add_entries.simps)
next
  case (3 E dirname name n dit acc)
  let ?p = "dirname @ ''/'' @ name"
  show ?case
  proof (cases "(name = ''.'' \<or> name = ''..'') \<or> 1024 \<le> length dirname + 1 + length name")
    case True
    with 3(1,6) show ?thesis by (auto simp: add_entries.simps)
  next
    case False
    then have f: "\<not> (name = ''.'' \<or> name = ''..'')" "\<not> 1024 \<le> length dirname + 1 + length name" by auto
    let ?s = "s\<lparr>trace := trace s @ [(File (Lstat ?p), 0)]\<rparr>"
    have run: "result (add_entries E dirname ((name, n) # dit) acc) s = (case n of
        Directory sub \<Rightarrow> result (then_do (get_directory_size E ?p sub)
          (\<lambda>d. add_entries E dirname dit (acc + d))) ?s
      | Plain sz \<Rightarrow> result (add_entries E dirname dit (acc + sz)) ?s)"
      using f 3(6) by (simp add: add_entries.simps Let_def run_invoke readableD split: node.split)
    show ?thesis
    proof (cases n)
      case (Plain sz)
      with f 3(3) [OF f refl _ Plain, of 0] 3(6) run show ?thesis by (auto simp: add.assoc)
    next
      case (Directory sub)
      obtain r u where ru: "run_state (get_directory_size E ?p sub) ?s = (r, u)" by force
      with 3(4) [OF f refl _ Directory, of 0 ?s] 3(6)
      have r: "r = (if paths_fit (length ?p) sub then Inr (of_nat (tree_bytes sub)) else Inl Bad_access)"
        by simp
      with f Directory ru run 3(5) [OF f refl _ Directory, of 0] 3(6) show ?thesis
        by (auto simp: run_then_do add.assoc)
    qed
  qed
qed

text \<open>The \<^verbatim>\<open>long\<close> of the size cut to the \<^verbatim>\<open>int\<close> that is printed.\<close>

lemma long_to_int: "(ucast (of_nat n :: 64 word) :: s32) = of_nat n"
  by (simp add: unsigned_of_nat word_of_nat_eq_iff take_bit_take_bit)

lemma directory_size_reports:
  "keeps disk_reports (get_directory_size E dirname es)"
  "keeps disk_reports (add_entries E dirname es acc)"
proof (induction E dirname es and E dirname es acc rule: get_directory_size_add_entries.induct)
  case (1 E dirname es)
  then show ?case unfolding get_directory_size.simps by (intro keeps_intros) auto
next
  case (2 E dirname acc)
  then show ?case by (simp add: add_entries.simps keeps_intros)
next
  case (3 E dirname name n dit acc)
  then show ?case unfolding add_entries.simps Let_def
    by (cases n) (auto intro!: keeps_intros)
qed

section \<open>Directories that stay open\<close>

text \<open>The directory streams a trace has opened; the program never closes one.\<close>

fun open_dirs :: "(ucall \<times> int) list \<Rightarrow> nat" where
  "open_dirs [] = 0"
| "open_dirs ((File (Opendir d), r) # h) = (if r = 0 then 0 else 1) + open_dirs h"
| "open_dirs (_ # h) = open_dirs h"

lemma open_dirs_append [simp]: "open_dirs (g @ h) = open_dirs g + open_dirs h"
  by (induction g rule: open_dirs.induct) simp_all

text \<open>The number of directories of a tree, itself not counted.\<close>

fun tree_dirs :: "(string \<times> node) list \<Rightarrow> nat" where
  "tree_dirs [] = 0"
| "tree_dirs ((name, n) # es) = (if name = ''.'' \<or> name = ''..'' then 0
     else case n of Plain sz \<Rightarrow> 0 | Directory sub \<Rightarrow> Suc (tree_dirs sub)) + tree_dirs es"

lemma directory_size_open:
  "readable E \<Longrightarrow> paths_fit (length dirname) es \<Longrightarrow>
     open_dirs (trace (exec (get_directory_size E dirname es) s)) = open_dirs (trace s) + Suc (tree_dirs es)"
  "readable E \<Longrightarrow> paths_fit (length dirname) es \<Longrightarrow>
     open_dirs (trace (exec (add_entries E dirname es acc) s)) = open_dirs (trace s) + tree_dirs es"
proof (induction E dirname es and E dirname es acc arbitrary: s and s
    rule: get_directory_size_add_entries.induct)
  case (1 E dirname es)
  from 1(1) [of 1] 1(2,3) show ?case by (simp add: get_directory_size.simps exec_simps readableD)
next
  case (2 E dirname acc)
  then show ?case by (simp add: add_entries.simps)
next
  case (3 E dirname name n dit acc)
  let ?p = "dirname @ ''/'' @ name"
  show ?case
  proof (cases "name = ''.'' \<or> name = ''..''")
    case True
    moreover have "paths_fit (length dirname) dit" using 3(7) by simp
    ultimately show ?thesis using 3(1) [OF True 3(6)] by (auto simp: add_entries.simps)
  next
    case False
    with 3(7) have f: "\<not> (name = ''.'' \<or> name = ''..'')" "\<not> 1024 \<le> length dirname + 1 + length name" by auto
    let ?s = "s\<lparr>trace := trace s @ [(File (Lstat ?p), 0)]\<rparr>"
    have run: "exec (add_entries E dirname ((name, n) # dit) acc) s = (case n of
        Directory sub \<Rightarrow> exec (then_do (get_directory_size E ?p sub)
          (\<lambda>d. add_entries E dirname dit (acc + d))) ?s
      | Plain sz \<Rightarrow> exec (add_entries E dirname dit (acc + sz)) ?s)"
      using f 3(6) by (simp add: add_entries.simps Let_def run_invoke readableD split: node.split)
    show ?thesis
    proof (cases n)
      case (Plain sz)
      with f 3(3) [OF f refl _ Plain, of 0] 3(6,7) run show ?thesis by auto
    next
      case (Directory sub)
      obtain r u where ru: "run_state (get_directory_size E ?p sub) ?s = (r, u)" by force
      have fit: "paths_fit (length ?p) sub" using 3(7) f Directory by simp
      have "open_dirs (trace u) = open_dirs (trace s) + Suc (tree_dirs sub)"
        using 3(4) [OF f refl _ Directory, of 0 ?s] 3(6) fit ru by simp
      moreover have "r = Inr (of_nat (tree_bytes sub))"
        using directory_size_result(1) [OF 3(6), of ?p sub ?s] fit ru by simp
      ultimately show ?thesis
        using f Directory ru run 3(5) [OF f refl _ Directory, of 0] 3(6,7)
        by (auto simp: run_then_do)
    qed
  qed
qed

section \<open>The engine thread\<close>

definition receiving :: "uenv \<Rightarrow> bool" where
  "receiving E \<longleftrightarrow> (\<forall>h q. 0 \<le> E h (Queue (MqReceive q)))"

text \<open>The command of the engine a message stands for, if any.\<close>

definition engine_command :: "robot_message_t \<Rightarrow> engine_command option" where
  "engine_command msg =
     (if rm_id msg \<noteq> MESSAGE_ID_ENGINE then None
      else if unit_id msg = LEFT_MOTOR then
        Some (if motor_speed msg = 0 then Halt_left else Set_left (motor_speed msg))
      else if unit_id msg = RIGHT_MOTOR then
        Some (if motor_speed msg = 0 then Halt_right else Set_right (motor_speed msg))
      else None)"

lemma serve_engine_command:
  "run_state (serve_engine E msg) s = (case engine_command msg of
     None \<Rightarrow> (Inr (), s)
   | Some c \<Rightarrow> (case engine_do E c (engine s) of
        None \<Rightarrow> (Inl Hang, s) | Some g \<Rightarrow> (Inr (), s\<lparr>engine := g\<rparr>)))"
  by (auto simp: serve_engine_def engine_command_def call_engine_def engine_do_def
      LEFT_MOTOR_def RIGHT_MOTOR_def split: option.splits)

lemma engine_thread_runs:
  assumes "receiving E" "simulates a (engine s)"
  shows "result (engine_thread E msgs) s = Inl Hang \<and>
    (\<exists>g. run_events (engine_do E) (List.map_filter engine_command msgs) (engine s) = Some g \<and>
       engine (exec (engine_thread E msgs) s) = g)"
  using assms(2)
proof (induction msgs arbitrary: a s)
  case Nil
  then show ?case by (simp add: engine_thread_def map_filter_simps)
next
  case (Cons msg msgs)
  have ok: "0 \<le> E h (Queue (MqReceive q))" for h q using assms(1) by (simp add: receiving_def)
  let ?s = "s\<lparr>trace := trace s @ [(Queue (MqReceive (engine_queue s)),
    E (trace s) (Queue (MqReceive (engine_queue s))))]\<rparr>"
  have run: "run_state (engine_thread E (msg # msgs)) s =
      run_state (then_do (serve_engine E msg) (\<lambda>_. engine_thread E msgs)) ?s"
    using ok by (simp add: engine_thread_def run_gets run_invoke)
  show ?case
  proof (cases "engine_command msg")
    case None
    with Cons.IH [of a ?s] Cons.prems run show ?thesis
      by (simp add: run_then_do serve_engine_command map_filter_simps)
  next
    case (Some c)
    from engine_do_simulates [OF Cons.prems, of E c] obtain g
      where g: "engine_do E c (engine s) = Some g" "simulates (spec_next c a) g" by blast
    with Some Cons.IH [of "spec_next c a" "?s\<lparr>engine := g\<rparr>"] run show ?thesis
      by (simp add: run_then_do serve_engine_command map_filter_simps)
  qed
qed

section \<open>Properties\<close>

text \<open>
  C5.  The engine thread implements the specification of the engine on the messages of the back end:
  it serves every message and waits for the next one; a message for a motor with speed 0 halts it, any other
  speed is set, and messages with another identifier or motor are ignored.  The motors end up in
  the specified modes and, when the device can be opened, the driver gets exactly the specified
  requests.
\<close>

theorem engine_thread_implements_spec:
  assumes "receiving E"
  shows "result (engine_thread E msgs) system_initial = Inl Hang \<and>
    (let g = engine (exec (engine_thread E msgs) system_initial);
         cs = List.map_filter engine_command msgs
     in (mode (rmotor g), mode (lmotor g)) = spec_modes cs \<and>
        (device_ok E \<longrightarrow> requests (trace (hal_world g)) = spec_requests cs))"
proof -
  have i: "simulates (Stopped, Stopped) (engine system_initial)"
    using initial_simulates by (simp add: system_initial_def)
  show ?thesis
    using engine_thread_runs [OF assms i, of msgs]
      engine_run_simulates [OF i, of E "List.map_filter engine_command msgs"]
    by (auto simp: Let_def simulates_def spec_modes_def spec_requests_def system_initial_def
        engine_objects_initial_def)
qed

definition demo_messages :: "robot_message_t list" where
  "demo_messages = [
     \<lparr>rm_id = MESSAGE_ID_ENGINE, unit_id = RIGHT_MOTOR, motor_speed = 30, info_temperature = 0\<rparr>,
     \<lparr>rm_id = MESSAGE_ID_INFO, unit_id = LEFT_MOTOR, motor_speed = 50, info_temperature = 0\<rparr>,
     \<lparr>rm_id = MESSAGE_ID_ENGINE, unit_id = RIGHT_MOTOR, motor_speed = 0, info_temperature = 0\<rparr>]"

theorem engine_thread_implements_spec_witness:
  "requests (trace (hal_world (engine (exec (engine_thread ready_device demo_messages) system_initial)))) =
     [(MOTOR_2_START_SPEED, 30), (MOTOR_2_HALT, 0)]"
proof -
  have "receiving ready_device" "device_ok ready_device"
    by (simp_all add: receiving_def device_ok_def ready_device_def)
  with engine_thread_implements_spec [of ready_device demo_messages] show ?thesis
    by (simp add: Let_def demo_messages_def engine_command_def map_filter_simps spec_requests_def
        MESSAGE_ID_ENGINE_def MESSAGE_ID_INFO_def LEFT_MOTOR_def RIGHT_MOTOR_def)
qed

text \<open>
  C36.  The disk watcher: as long as every path fits into the buffer, each event makes it print the
  bytes of all files of the tree (reduced to 32 bits), and each event leaves one directory stream
  open for every directory of the tree.
\<close>

theorem disk_watcher_reports:
  assumes "readable E" "list_all (paths_fit (length TOY_TEST_FS)) contents"
    and "\<And>h. 0 < E h (File (Read fd BUF_LEN))"
  shows "result (disk_loop E fd contents) s = Inl Hang \<and>
    disk_reports (exec (disk_loop E fd contents) s) =
      disk_reports s @ map (\<lambda>c. of_nat (tree_bytes c)) contents \<and>
    open_dirs (trace (exec (disk_loop E fd contents) s)) =
      open_dirs (trace s) + (\<Sum>c\<leftarrow>contents. Suc (tree_dirs c))"
  using assms(2)
proof (induction contents arbitrary: s)
  case (Cons c cs)
  let ?c = "File (Read fd BUF_LEN)"
  let ?s = "s\<lparr>trace := trace s @ [(?c, E (trace s) ?c)]\<rparr>"
  obtain r u where ru: "run_state (get_directory_size E TOY_TEST_FS c) ?s = (r, u)" by force
  have fit: "paths_fit (length TOY_TEST_FS) c" using Cons.prems by simp
  have r: "r = Inr (of_nat (tree_bytes c))"
    using directory_size_result(1) [OF assms(1), of TOY_TEST_FS c ?s] fit ru by simp
  have o: "open_dirs (trace u) = open_dirs (trace s) + Suc (tree_dirs c)"
    using directory_size_open(1) [OF assms(1) fit, of ?s] ru by simp
  have d: "disk_reports u = disk_reports s"
    using keepsD [OF directory_size_reports(1), of E TOY_TEST_FS c ?s] ru by simp
  have "E h ?c \<noteq> 0" "E h ?c \<noteq> -1" for h using assms(3) [of h] by auto
  then have run: "run_state (disk_loop E fd (c # cs)) s =
      run_state (disk_loop E fd cs) (u\<lparr>disk_reports := disk_reports u @ [of_nat (tree_bytes c)]\<rparr>)"
    using ru r by (simp add: run_invoke run_then_do run_modify long_to_int)
  show ?case unfolding run using Cons o d by simp
qed simp

definition small_disk :: uenv where "small_disk h c = (case c of File (Lstat _) \<Rightarrow> 0 | _ \<Rightarrow> 1)"

theorem disk_watcher_reports_witness:
  "disk_reports (exec (disk_loop small_disk 3
      [[(''.'', Directory []), (''a'', Plain 5), (''d'', Directory [(''b'', Plain 7)])]]) system_initial) = [12] \<and>
   open_dirs (trace (exec (disk_loop small_disk 3
      [[(''.'', Directory []), (''a'', Plain 5), (''d'', Directory [(''b'', Plain 7)])]]) system_initial)) = 2"
proof -
  have "readable small_disk" "\<And>h. 0 < small_disk h (File (Read 3 BUF_LEN))"
    by (simp_all add: readable_def small_disk_def)
  moreover have "list_all (paths_fit (length TOY_TEST_FS))
      [[(''.'', Directory []), (''a'', Plain 5), (''d'', Directory [(''b'', Plain 7)])]]"
    by (simp add: TOY_TEST_FS_def)
  ultimately show ?thesis
    using disk_watcher_reports [of small_disk
        "[[(''.'', Directory []), (''a'', Plain 5), (''d'', Directory [(''b'', Plain 7)])]]" 3 system_initial]
    by (simp add: system_initial_def)
qed

text \<open>
  C37.  A path of 1024 characters or more below the watched directory is written past the end of the
  buffer of \<^verbatim>\<open>get_directory_size\<close>, and only such a path is.
\<close>

theorem directory_path_overflow:
  assumes "readable E"
  shows "result (get_directory_size E dirname es) s = Inl Bad_access \<longleftrightarrow> \<not> paths_fit (length dirname) es"
  using directory_size_result(1) [OF assms, of dirname es s] by simp

theorem directory_path_overflow_witness:
  "result (get_directory_size small_disk TOY_TEST_FS
      [(replicate 1020 (CHR ''x''), Plain 1)]) system_initial = Inl Bad_access"
proof -
  have "readable small_disk" by (simp add: readable_def small_disk_def)
  moreover have "replicate 1020 (CHR ''x'') \<noteq> ''.''" "replicate 1020 (CHR ''x'') \<noteq> ''..''"
    by (auto dest: arg_cong [where f = length])
  ultimately show ?thesis
    using directory_path_overflow [of small_disk TOY_TEST_FS "[(replicate 1020 (CHR ''x''), Plain 1)]" system_initial]
    by (simp add: TOY_TEST_FS_def)
qed

text \<open>What the unsigned field of the message holds for whole degrees.\<close>

lemma whole_degrees:
  fixes t :: s32
  shows "uint (word_of_int (sint t sdiv 100) :: u32) =
    (if sint t \<le> - 100 then 2 ^ 32 - (- sint t) div 100 else sint t sdiv 100)"
proof -
  have range: "- 2147483648 \<le> sint t" "sint t < 2147483648"
    using sint_range32 [of t] by auto
  consider "sint t \<le> - 100" | "- 100 < sint t" "sint t < 0" | "0 \<le> sint t" by linarith
  then show ?thesis
  proof cases
    case 1
    let ?d = "(- sint t) div 100"
    have "0 < ?d" "?d < 4294967296" using 1 range by linarith+
    then have "(- ?d) mod 4294967296 = 4294967296 - ?d" by (subst zmod_zminus1_eq_if) simp
    moreover have "uint (word_of_int (- ?d) :: u32) = (- ?d) mod 4294967296"
      unfolding uint_word_of_int by simp
    ultimately show ?thesis using 1 by (simp add: sdiv_neg)
  next
    case 2
    then have "(- sint t) div 100 = 0" by simp
    with 2 show ?thesis by (simp add: sdiv_neg)
  next
    case 3
    then have "0 \<le> sint t div 100" "sint t div 100 < 4294967296"
      using range by linarith+
    with 3 show ?thesis by (simp add: sdiv_pos unsigned_of_int take_bit_int_eq_self)
  qed
qed

text \<open>
  C38.  The monitor: for a segment it can attach to it sends one message with the whole degrees of the
  temperature and detaches again.  A temperature of minus one degree or less reaches the back end as
  an unsigned number near \<open>2 ^ 32\<close>.  When the segment cannot be attached the thread dereferences the
  error value.
\<close>

theorem monitor_reports_temperature:
  assumes "msg_type msg = SENSOR_DATA" "0 \<le> sint (param1 msg)"
    and "\<And>h. E h (Memory (Shmat (sint (param1 msg)))) = ptr" "ptr \<noteq> 0"
    and "\<And>h m. E h (Queue (MqSend (backend_queue s) m)) = 0"
  shows "if ptr = -1 then result (serve_monitor E date files (msg, seg)) s = Inl Bad_access
    else result (serve_monitor E date files (msg, seg)) s = Inr () \<and>
      (\<exists>degrees. sent (trace (exec (serve_monitor E date files (msg, seg)) s)) = sent (trace s) @
          [(backend_queue s, Robot_info MESSAGE_ID_INFO 12341234 degrees)] \<and>
        uint degrees = (if sint (temp seg) \<le> - 100 then 2 ^ 32 - (- sint (temp seg)) div 100
          else sint (temp seg) sdiv 100))"
proof -
  have "sint (100 :: s32) = 100" by simp
  with assms whole_degrees [of "temp seg"] show ?thesis
    by (simp add: serve_monitor_def toy_shm_attach_def toy_shm_detach_def exec_simps c_div_def)
qed

definition monitor_demo :: uenv where
  "monitor_demo h c = (case c of Memory (Shmat i) \<Rightarrow> (if i = 7 then 4096 else -1) | _ \<Rightarrow> 0)"

theorem monitor_reports_temperature_witness:
  "\<exists>degrees. sent (trace (exec (serve_monitor monitor_demo [] (\<lambda>_. \<lparr>pieces = [], stamp = [], open_error = []\<rparr>)
       (\<lparr>msg_type = SENSOR_DATA, param1 = 7, param2 = 0\<rparr>, \<lparr>temp = -350, press = 11, humidity = 80\<rparr>)) system_initial)) =
     [(0, Robot_info MESSAGE_ID_INFO 12341234 degrees)] \<and> uint degrees = 2 ^ 32 - 3"
proof -
  let ?m = "\<lparr>msg_type = SENSOR_DATA, param1 = 7, param2 = 0\<rparr>"
  have "msg_type ?m = SENSOR_DATA" "0 \<le> sint (param1 ?m)" "(4096 :: int) \<noteq> 0"
    "\<And>h. monitor_demo h (Memory (Shmat (sint (param1 ?m)))) = 4096"
    "\<And>h m. monitor_demo h (Queue (MqSend (backend_queue system_initial) m)) = 0"
    by (simp_all add: monitor_demo_def)
  from monitor_reports_temperature [OF this(1,2,4,3,5),
      where date = "[]" and files = "\<lambda>_. \<lparr>pieces = [], stamp = [], open_error = []\<rparr>"
        and seg = "\<lparr>temp = -350, press = 11, humidity = 80\<rparr>"]
  show ?thesis by (simp add: system_initial_def)
qed

fun sem_waits :: "(ucall \<times> int) list \<Rightarrow> nat" where
  "sem_waits [] = 0"
| "sem_waits ((Guard SemWait, r) # h) = (if r = -1 then 0 else 1) + sem_waits h"
| "sem_waits (_ # h) = sem_waits h"

lemma sem_waits_append [simp]: "sem_waits (g @ h) = sem_waits g + sem_waits h"
  by (induction g rule: sem_waits.induct) simp_all

lemma timer_loop_counts:
  assumes "\<not> global_timer_stopped s"
  shows "result (timer_loop E waits) s \<in> {Inl Hang, Inl (Exit (-1))} \<and>
    toy_timer (exec (timer_loop E waits) s) - of_nat (sem_waits (trace (exec (timer_loop E waits) s))) =
    toy_timer s - of_nat (sem_waits (trace s))"
  using assms
proof (induction waits arbitrary: s)
  case (Cons eintr rest)
  let ?s = "s\<lparr>trace := trace s @ [(Guard SemWait, E (trace s) (Guard SemWait))]\<rparr>"
  show ?case
  proof (cases "E (trace s) (Guard SemWait) = -1")
    case True
    with Cons.IH [of ?s] Cons.prems show ?thesis by (simp add: run_gets run_invoke)
  next
    case False
    let ?u = "exec (sighandler_timer E) ?s"
    have u: "toy_timer ?u = toy_timer s + 1" "sem_waits (trace ?u) = Suc (sem_waits (trace s))"
      "\<not> global_timer_stopped ?u"
      using False Cons.prems by (simp_all add: sighandler_timer_def exec_simps)
    have "run_state (timer_loop E (eintr # rest)) s = run_state (timer_loop E rest) ?u"
      using False Cons.prems by (simp add: run_gets run_invoke case_prod_beta)
    with Cons.IH [of ?u] u show ?thesis by simp
  qed
qed (simp add: run_gets)

text \<open>
  The timer thread counts: \<^verbatim>\<open>toy_timer\<close> grows, as an \<^verbatim>\<open>int\<close> that wraps around, by one for every
  wait on the semaphore that succeeded, and an interrupted wait is repeated.  The thread ends the
  process when a wait fails for another reason, and it never ends by itself.
\<close>

theorem timer_thread_counts:
  "result (timer_thread E waits) system_initial \<in> {Inl Hang, Inl (Exit (-1))} \<and>
   toy_timer (exec (timer_thread E waits) system_initial) =
     of_nat (sem_waits (trace (exec (timer_thread E waits) system_initial)))"
proof -
  let ?s = "exec (do { _ \<leftarrow> invoke E (Process (Sigaction ''SIGALRM'')); set_periodic_timer E 1 0 }) system_initial"
  have run: "run_state (timer_thread E waits) system_initial = run_state (timer_loop E waits) ?s"
    by (simp add: timer_thread_def set_periodic_timer_def run_invoke run_perform)
  have "\<not> global_timer_stopped ?s" "toy_timer ?s = 0" "sem_waits (trace ?s) = 0"
    by (simp_all add: set_periodic_timer_def run_invoke run_perform system_initial_def)
  with timer_loop_counts [of ?s E waits] show ?thesis unfolding run by simp
qed

text \<open>
  The sleep: the seconds and nanoseconds handed to \<^verbatim>\<open>nanosleep\<close> are exactly the milliseconds that
  were asked for, the nanoseconds stay below one second and nothing wraps around.
\<close>

theorem sleep_exact:
  "\<exists>sec nsec r. run_state (posix_sleep_ms E ms) s =
     (r, s\<lparr>trace := trace s @ [(Process (Nanosleep sec nsec), r)]\<rparr>) \<and>
   0 \<le> sec \<and> 0 \<le> nsec \<and> nsec < 10 ^ 9 \<and> sec * 10 ^ 9 + nsec = uint ms * 10 ^ 6"
proof -
  let ?n = "uint ms"
  let ?c = "Process (Nanosleep (?n div 1000) (?n mod 1000 * 1000000))"
  have m: "uint (ms mod 1000) = ?n mod 1000" "uint (ms div 1000) = ?n div 1000"
    by (simp_all add: uint_mod uint_div)
  have "uint ((ms mod 1000) * (1000 * 1000)) = (?n mod 1000) * 1000000"
  proof -
    have "(?n mod 1000) * 1000000 < 2 ^ 32" by simp
    then show ?thesis using m(1) by (simp add: uint_mult_lem uint_word_ariths)
  qed
  with m have "run_state (posix_sleep_ms E ms) s = (E (trace s) ?c, s\<lparr>trace := trace s @ [(?c, E (trace s) ?c)]\<rparr>)"
    by (simp add: posix_sleep_ms_def run_invoke)
  moreover have "?n div 1000 * 10 ^ 9 + ?n mod 1000 * 1000000 = ?n * 10 ^ 6"
    using div_mult_mod_eq [of ?n 1000] by (simp, linarith)
  moreover have "0 \<le> ?n div 1000" by (simp add: pos_imp_zdiv_nonneg_iff)
  moreover have "0 \<le> ?n mod 1000 * 1000000" "?n mod 1000 * 1000000 < 10 ^ 9" by simp_all
  ultimately show ?thesis by blast
qed

end
