(* ===== verification/Input_Shell.thy ===== *)
theory Input_Shell
  imports Shared_Memory
begin

text \<open>
  The input process, \<^verbatim>\<open>src/ui/input.c\<close>: the command shell with its tokenizer and built in commands,
  the sensor thread and the start of the process.  A command line is the list of its words; \<^verbatim>\<open>args[i]\<close>
  is null when the list is too short.  The lines typed and the text read from sysfs are arguments.
\<close>

section \<open>Constants and state\<close>

definition TOY_TOK_BUFSIZE :: nat where "TOY_TOK_BUFSIZE = 64"
definition TOY_BUFFSIZE :: nat where "TOY_BUFFSIZE = 1024"
definition SENSOR_DATA :: u32 where "SENSOR_DATA = 1"
definition DUMP_STATE :: u32 where "DUMP_STATE = 2"
definition MOTOR_1_SET_SPEED :: u32 where "MOTOR_1_SET_SPEED = IOW 0x77 0x31 8"
definition MOTOR_2_SET_SPEED :: u32 where "MOTOR_2_SET_SPEED = IOW 0x77 0x32 8"
definition TOY_SYSFS_NOTIFY :: string where "TOY_SYSFS_NOTIFY = ''/sys/toy/notify''"

text \<open>The delimiters \<^verbatim>\<open>" \t\r\n\a"\<close>.\<close>

definition TOY_TOK_DELIM :: string where
  "TOY_TOK_DELIM = [CHR 0x20, CHR 0x09, CHR 0x0D, CHR 0x0A, CHR 0x07]"

record input_state = shm_state +
  global_message :: "char list"
  watchdog_queue :: int
  monitor_queue :: int
  disk_queue :: int
  camera_queue :: int
  backend_queue :: int
  the_sensor_info :: int
  sensor_segment :: shm_sensor_t

definition input_initial :: input_state where
  "input_initial = \<lparr>trace = [], shm_id = [0], global_message = replicate TOY_BUFFSIZE (CHR 0x00),
     watchdog_queue = 0, monitor_queue = 0, disk_queue = 0, camera_queue = 0, backend_queue = 0,
     the_sensor_info = 0, sensor_segment = \<lparr>temp = 0, press = 0, humidity = 0\<rparr>\<rparr>"

type_synonym 'a input_prog = "(input_state, 'a) state"

section \<open>The crash handler\<close>

text \<open>
  \<^verbatim>\<open>segfault_handler\<close>: what it prints, and how it ends.  \<open>frames\<close> is what \<^verbatim>\<open>backtrace\<close> writes into the array
  of 50 addresses (\<open>array\<close> before that), \<open>backtrace_symbols\<close> is the function of the C library, null when
  there is no memory; \<open>si_addr\<close> and \<open>pc\<close> come with the signal.
\<close>

definition SIGSEGV :: int where "SIGSEGV = 11"

datatype crash_line = Signal_at int u64 u64 | Signal int | Frame nat string

primrec print_frames :: "nat \<Rightarrow> string list \<Rightarrow> crash_line list" where
  "print_frames i [] = []"
| "print_frames i (message # messages) = Frame i message # print_frames (Suc i) messages"

definition segfault_handler :: "(u64 list \<Rightarrow> string list option) \<Rightarrow> int \<Rightarrow> u64 \<Rightarrow> u64 \<Rightarrow> u64 list \<Rightarrow> u64 list \<Rightarrow>
    crash_line list \<times> unit outcome" where
  "segfault_handler backtrace_symbols sig_num si_addr pc array frames =
     (let caller_address = pc;
          first = (if sig_num = SIGSEGV then Signal_at sig_num si_addr caller_address else Signal sig_num);
          array = frames @ drop (length frames) array;
          size = length frames;
          array = array[1 := caller_address];
          messages = backtrace_symbols (take size array)
      in (first # (case messages of None \<Rightarrow> [] | Some ms \<Rightarrow> print_frames 1 (take (size - 1) (drop 1 ms))),
          Inl (Exit EXIT_FAILURE)))"

section \<open>The sensor thread\<close>

text \<open>
  One round of the loop of \<^verbatim>\<open>sensor_thread\<close>; \<open>buff\<close> is what the buffer holds after the read.  It is not
  cleared, so the text that was read may be followed by remains of an earlier one.
\<close>

definition sensor_round :: "uenv \<Rightarrow> int \<Rightarrow> int \<Rightarrow> string \<Rightarrow> unit input_prog" where
  "sensor_round E notify_fd shmid buff = do {
     _ \<leftarrow> invoke E (File (Poll notify_fd 100000000));
     n \<leftarrow> invoke E (File (Read notify_fd 100));
     if n < 0 then State_Monad.return ()
     else do {
       perform E (File (Lseek notify_fd));
       p \<leftarrow> gets the_sensor_info;
       (if p \<noteq> 0 then
          modify (\<lambda>s. s\<lparr>sensor_segment := \<lparr>temp = atoi buff, press = 11, humidity = 80\<rparr>\<rparr>)
        else State_Monad.return ());
       q \<leftarrow> gets monitor_queue;
       _ \<leftarrow> mq_send E q (Toy_message
         \<lparr>msg_type = SENSOR_DATA, param1 = word_of_int shmid, param2 = 0\<rparr>);
       State_Monad.return () } }"

text \<open>The thread up to its endless loop, which reads one text after the other and then waits for the next.\<close>

definition sensor_thread :: "uenv \<Rightarrow> string list \<Rightarrow> unit outcome input_prog" where
  "sensor_thread E texts = do {
     shmid \<leftarrow> toy_shm_get_keyid SHM_KEY_SENSOR;
     notify_fd \<leftarrow> invoke E (File (Open TOY_SYSFS_NOTIFY));
     if notify_fd < 0 then State_Monad.return (Inl (Exit 1))
     else do {
       for_each (sensor_round E notify_fd shmid) texts;
       State_Monad.return (Inl Hang) } }"

section \<open>The built in commands\<close>

definition toy_send :: "string list \<Rightarrow> int outcome input_prog" where
  "toy_send args = State_Monad.return (Inr 1)"

text \<open>\<^verbatim>\<open>strcpy\<close> into a buffer of fixed size, with the terminating zero.\<close>

definition strcpy :: "char list \<Rightarrow> string \<Rightarrow> char list option" where
  "strcpy buf src = (if length src < length buf
     then Some (src @ CHR 0x00 # drop (Suc (length src)) buf) else None)"

definition toy_mutex :: "uenv \<Rightarrow> string list \<Rightarrow> int outcome input_prog" where
  "toy_mutex E args = (if length args < 2 then State_Monad.return (Inr 1)
     else do {
       perform E (Guard (MutexLock ''global_message_mutex''));
       buf \<leftarrow> gets global_message;
       (case strcpy buf (args ! 1) of
          None \<Rightarrow> State_Monad.return (Inl Bad_access)
        | Some b \<Rightarrow> do {
            modify (\<lambda>s. s\<lparr>global_message := b\<rparr>);
            perform E (Guard (MutexUnlock ''global_message_mutex''));
            State_Monad.return (Inr 1) }) })"

definition toy_message_queue :: "uenv \<Rightarrow> string list \<Rightarrow> int outcome input_prog" where
  "toy_message_queue E args = (if length args < 3 then State_Monad.return (Inr 1)
     else if args ! 1 = ''camera'' then do {
       q \<leftarrow> gets camera_queue;
       mqretcode \<leftarrow> mq_send E q (Toy_message \<lparr>msg_type = atoi (args ! 2), param1 = 0, param2 = 0\<rparr>);
       asserting (mqretcode = 0) (State_Monad.return (Inr 1)) }
     else State_Monad.return (Inr 1))"

text \<open>\<open>st_size\<close> is the size \<^verbatim>\<open>fstat\<close> reports; the mapping is read without a look at whether it exists.\<close>

definition toy_read_elf_header :: "uenv \<Rightarrow> nat \<Rightarrow> string list \<Rightarrow> int outcome input_prog" where
  "toy_read_elf_header E st_size args = do {
     in_fd \<leftarrow> invoke E (File (Open ''./sample/sample.elf''));
     if in_fd < 0 then State_Monad.return (Inr EXIT_FAILURE)
     else do {
       r \<leftarrow> invoke E (File (Fstat in_fd));
       if r = -1 then do {
         perform E (File (Close in_fd));
         State_Monad.return (Inr EXIT_FAILURE) }
       else if st_size = 0 then State_Monad.return (Inr 1)
       else do {
         map \<leftarrow> invoke E (Memory (Mmap st_size));
         if map = -1 then State_Monad.return (Inl Bad_access)
         else do {
           perform E (Memory (Munmap st_size));
           perform E (File (Close in_fd));
           State_Monad.return (Inr 1) } } } }"

definition toy_mincore :: "uenv \<Rightarrow> nat \<Rightarrow> string list \<Rightarrow> int outcome input_prog" where
  "toy_mincore E page args = do {
     _ \<leftarrow> invoke E (Memory (Mmap (20 * page)));
     res \<leftarrow> invoke E (Memory (Mincore (10 * page)));
     asserting (res = 0) (State_Monad.return (Inr 1)) }"

definition toy_exit :: "string list \<Rightarrow> int outcome input_prog" where
  "toy_exit args = State_Monad.return (Inr 0)"

text \<open>
  Waiting for a child: the answer of the call is its status.  The low seven bits are 127 when the
  child is only stopped, and then the parent waits again.
\<close>

partial_function (option) wait_child :: "uenv \<Rightarrow> int \<Rightarrow> input_state \<Rightarrow> input_state option" where
  "wait_child E pid s = (let (status, s') = run_state (invoke E (Process (Waitpid pid))) s in
     if status mod 128 = 127 then wait_child E pid s' else Some s')"

definition toy_shell :: "uenv \<Rightarrow> string list \<Rightarrow> int outcome input_prog" where
  "toy_shell E args = do {
     pid \<leftarrow> invoke E (Process Fork);
     if pid = 0 then do {
       r \<leftarrow> invoke E (Process (Execvp args));
       State_Monad.return (Inl (if r = -1 then Exit EXIT_FAILURE else Exec args)) }
     else if pid < 0 then State_Monad.return (Inr 1)
     else State (\<lambda>s. case wait_child E pid s of None \<Rightarrow> (Inl Hang, s) | Some s' \<Rightarrow> (Inr 1, s')) }"

definition toy_dump_state :: "uenv \<Rightarrow> string list \<Rightarrow> int outcome input_prog" where
  "toy_dump_state E args = do {
     let msg = \<lparr>msg_type = DUMP_STATE, param1 = 0, param2 = 0\<rparr>;
     q \<leftarrow> gets camera_queue;
     mqretcode \<leftarrow> mq_send E q (Toy_message msg);
     asserting (mqretcode = 0) (do {
       q \<leftarrow> gets monitor_queue;
       mqretcode \<leftarrow> mq_send E q (Toy_message msg);
       asserting (mqretcode = 0) (State_Monad.return (Inr 1)) }) }"

definition toy_simple_io :: "uenv \<Rightarrow> string list \<Rightarrow> int outcome input_prog" where
  "toy_simple_io E args = do {
     dev \<leftarrow> invoke E (File (Open ''/dev/toy_simple_io_driver''));
     if dev < 0 then State_Monad.return (Inr 1)
     else do {
       (if 2 \<le> length args \<and> args ! 1 = ''exit'' then do {
          _ \<leftarrow> invoke E (File (Write dev [2]));
          State_Monad.return () }
        else do {
          _ \<leftarrow> invoke E (File (Write dev [1]));
          State_Monad.return () });
       perform E (File (Close dev));
       State_Monad.return (Inr 1) } }"

definition toy_set_motor_1_speed :: "uenv \<Rightarrow> string list \<Rightarrow> int outcome input_prog" where
  "toy_set_motor_1_speed E args = (if length args < 2 then State_Monad.return (Inr 1)
     else do {
       let speed = atoi (args ! 1);
       let speed = (if 100 <s speed then 100 else speed);
       dev \<leftarrow> invoke E (File (Open ''/dev/toy_engine_driver''));
       if dev < 0 then State_Monad.return (Inr 1)
       else do {
         _ \<leftarrow> invoke E (File (Ioctl dev MOTOR_1_SET_SPEED speed));
         perform E (File (Close dev));
         State_Monad.return (Inr 1) } })"

definition toy_set_motor_2_speed :: "uenv \<Rightarrow> string list \<Rightarrow> int outcome input_prog" where
  "toy_set_motor_2_speed E args = (if length args < 2 then State_Monad.return (Inr 1)
     else do {
       let speed = atoi (args ! 1);
       let speed = (if 100 <s speed then 100 else speed);
       dev \<leftarrow> invoke E (File (Open ''/dev/toy_engine_driver''));
       if dev < 0 then State_Monad.return (Inr 1)
       else do {
         _ \<leftarrow> invoke E (File (Ioctl dev MOTOR_2_SET_SPEED speed));
         perform E (File (Close dev));
         State_Monad.return (Inr 1) } })"

definition toy_send_to_be :: "uenv \<Rightarrow> string list \<Rightarrow> int outcome input_prog" where
  "toy_send_to_be E args = (if length args < 2 then State_Monad.return (Inr 1)
     else do {
       q \<leftarrow> gets backend_queue;
       mqretcode \<leftarrow> mq_send E q (Robot_info MESSAGE_ID_INFO 12341234 (atoi (args ! 1)));
       asserting (mqretcode = 0) (State_Monad.return (Inr 1)) })"

section \<open>The shell\<close>

text \<open>
  What the shell reads from the system: the size of the sample file, the page size, and whether the
  input ends with an error.
\<close>

record machine_facts =
  sample_size :: nat
  page_size :: nat
  input_error :: bool

definition builtin_str :: "string list" where
  "builtin_str = [''send'', ''sh'', ''exit'', ''mu'', ''mq'', ''elf'', ''dump'', ''mincore'', ''n'',
     ''m1'', ''m2'', ''be'']"

definition builtin_func :: "uenv \<Rightarrow> machine_facts \<Rightarrow> (string list \<Rightarrow> int outcome input_prog) list" where
  "builtin_func E F = [toy_send, toy_shell E, toy_exit, toy_mutex E, toy_message_queue E,
     toy_read_elf_header E (sample_size F), toy_dump_state E, toy_mincore E (page_size F),
     toy_simple_io E, toy_set_motor_1_speed E, toy_set_motor_2_speed E, toy_send_to_be E]"

fun try_builtins :: "(string \<times> (string list \<Rightarrow> int outcome input_prog)) list \<Rightarrow> string list \<Rightarrow>
    int outcome input_prog" where
  "try_builtins [] args = State_Monad.return (Inr 1)"
| "try_builtins ((name, f) # bs) args = (if args ! 0 = name then f args else try_builtins bs args)"

definition toy_execute :: "uenv \<Rightarrow> machine_facts \<Rightarrow> string list \<Rightarrow> int outcome input_prog" where
  "toy_execute E F args = (if args = [] then State_Monad.return (Inr 1)
     else try_builtins (zip builtin_str (builtin_func E F)) args)"

text \<open>\<^verbatim>\<open>strtok\<close>: skip delimiters, take the word, and step over the delimiter that ends it.\<close>

definition is_delim :: "char \<Rightarrow> bool" where
  "is_delim c \<longleftrightarrow> c \<in> set TOY_TOK_DELIM"

definition strtok :: "string \<Rightarrow> (string \<times> string) option" where
  "strtok str = (let str = dropWhile is_delim str in
     if str = [] then None
     else Some (takeWhile (\<lambda>c. \<not> is_delim c) str, drop 1 (dropWhile (\<lambda>c. \<not> is_delim c) str)))"

lemma strtok_shorter:
  assumes "strtok str = Some (token, rest)"
  shows "length rest < length str"
proof -
  obtain c cs where c: "dropWhile is_delim str = c # cs"
    using assms by (cases "dropWhile is_delim str") (simp_all add: strtok_def)
  then have "\<not> is_delim c" by (metis hd_dropWhile list.distinct(1) list.sel(1))
  with c assms have "rest = drop 1 (dropWhile (\<lambda>c. \<not> is_delim c) cs)"
    by (simp add: strtok_def)
  moreover have "length (dropWhile (\<lambda>c. \<not> is_delim c) cs) \<le> length cs"
    by (rule length_dropWhile_le)
  moreover have "length (c # cs) \<le> length str"
    unfolding c [symmetric] by (rule length_dropWhile_le)
  ultimately show ?thesis by simp
qed

text \<open>
  The loop of \<^verbatim>\<open>toy_split_line\<close>: \<open>toks\<close> are the words stored so far, \<open>bufsize\<close> the number of pointers
  the array holds.  Storing past its end would be a bad access.
\<close>

function split_words :: "uenv \<Rightarrow> string \<Rightarrow> string list \<Rightarrow> nat \<Rightarrow> input_state \<Rightarrow>
    string list outcome \<times> input_state" where
  "split_words E rest toks bufsize s = (case strtok rest of
       None \<Rightarrow> (if length toks < bufsize then Inr toks else Inl Bad_access, s)
     | Some (token, rest') \<Rightarrow>
         (if bufsize \<le> length toks then (Inl Bad_access, s)
          else if bufsize \<le> Suc (length toks) then
            (let bufsize' = bufsize + TOY_TOK_BUFSIZE;
                 (p, s') = run_state (invoke E (Memory (Realloc (8 * bufsize')))) s
             in if p = 0 then (Inl (Exit EXIT_FAILURE), s')
                else split_words E rest' (toks @ [token]) bufsize' s')
          else split_words E rest' (toks @ [token]) bufsize s))"
  by pat_completeness auto
termination
  by (relation "measure (\<lambda>(E, rest, toks, bufsize, s). length rest)") (auto dest: strtok_shorter)

declare split_words.simps [simp del]

definition toy_split_line :: "uenv \<Rightarrow> string \<Rightarrow> string list outcome input_prog" where
  "toy_split_line E line = do {
     p \<leftarrow> invoke E (Memory (Malloc (8 * TOY_TOK_BUFSIZE)));
     if p = 0 then State_Monad.return (Inl (Exit EXIT_FAILURE))
     else State (split_words E line [] TOY_TOK_BUFSIZE) }"

text \<open>
  The loop of the shell over the lines that are typed; at the end of the input \<^verbatim>\<open>toy_read_line\<close> ends
  the process.
\<close>

definition toy_read_line :: "machine_facts \<Rightarrow> string list \<Rightarrow> (string \<times> string list) outcome" where
  "toy_read_line F stdin = (case stdin of
       [] \<Rightarrow> Inl (Exit (if input_error F then EXIT_FAILURE else EXIT_SUCCESS))
     | l # ls \<Rightarrow> Inr (l, ls))"

function toy_loop :: "uenv \<Rightarrow> machine_facts \<Rightarrow> string list \<Rightarrow> unit outcome input_prog" where
  "toy_loop E F stdin = (case toy_read_line F stdin of
       Inl e \<Rightarrow> State_Monad.return (Inl e)
     | Inr (line, stdin') \<Rightarrow>
         then_do (toy_split_line E line) (\<lambda>args.
         then_do (toy_execute E F args) (\<lambda>status.
           if status \<noteq> 0 then toy_loop E F stdin' else State_Monad.return (Inr ()))))"
  by pat_completeness auto
termination
  by (relation "measure (\<lambda>(E, F, stdin). length stdin)")
    (auto simp: toy_read_line_def split: list.splits)

declare toy_loop.simps [simp del]

definition command_thread :: "uenv \<Rightarrow> machine_facts \<Rightarrow> string list \<Rightarrow> int outcome input_prog" where
  "command_thread E F stdin = then_do (toy_loop E F stdin) (\<lambda>_. State_Monad.return (Inr 0))"

section \<open>Starting the process\<close>

definition open_queue :: "uenv \<Rightarrow> string \<Rightarrow> (int \<Rightarrow> input_state \<Rightarrow> input_state) \<Rightarrow> unit outcome input_prog" where
  "open_queue E name store = do {
     q \<leftarrow> mq_open E name;
     modify (store q);
     asserting (q \<noteq> -1) (State_Monad.return (Inr ())) }"

text \<open>The opening of the queues and the two threads, up to the endless loop.\<close>

definition open_and_start :: "uenv \<Rightarrow> int outcome input_prog" where
  "open_and_start E =
     then_do (open_queue E ''/watchdog_queue'' (\<lambda>q s. s\<lparr>watchdog_queue := q\<rparr>)) (\<lambda>_.
     then_do (open_queue E ''/monitor_queue'' (\<lambda>q s. s\<lparr>monitor_queue := q\<rparr>)) (\<lambda>_.
     then_do (open_queue E ''/disk_queue'' (\<lambda>q s. s\<lparr>disk_queue := q\<rparr>)) (\<lambda>_.
     then_do (open_queue E ''/camera_queue'' (\<lambda>q s. s\<lparr>camera_queue := q\<rparr>)) (\<lambda>_. do {
       perform E (Process (PthreadCreate ''command_thread''));
       perform E (Process (PthreadCreate ''sensor_thread''));
       State_Monad.return (Inl Hang) }))))"

text \<open>
  \<^verbatim>\<open>input\<close>: a result is returned only when the system call filter cannot be set up; otherwise the
  process stays in its endless loop (\<open>Hang\<close>), exits or aborts.
\<close>

definition input :: "uenv \<Rightarrow> int outcome input_prog" where
  "input E = do {
     r \<leftarrow> invoke E (Process (Sigaction ''SIGSEGV''));
     if r = -1 then State_Monad.return (Inl (Exit 1))
     else do {
       ctx \<leftarrow> invoke E (Guard SeccompInit);
       if ctx = 0 then State_Monad.return (Inr (-1))
       else do {
         rc \<leftarrow> invoke E (Guard (SeccompRuleAdd ''mincore''));
         if rc < 0 then State_Monad.return (Inr (-1))
         else do {
           perform E (Guard SeccompExport);
           perform E (Guard SeccompExport);
           rc \<leftarrow> invoke E (Guard SeccompLoad);
           if rc < 0 then State_Monad.return (Inr (-1))
           else do {
             perform E (Guard SeccompRelease);
             then_do (toy_shm_create E SHM_KEY_SENSOR 12) (\<lambda>ptr. do {
               modify (\<lambda>s. s\<lparr>the_sensor_info := (if ptr = -1 then 0 else ptr)\<rparr>);
               open_and_start E }) } } } } }"

text \<open>The pid of the new process is not returned; a child whose \<^verbatim>\<open>input\<close> returns goes on as its parent.\<close>

definition create_input :: "uenv \<Rightarrow> int outcome input_prog" where
  "create_input E = do {
     pid \<leftarrow> invoke E (Process Fork);
     if pid = 0 then do {
       perform E (Process (Prctl ''input''));
       then_do (input E) (\<lambda>_. State_Monad.return (Inr 0)) }
     else State_Monad.return (Inr 0) }"

section \<open>What the crash handler prints\<close>

lemma print_frames_nth: "print_frames i ms = map (\<lambda>k. Frame (i + k) (ms ! k)) [0..<length ms]"
proof (induction ms arbitrary: i)
  case (Cons m ms)
  have "map (\<lambda>k. Frame (i + k) ((m # ms) ! k)) [0..<length (m # ms)] =
      Frame i m # map (\<lambda>k. Frame (i + Suc k) (ms ! k)) [0..<length ms]"
    by (simp only: length_Cons upt_conv_Cons [OF zero_less_Suc] map_Suc_upt [symmetric]) simp
  with Cons.IH [of "Suc i"] show ?case by simp
qed simp

text \<open>
  The handler prints the frames from the second on, with the interrupted instruction in the place of the
  second one, and ends the process; a stack of one frame, or no memory for the names, prints none.
\<close>

lemma segfault_handler_prints:
  assumes "\<And>as. length as \<le> 50 \<Longrightarrow> backtrace_symbols as = Some (map name as)" "length frames \<le> 48" "length array = 50"
  shows "segfault_handler backtrace_symbols sig_num si_addr pc array (f # g # frames) =
      ((if sig_num = SIGSEGV then Signal_at sig_num si_addr pc else Signal sig_num) #
         map (\<lambda>k. Frame (1 + k) (map name (pc # frames) ! k)) [0..<Suc (length frames)], Inl (Exit EXIT_FAILURE))"
proof -
  have "backtrace_symbols (f # pc # frames) = Some (map name (f # pc # frames))"
    using assms by simp
  then show ?thesis
    by (simp add: segfault_handler_def Let_def print_frames_nth del: upt_Suc)
qed

lemma segfault_handler_silent:
  assumes "length frames < 2 \<or> (\<forall>as. backtrace_symbols as = None)"
  shows "segfault_handler backtrace_symbols sig_num si_addr pc array frames =
      ([if sig_num = SIGSEGV then Signal_at sig_num si_addr pc else Signal sig_num], Inl (Exit EXIT_FAILURE))"
  using assms by (cases frames) (auto simp: segfault_handler_def Let_def split: option.splits)

section \<open>The tokenizer against a reference\<close>

text \<open>The words of a line, read character by character; \<open>cur\<close> is the word being read.\<close>

definition flush :: "string \<Rightarrow> string list" where
  "flush cur = (if cur = [] then [] else [cur])"

fun words_from :: "string \<Rightarrow> string \<Rightarrow> string list" where
  "words_from cur [] = flush cur"
| "words_from cur (c # cs) =
     (if is_delim c then flush cur @ words_from [] cs else words_from (cur @ [c]) cs)"

lemma words_skip: "words_from [] (dropWhile is_delim str) = words_from [] str"
  by (induction str) (simp_all add: flush_def)

lemma words_take:
  "words_from cur str =
     (let w = cur @ takeWhile (\<lambda>c. \<not> is_delim c) str; rest = dropWhile (\<lambda>c. \<not> is_delim c) str
      in flush w @ words_from [] (drop 1 rest))"
proof (induction str arbitrary: cur)
  case (Cons c cs)
  show ?case
  proof (cases "is_delim c")
    case False
    with Cons.IH [of "cur @ [c]"] show ?thesis by (simp add: Let_def)
  qed simp
qed (simp add: flush_def)

lemma words_strtok:
  "words_from [] str = (case strtok str of None \<Rightarrow> [] | Some (token, rest) \<Rightarrow> token # words_from [] rest)"
proof (cases "dropWhile is_delim str")
  case Nil
  then have "words_from [] str = words_from [] []" using words_skip [of str] by metis
  moreover have "strtok str = None" using Nil by (simp add: strtok_def)
  ultimately show ?thesis by (simp add: flush_def)
next
  case (Cons c cs)
  then have "\<not> is_delim c" by (metis hd_dropWhile list.distinct(1) list.sel(1))
  with Cons words_take [of "[]" "c # cs"] words_skip [of str] show ?thesis
    by (simp add: strtok_def Let_def flush_def)
qed

text \<open>The array is never full when a word is stored, so the loop writes in bounds.\<close>

lemma split_words_result:
  assumes "length toks < bufsize"
  shows "fst (split_words E rest toks bufsize s) = Inr (toks @ words_from [] rest) \<or>
    fst (split_words E rest toks bufsize s) = Inl (Exit EXIT_FAILURE) \<and>
      (\<exists>n. 0 \<in> answers E (Memory (Realloc n)))"
  using assms
proof (induction E rest toks bufsize s rule: split_words.induct)
  case (1 E rest toks bufsize s)
  show ?case
  proof (cases "strtok rest")
    case None
    then have "words_from [] rest = []" using words_strtok [of rest] by simp
    with None 1(3) show ?thesis by (simp add: split_words.simps)
  next
    case (Some tr)
    obtain token rest' where tr: "tr = (token, rest')" by force
    with Some have w: "words_from [] rest = token # words_from [] rest'"
      using words_strtok [of rest] by simp
    show ?thesis
    proof (cases "bufsize \<le> Suc (length toks)")
      case True
      let ?b = "bufsize + TOY_TOK_BUFSIZE"
      let ?r = "run_state (invoke E (Memory (Realloc (8 * ?b)))) s"
      show ?thesis
      proof (cases "fst ?r = 0")
        case z: True
        then have "0 \<in> answers E (Memory (Realloc (8 * ?b)))"
          by (metis answers_def fst_conv rangeI run_invoke)
        with z True Some tr 1(3) show ?thesis
          by (auto simp: split_words.simps [of E rest toks] Let_def case_prod_beta)
      next
        case nz: False
        have "Suc (length toks) < ?b" using 1(3) by (simp add: TOY_TOK_BUFSIZE_def)
        with nz True Some tr 1(3) w 1(1) [OF Some tr [symmetric] _ True refl refl, of "fst ?r" "snd ?r"]
        show ?thesis by (simp add: split_words.simps [of E rest toks] Let_def case_prod_beta)
      qed
    next
      case False
      with Some tr 1(3) w 1(2) [OF Some tr [symmetric] _ False] show ?thesis
        by (simp add: split_words.simps [of E rest toks])
    qed
  qed
qed

lemma words_concat: "concat (words_from cur str) = cur @ filter (\<lambda>c. \<not> is_delim c) str"
  by (induction cur str rule: words_from.induct) (auto simp: flush_def)

lemma words_clean:
  "list_all (\<lambda>c. \<not> is_delim c) cur \<Longrightarrow>
     list_all (\<lambda>w. w \<noteq> [] \<and> list_all (\<lambda>c. \<not> is_delim c) w) (words_from cur str)"
  by (induction cur str rule: words_from.induct) (auto simp: flush_def)

section \<open>What the commands leave alone\<close>

lemma wait_child_trace:
  assumes "wait_child E pid s = Some s'"
  shows "\<exists>t. s' = s\<lparr>trace := t\<rparr>"
proof (rule wait_child.raw_induct [OF _ assms, where P = "\<lambda>E pid s s'. \<exists>t. s' = s\<lparr>trace := t\<rparr>"])
  fix wait E pid s s'
  assume IH: "\<And>E pid s s'. wait E pid s = Some s' \<Longrightarrow> \<exists>t. s' = s\<lparr>trace := t\<rparr>"
    and step: "(let (status, s') = run_state (invoke E (Process (Waitpid pid))) s in
      if status mod 128 = 127 then wait E pid s' else Some s') = Some s'"
  obtain st u where run: "run_state (invoke E (Process (Waitpid pid))) s = (st, u)" by force
  then obtain t where u: "u = s\<lparr>trace := t\<rparr>" by (auto simp: run_invoke)
  show "\<exists>t. s' = s\<lparr>trace := t\<rparr>"
  proof (cases "st mod 128 = 127")
    case True
    with step run have "wait E pid u = Some s'" by simp
    from IH [OF this] u show ?thesis by auto
  qed (use step run u in auto)
qed

lemmas builtin_defs = toy_send_def toy_mutex_def toy_message_queue_def toy_read_elf_header_def
  toy_mincore_def toy_exit_def toy_dump_state_def toy_simple_io_def toy_set_motor_1_speed_def
  toy_set_motor_2_speed_def toy_send_to_be_def asserting_def

definition queues :: "input_state \<Rightarrow> int \<times> int \<times> int" where
  "queues s = (monitor_queue s, camera_queue s, backend_queue s)"

lemma queues_update [simp]:
  "queues (s\<lparr>trace := t\<rparr>) = queues s" "queues (s\<lparr>global_message := b\<rparr>) = queues s"
  by (simp_all add: queues_def)

lemma shell_effect:
  "queues (exec (toy_shell E args) s) = queues s" "result (toy_shell E args) s \<noteq> Inr 0"
  by (auto simp: toy_shell_def exec_simps dest!: wait_child_trace split: option.splits)

lemma builtin_queues:
  "queues (exec (toy_send args) s) = queues s" "queues (exec (toy_mutex E args) s) = queues s"
  "queues (exec (toy_message_queue E args) s) = queues s"
  "queues (exec (toy_read_elf_header E n args) s) = queues s"
  "queues (exec (toy_mincore E n args) s) = queues s" "queues (exec (toy_exit args) s) = queues s"
  "queues (exec (toy_dump_state E args) s) = queues s" "queues (exec (toy_simple_io E args) s) = queues s"
  "queues (exec (toy_set_motor_1_speed E args) s) = queues s"
  "queues (exec (toy_set_motor_2_speed E args) s) = queues s"
  "queues (exec (toy_send_to_be E args) s) = queues s"
  by (auto simp: builtin_defs exec_simps Let_def split: option.splits)

lemma builtin_status:
  "result (toy_send args) s \<noteq> Inr 0" "result (toy_mutex E args) s \<noteq> Inr 0"
  "result (toy_message_queue E args) s \<noteq> Inr 0" "result (toy_read_elf_header E n args) s \<noteq> Inr 0"
  "result (toy_mincore E n args) s \<noteq> Inr 0" "result (toy_exit args) s = Inr 0"
  "result (toy_dump_state E args) s \<noteq> Inr 0" "result (toy_simple_io E args) s \<noteq> Inr 0"
  "result (toy_set_motor_1_speed E args) s \<noteq> Inr 0" "result (toy_set_motor_2_speed E args) s \<noteq> Inr 0"
  "result (toy_send_to_be E args) s \<noteq> Inr 0"
  by (auto simp: builtin_defs exec_simps Let_def EXIT_FAILURE_def split: option.splits)

lemma execute_status:
  "result (toy_execute E F args) s = Inr 0 \<longleftrightarrow> args \<noteq> [] \<and> args ! 0 = ''exit''"
  by (simp add: toy_execute_def builtin_str_def builtin_func_def builtin_status shell_effect)

lemma execute_queues: "queues (exec (toy_execute E F args) s) = queues s"
  by (simp add: toy_execute_def builtin_str_def builtin_func_def builtin_queues shell_effect)

lemma execute_unknown:
  "args = [] \<or> args ! 0 \<notin> set builtin_str \<Longrightarrow> run_state (toy_execute E F args) s = (Inr 1, s)"
  by (auto simp: toy_execute_def builtin_str_def builtin_func_def)

lemma split_line_result:
  "result (toy_split_line E line) s = Inr (words_from [] line) \<or>
    result (toy_split_line E line) s = Inl (Exit EXIT_FAILURE) \<and>
      ((\<exists>n. 0 \<in> answers E (Memory (Malloc n))) \<or> (\<exists>n. 0 \<in> answers E (Memory (Realloc n))))"
proof -
  let ?c = "Memory (Malloc (8 * TOY_TOK_BUFSIZE))"
  let ?s = "s\<lparr>trace := trace s @ [(?c, E (trace s) ?c)]\<rparr>"
  have "E (trace s) ?c \<in> answers E ?c" by (simp add: answers_def)
  moreover have "result (toy_split_line E line) s = (if E (trace s) ?c = 0 then Inl (Exit EXIT_FAILURE)
      else fst (split_words E line [] TOY_TOK_BUFSIZE ?s))"
    by (simp add: toy_split_line_def exec_simps)
  moreover have "length ([] :: string list) < TOY_TOK_BUFSIZE" by (simp add: TOY_TOK_BUFSIZE_def)
  note split_words_result [OF this, of E line ?s]
  ultimately show ?thesis by auto
qed

text \<open>A system that grants every request, and facts of a machine, for the examples.\<close>

definition quiet_system :: uenv where
  "quiet_system h c = (case c of Memory (Malloc _) \<Rightarrow> 1 | Memory (Realloc _) \<Rightarrow> 1 | _ \<Rightarrow> 0)"

definition sample_facts :: machine_facts where
  "sample_facts = \<lparr>sample_size = 8000, page_size = 4096, input_error = False\<rparr>"

lemma trace_same: "\<exists>t. (s :: input_state) = s\<lparr>trace := t\<rparr>"
  by (rule exI [of _ "trace s"]) simp

lemma split_words_state: "\<exists>t. snd (split_words E rest toks bufsize s) = s\<lparr>trace := t\<rparr>"
proof (induction E rest toks bufsize s rule: split_words.induct)
  case (1 E rest toks bufsize s)
  show ?case
  proof (cases "strtok rest")
    case None
    then show ?thesis by (simp add: split_words.simps trace_same)
  next
    case (Some tr)
    obtain token rest' where tr: "tr = (token, rest')" by force
    let ?b = "bufsize + TOY_TOK_BUFSIZE"
    let ?r = "run_state (invoke E (Memory (Realloc (8 * ?b)))) s"
    have r: "\<exists>t. snd ?r = s\<lparr>trace := t\<rparr>" by (auto simp: run_invoke)
    consider "bufsize \<le> length toks" | "bufsize = Suc (length toks)" "fst ?r = 0"
      | "bufsize = Suc (length toks)" "fst ?r \<noteq> 0" | "Suc (length toks) < bufsize" by linarith
    then show ?thesis
    proof cases
      case 3
      then have "\<exists>t. snd (split_words E rest' (toks @ [token]) ?b (snd ?r)) = (snd ?r)\<lparr>trace := t\<rparr>"
        by (intro 1(1) [OF Some tr [symmetric] _ _ refl refl prod.collapse]) auto
      with 3 r Some tr show ?thesis
        by (auto simp: split_words.simps [of E rest toks] Let_def case_prod_beta)
    next
      case 4
      with Some tr 1(2) [OF Some tr [symmetric]] show ?thesis
        by (simp add: split_words.simps [of E rest toks])
    qed (use r Some tr in \<open>auto simp: split_words.simps [of E rest toks] Let_def case_prod_beta trace_same\<close>)
  qed
qed

lemma split_line_queues: "keeps queues (toy_split_line E line)"
proof -
  have "keeps queues (State (split_words E line [] TOY_TOK_BUFSIZE))"
    unfolding keeps_def
  proof
    fix s
    obtain t where "snd (split_words E line [] TOY_TOK_BUFSIZE s) = s\<lparr>trace := t\<rparr>"
      using split_words_state by blast
    then show "queues (exec (State (split_words E line [] TOY_TOK_BUFSIZE)) s) = queues s" by simp
  qed
  then show ?thesis by (auto simp: toy_split_line_def intro!: keeps_intros)
qed

lemma loop_queues: "keeps queues (toy_loop E F stdin)"
proof (induction E F stdin rule: toy_loop.induct)
  case (1 E F stdin)
  have ex: "keeps queues (toy_execute E F args)" for args
    by (simp add: keeps_def execute_queues)
  show ?case
  proof (cases stdin)
    case (Cons line ls)
    then have rd: "toy_read_line F stdin = Inr (line, ls)" by (simp add: toy_read_line_def)
    show ?thesis
      unfolding toy_loop.simps [of E F stdin] rd sum.case prod.case
      by (intro keeps_intros split_line_queues ex 1 [OF rd refl])
  qed (simp add: toy_loop.simps toy_read_line_def keeps_intros)
qed

lemma input_backend: "keeps backend_queue (input E)"
  unfolding input_def open_and_start_def open_queue_def toy_shm_create_def toy_shm_attach_def Let_def
  by (intro keeps_intros) simp_all

section \<open>Properties\<close>

text \<open>
  C23.  The tokenizer: unless an allocation is refused, which ends the process with status 1, the
  words of a line are its maximal runs of characters that are no delimiters, in order; they are not
  empty, contain no delimiter and leave nothing else out.  No word and no end mark is stored outside
  of the array, however many words the line has.
\<close>

theorem split_line_words:
  "(result (toy_split_line E line) s = Inr (words_from [] line) \<or>
    result (toy_split_line E line) s = Inl (Exit EXIT_FAILURE) \<and>
      ((\<exists>n. 0 \<in> answers E (Memory (Malloc n))) \<or> (\<exists>n. 0 \<in> answers E (Memory (Realloc n))))) \<and>
   concat (words_from [] line) = filter (\<lambda>c. \<not> is_delim c) line \<and>
   list_all (\<lambda>w. w \<noteq> [] \<and> list_all (\<lambda>c. \<not> is_delim c) w) (words_from [] line)"
  using split_line_result [of E line s] words_concat [of "[]" line] words_clean [of "[]" line] by simp

text \<open>
  Only the command \<^verbatim>\<open>exit\<close> makes the shell stop; an empty line and a command that is not in the
  table do nothing at all.
\<close>

theorem shell_exit_only:
  "(result (toy_execute E F args) s = Inr 0 \<longleftrightarrow> (\<exists>rest. args = ''exit'' # rest)) \<and>
   ((\<nexists>name rest. args = name # rest \<and> name \<in> set builtin_str) \<longrightarrow>
      run_state (toy_execute E F args) s = (Inr 1, s))"
proof -
  have "args \<noteq> [] \<and> args ! 0 = ''exit'' \<longleftrightarrow> (\<exists>rest. args = ''exit'' # rest)"
    by (cases args) auto
  moreover have "args = [] \<or> args ! 0 \<notin> set builtin_str"
    if "\<nexists>name rest. args = name # rest \<and> name \<in> set builtin_str"
    using that by (cases args) auto
  ultimately show ?thesis
    using execute_status [of E F args s] execute_unknown [of args E F s] by blast
qed

theorem shell_exit_only_witness:
  "run_state (toy_execute quiet_system sample_facts [''hello'']) input_initial = (Inr 1, input_initial)"
  using shell_exit_only [of quiet_system sample_facts "[''hello'']" input_initial]
  by (simp add: builtin_str_def)

text \<open>
  The loop of the shell reads its input until it ends or a command stops the process; when it
  returns, some line began with the word \<^verbatim>\<open>exit\<close>.
\<close>

theorem shell_loop_ends:
  assumes "result (toy_loop E F stdin) s = Inr ()"
  shows "\<exists>line \<in> set stdin. \<exists>rest. words_from [] line = ''exit'' # rest"
  using assms
proof (induction E F stdin arbitrary: s rule: toy_loop.induct)
  case (1 E F stdin)
  show ?case
  proof (cases stdin)
    case Nil
    with 1(2) show ?thesis by (simp add: toy_loop.simps toy_read_line_def)
  next
    case (Cons line ls)
    then have rd: "toy_read_line F stdin = Inr (line, ls)" by (simp add: toy_read_line_def)
    obtain r u where split: "run_state (toy_split_line E line) s = (r, u)" by force
    with 1(2) rd obtain args where r: "r = Inr args"
      by (cases r) (auto simp: toy_loop.simps [of E F stdin] exec_simps)
    with split split_line_result [of E line s] have args: "args = words_from [] line" by auto
    obtain st v where ex: "run_state (toy_execute E F args) u = (st, v)" by force
    with 1(2) rd split r obtain status where st: "st = Inr status"
      by (cases st) (auto simp: toy_loop.simps [of E F stdin] exec_simps)
    show ?thesis
    proof (cases "status = 0")
      case True
      with ex st execute_status [of E F args u] obtain rest where "args = ''exit'' # rest"
        by (cases args) auto
      with args Cons show ?thesis by (metis list.set_intros(1))
    next
      case False
      with 1(2) rd split r ex st have "result (toy_loop E F ls) v = Inr ()"
        by (simp add: toy_loop.simps [of E F stdin] exec_simps)
      from 1(1) [OF rd refl False this] Cons show ?thesis by auto
    qed
  qed
qed

theorem shell_loop_ends_witness:
  "\<exists>line \<in> set [''hello'', ''exit now'']. \<exists>rest. words_from [] line = ''exit'' # rest"
proof (rule shell_loop_ends [of quiet_system sample_facts _ input_initial])
  show "result (toy_loop quiet_system sample_facts [''hello'', ''exit now'']) input_initial = Inr ()"
    by (simp add: toy_loop.simps toy_read_line_def toy_split_line_def split_words.simps strtok_def
        is_delim_def TOY_TOK_DELIM_def TOY_TOK_BUFSIZE_def quiet_system_def toy_execute_def
        builtin_str_def builtin_func_def toy_exit_def exec_simps)
qed

text \<open>
  The sensor thread reads back what the driver wrote: the text of a number that fits into an
  \<^verbatim>\<open>int\<close>, followed by the newline and whatever the buffer held before, is stored in the shared segment as that number, and the monitor is
  told the identifier of the segment.  When the segment could not be attached nothing is stored, but
  the message is sent all the same.
\<close>

theorem sensor_round_stores:
  assumes "- (2 ^ 31) \<le> v" "v < 2 ^ 31" and "\<And>r. r \<in> answers E (File (Read fd 100)) \<Longrightarrow> 0 \<le> r"
  shows "sent (trace (exec (sensor_round E fd shmid (show_int v @ CHR 0x0A # old)) s)) = sent (trace s) @
      [(monitor_queue s, Toy_message \<lparr>msg_type = SENSOR_DATA, param1 = word_of_int shmid, param2 = 0\<rparr>)] \<and>
    sensor_segment (exec (sensor_round E fd shmid (show_int v @ CHR 0x0A # old)) s) =
      (if the_sensor_info s = 0 then sensor_segment s
       else \<lparr>temp = word_of_int v, press = 11, humidity = 80\<rparr>)"
proof -
  have "atoi (show_int v @ CHR 0x0A # old) = word_of_int v"
    using strtol_show_int [OF assms(1,2), of "CHR 0x0A # old"] by (simp add: atoi_def is_digit_def)
  moreover have "\<not> E h (File (Read fd 100)) < 0" for h
    using assms(3) [of "E h (File (Read fd 100))"] by (force simp: answers_def)
  ultimately show ?thesis by (simp add: sensor_round_def exec_simps)
qed

theorem sensor_round_stores_witness:
  "sensor_segment (exec (sensor_round quiet_system 3 7 (''-271'' @ CHR 0x0A # ''5'')) (input_initial\<lparr>the_sensor_info := 4096\<rparr>)) =
     \<lparr>temp = -271, press = 11, humidity = 80\<rparr>"
proof -
  have shown: "''-271'' = show_int (-271)"
    by (simp add: show_int_def show_nat.simps char_of_def bit_iff_odd)
  show ?thesis
    unfolding shown
    using sensor_round_stores [of "-271" quiet_system 3 7 "''5''" "input_initial\<lparr>the_sensor_info := 4096\<rparr>"]
    by (auto simp: answers_def quiet_system_def)
qed

text \<open>
  The queue to the back end is used but never opened: whatever lines are typed, its descriptor
  is still the 0 of its initial value when \<^verbatim>\<open>be\<close> sends on it, and when the system refuses that send
  (descriptor 0 is the terminal) the command ends the whole process.
\<close>

theorem backend_queue_unopened:
  "backend_queue (exec (toy_loop E F stdin) (exec (input E) input_initial)) = 0 \<and>
   (let s = exec (toy_loop E F stdin) (exec (input E) input_initial);
        m = Robot_info MESSAGE_ID_INFO 12341234 (atoi a)
    in sent (trace (exec (toy_execute E F (''be'' # a # rest)) s)) = sent (trace s) @ [(0, m)] \<and>
       result (toy_execute E F (''be'' # a # rest)) s =
         (if E (trace s) (Queue (MqSend 0 m)) = 0 then Inr 1 else Inl Abort))"
proof -
  let ?s = "exec (toy_loop E F stdin) (exec (input E) input_initial)"
  have "backend_queue ?s = 0"
    using keepsD [OF loop_queues, of E F stdin] keepsD [OF input_backend, of E input_initial]
    by (simp add: queues_def input_initial_def)
  then show ?thesis
    by (simp add: toy_execute_def builtin_str_def builtin_func_def toy_send_to_be_def exec_simps
        asserting_def Let_def)
qed

definition c_string :: "char list \<Rightarrow> string" where
  "c_string buf = takeWhile (\<lambda>c. c \<noteq> CHR 0x00) buf"

text \<open>
  The command \<^verbatim>\<open>mu\<close> copies its word into the buffer of 1024 bytes: a word of up to 1023
  characters can be read back as the string in the buffer, a longer one is written past its end.
\<close>

theorem mutex_buffer:
  assumes "length (global_message s) = TOY_BUFFSIZE" and "CHR 0x00 \<notin> set w"
  shows "if length w < TOY_BUFFSIZE then
      result (toy_execute E F (''mu'' # w # rest)) s = Inr 1 \<and>
      length (global_message (exec (toy_execute E F (''mu'' # w # rest)) s)) = TOY_BUFFSIZE \<and>
      c_string (global_message (exec (toy_execute E F (''mu'' # w # rest)) s)) = w
    else result (toy_execute E F (''mu'' # w # rest)) s = Inl Bad_access"
proof -
  have "takeWhile (\<lambda>c. c \<noteq> CHR 0x00) (w @ CHR 0x00 # u) = w" for u
    using assms(2) by (induction w) auto
  with assms(1) show ?thesis
    by (auto simp: toy_execute_def builtin_str_def builtin_func_def toy_mutex_def strcpy_def
        exec_simps c_string_def TOY_BUFFSIZE_def)
qed

theorem mutex_buffer_witness:
  "c_string (global_message (exec (toy_execute quiet_system sample_facts [''mu'', ''hello'']) input_initial)) = ''hello''"
proof -
  have "length (global_message input_initial) = TOY_BUFFSIZE" by (simp add: input_initial_def)
  from mutex_buffer [OF this, of "''hello''" quiet_system sample_facts "[]"] show ?thesis
    by (simp add: TOY_BUFFSIZE_def)
qed

text \<open>The request of a motor command, and the bytes of \<^verbatim>\<open>n\<close>.\<close>

lemma motor_command_requests:
  assumes "0 \<le> E (trace s) (File (Open ''/dev/toy_engine_driver''))"
  shows "requests (trace (exec (toy_execute E F (''m1'' # a # rest)) s)) =
      requests (trace s) @ [(MOTOR_1_SET_SPEED, if 100 <s atoi a then 100 else atoi a)]"
    "requests (trace (exec (toy_execute E F (''m2'' # a # rest)) s)) =
      requests (trace s) @ [(MOTOR_2_SET_SPEED, if 100 <s atoi a then 100 else atoi a)]"
  using assms
  by (simp_all add: toy_execute_def builtin_str_def builtin_func_def toy_set_motor_1_speed_def
      toy_set_motor_2_speed_def exec_simps Let_def)

fun written :: "(ucall \<times> int) list \<Rightarrow> u8 list list" where
  "written [] = []"
| "written ((File (Write fd bs), r) # h) = bs # written h"
| "written (_ # h) = written h"

lemma written_append [simp]: "written (g @ h) = written g @ written h"
  by (induction g rule: written.induct) simp_all

lemma next_command_writes:
  assumes "0 \<le> E (trace s) (File (Open ''/dev/toy_simple_io_driver''))"
  shows "written (trace (exec (toy_execute E F (''n'' # rest)) s)) =
      written (trace s) @ [if \<exists>more. rest = ''exit'' # more then [2] else [1]]"
  using assms
  by (cases rest) (auto simp: toy_execute_def builtin_str_def builtin_func_def toy_simple_io_def exec_simps)

end
