(* ===== verification/Boot.thy ===== *)
theory Boot
  imports System_Server Input_Shell
begin

text \<open>
  The start of the system: \<^verbatim>\<open>src/main.c\<close> with \<^verbatim>\<open>src/web_server/web_server.c\<close> and \<^verbatim>\<open>src/ui/gui.c\<close>.  The
  main process creates the message queues, starts the other processes and waits for them.  A call of
  \<^verbatim>\<open>fork\<close> answers 0 in the child, so one function describes both sides.
\<close>

section \<open>State\<close>

definition NUM_MESSAGES :: int where "NUM_MESSAGES = 100"

text \<open>The sizes of the two message types on the 64 bit target.\<close>

definition sizeof_toy_msg :: int where "sizeof_toy_msg = 24"
definition sizeof_robot_message :: int where "sizeof_robot_message = 56"

record main_state = shm_state +
  watchdog_mq :: int
  monitor_mq :: int
  disk_mq :: int
  camera_mq :: int
  engine_mq :: int
  backend_mq :: int

definition main_initial :: main_state where
  "main_initial = \<lparr>trace = [], shm_id = [0], watchdog_mq = 0, monitor_mq = 0, disk_mq = 0,
     camera_mq = 0, engine_mq = 0, backend_mq = 0\<rparr>"

type_synonym 'a main_prog = "(main_state, 'a) state"

text \<open>
  The other files of the program have static variables of their own; they are at their initial
  values when their code starts.
\<close>

definition in_system :: "'a system_prog \<Rightarrow> 'a main_prog" where
  "in_system m = State (\<lambda>s.
     let (r, u) = run_state m (system_initial\<lparr>trace := trace s, shm_id := shm_id s\<rparr>)
     in (r, s\<lparr>trace := trace u, shm_id := shm_id u\<rparr>))"

definition in_input :: "'a input_prog \<Rightarrow> 'a main_prog" where
  "in_input m = State (\<lambda>s.
     let (r, u) = run_state m (input_initial\<lparr>trace := trace s, shm_id := shm_id s\<rparr>)
     in (r, s\<lparr>trace := trace u, shm_id := shm_id u\<rparr>))"

section \<open>The signal handler\<close>

text \<open>\<^verbatim>\<open>waitpid(-1, &status, WNOHANG)\<close> until there is no child left that has ended.\<close>

partial_function (option) sigchldHandler :: "uenv \<Rightarrow> main_state \<Rightarrow> main_state option" where
  "sigchldHandler E s = (let (childPid, s') = run_state (invoke E (Process (Waitpid (-1)))) s in
     if 0 < childPid then sigchldHandler E s' else Some s')"

section \<open>Message queues\<close>

text \<open>The return code and, when it is set, the descriptor.\<close>

definition create_message_queue :: "uenv \<Rightarrow> string \<Rightarrow> int \<Rightarrow> int \<Rightarrow> (int \<times> int option) outcome main_prog" where
  "create_message_queue E queue_name num_messages message_size = do {
     perform E (Queue (MqUnlink queue_name));
     old_umask \<leftarrow> invoke E (Process (Umask 0));
     msgq \<leftarrow> invoke E (Queue (MqCreate queue_name num_messages message_size));
     perform E (Process (Umask (nat old_umask)));
     if msgq = -1 then do {
       msgq \<leftarrow> mq_open E queue_name;
       asserting (msgq \<noteq> -1) (State_Monad.return (Inr (-1, None))) }
     else State_Monad.return (Inr (0, Some msgq)) }"

definition make_queue :: "uenv \<Rightarrow> string \<Rightarrow> int \<Rightarrow> (int \<Rightarrow> main_state \<Rightarrow> main_state) \<Rightarrow> unit outcome main_prog" where
  "make_queue E queue_name message_size assign =
     then_do (create_message_queue E queue_name NUM_MESSAGES message_size) (\<lambda>(retcode, q). do {
       (case q of None \<Rightarrow> State_Monad.return () | Some d \<Rightarrow> modify (assign d));
       asserting (retcode = 0) (State_Monad.return (Inr ())) })"

definition make_queues :: "uenv \<Rightarrow> unit outcome main_prog" where
  "make_queues E =
     then_do (make_queue E ''/watchdog_queue'' sizeof_toy_msg (\<lambda>q s. s\<lparr>watchdog_mq := q\<rparr>)) (\<lambda>_.
     then_do (make_queue E ''/monitor_queue'' sizeof_toy_msg (\<lambda>q s. s\<lparr>monitor_mq := q\<rparr>)) (\<lambda>_.
     then_do (make_queue E ''/disk_queue'' sizeof_toy_msg (\<lambda>q s. s\<lparr>disk_mq := q\<rparr>)) (\<lambda>_.
     then_do (make_queue E ''/camera_queue'' sizeof_toy_msg (\<lambda>q s. s\<lparr>camera_mq := q\<rparr>)) (\<lambda>_.
     then_do (make_queue E ''/mq_be_to_sys'' sizeof_robot_message (\<lambda>q s. s\<lparr>engine_mq := q\<rparr>)) (\<lambda>_.
     make_queue E ''/mq_sys_to_be'' sizeof_robot_message (\<lambda>q s. s\<lparr>backend_mq := q\<rparr>))))))"

section \<open>The web server and the user interface\<close>

definition STACK_SIZE :: nat where "STACK_SIZE = 8 * 1024 * 1024"

text \<open>
  What the child of \<^verbatim>\<open>clone\<close> runs; \<open>addr\<close> is the address of the interface, as text.  After a failed
  exec the function ends without a value and the process with it; the model takes the answer of the
  call for the status.
\<close>

definition child_func :: "uenv \<Rightarrow> string \<Rightarrow> int outcome main_prog" where
  "child_func E addr = do {
     n \<leftarrow> invoke E (File Socket);
     _ \<leftarrow> invoke E (File (Ioctl n 0x8915 0));
     perform E (File (Close n));
     cwd \<leftarrow> invoke E (File Getcwd);
     if cwd = 0 then State_Monad.return (Inr (-1))
     else do {
       let argv = [''toy-be'', ''-a'', addr, ''-p'', ''8080'', ''-i'', ''12341234''];
       r \<leftarrow> invoke E (Process (Execvp (''./toy-be'' # argv)));
       State_Monad.return (if r = -1 then Inl (Exit r) else Inl (Exec (''./toy-be'' # argv))) } }"

text \<open>The side of the parent.\<close>

definition create_web_server :: "uenv \<Rightarrow> int outcome main_prog" where
  "create_web_server E = do {
     stack \<leftarrow> invoke E (Memory (Mmap STACK_SIZE));
     if stack = -1 then State_Monad.return (Inr (-1))
     else do {
       web_server_Pid \<leftarrow> invoke E (Process Clone);
       if web_server_Pid = -1 then State_Monad.return (Inl (Exit EXIT_FAILURE))
       else do {
         perform E (Memory (Munmap STACK_SIZE));
         State_Monad.return (Inr 0) } } }"

text \<open>Not called by \<^verbatim>\<open>main\<close>; its child has nothing to run and goes on like its parent.\<close>

definition create_gui :: "uenv \<Rightarrow> int outcome main_prog" where
  "create_gui E = do {
     perform E (Process (Sleep 5));
     _ \<leftarrow> invoke E (Process Fork);
     State_Monad.return (Inr 0) }"

section \<open>The main program\<close>

definition main :: "uenv \<Rightarrow> bool list \<Rightarrow> int outcome main_prog" where
  "main E wakeups = do {
     r \<leftarrow> invoke E (Process (Sigaction ''SIGCHLD''));
     if r = -1 then State_Monad.return (Inr 1)
     else then_do (make_queues E) (\<lambda>_.
       then_do (in_system (create_system_server E wakeups)) (\<lambda>spid.
       then_do (create_web_server E) (\<lambda>wpid.
       then_do (in_input (create_input E)) (\<lambda>ipid. do {
         perform E (Process (Waitpid spid));
         perform E (Process (Waitpid ipid));
         perform E (Process (Waitpid wpid));
         State_Monad.return (Inr 0) })))) }"

section \<open>What a run of the main program did\<close>

fun created :: "(ucall \<times> int) list \<Rightarrow> (string \<times> int \<times> int) list" where
  "created [] = []"
| "created ((Queue (MqCreate name n sz), r) # h) = (if r = -1 then created h else (name, n, sz) # created h)"
| "created (_ # h) = created h"

fun opened :: "(ucall \<times> int) list \<Rightarrow> string list" where
  "opened [] = []"
| "opened ((Queue (MqOpen name), r) # h) = name # opened h"
| "opened (_ # h) = opened h"

lemma created_append [simp]: "created (g @ h) = created g @ created h"
  by (induction g rule: created.induct) simp_all

lemma opened_append [simp]: "opened (g @ h) = opened g @ opened h"
  by (induction g rule: opened.induct) simp_all

text \<open>The steps of the start; a process gives itself its name once it runs.\<close>

datatype boot_step = Create_queue string | Fork_child | Clone_child | Named string | Wait_for int

fun boot_steps :: "(ucall \<times> int) list \<Rightarrow> boot_step list" where
  "boot_steps [] = []"
| "boot_steps ((Queue (MqCreate name n sz), r) # h) = Create_queue name # boot_steps h"
| "boot_steps ((Process Fork, r) # h) = Fork_child # boot_steps h"
| "boot_steps ((Process Clone, r) # h) = Clone_child # boot_steps h"
| "boot_steps ((Process (Prctl name), r) # h) = Named name # boot_steps h"
| "boot_steps ((Process (Waitpid p), r) # h) = Wait_for p # boot_steps h"
| "boot_steps (_ # h) = boot_steps h"

lemma boot_steps_append [simp]: "boot_steps (g @ h) = boot_steps g @ boot_steps h"
  by (induction g rule: boot_steps.induct) simp_all

definition boot_queues :: "string list" where
  "boot_queues = [''/watchdog_queue'', ''/monitor_queue'', ''/disk_queue'', ''/camera_queue'',
     ''/mq_be_to_sys'', ''/mq_sys_to_be'']"

definition queues_work :: "uenv \<Rightarrow> bool" where
  "queues_work E \<longleftrightarrow> (\<forall>h name n sz. E h (Queue (MqCreate name n sz)) \<noteq> -1) \<and>
     (\<forall>h name. E h (Queue (MqOpen name)) \<noteq> -1)"

lemma queues_workD:
  "queues_work E \<Longrightarrow> E h (Queue (MqCreate name n sz)) \<noteq> -1"
  "queues_work E \<Longrightarrow> E h (Queue (MqOpen name)) \<noteq> -1"
  by (simp_all add: queues_work_def)

lemma make_queue_effect:
  assumes "queues_work E" "\<And>d s. trace (assign d s) = trace s"
  shows "result (make_queue E name sz assign) s = Inr ()"
    "created (trace (exec (make_queue E name sz assign) s)) = created (trace s) @ [(name, NUM_MESSAGES, sz)]"
    "boot_steps (trace (exec (make_queue E name sz assign) s)) = boot_steps (trace s) @ [Create_queue name]"
  by (simp_all add: make_queue_def create_message_queue_def exec_simps queues_workD [OF assms(1)] assms(2))

lemma make_queues_effect:
  assumes "queues_work E"
  shows "result (make_queues E) s = Inr ()"
    "created (trace (exec (make_queues E) s)) = created (trace s) @
       zip boot_queues (map (Pair NUM_MESSAGES) [sizeof_toy_msg, sizeof_toy_msg, sizeof_toy_msg,
         sizeof_toy_msg, sizeof_robot_message, sizeof_robot_message])"
    "boot_steps (trace (exec (make_queues E) s)) = boot_steps (trace s) @ map Create_queue boot_queues"
  by (simp_all add: make_queues_def then_do_Inr make_queue_effect [OF assms] boot_queues_def)

lemma open_queue_effect:
  assumes "queues_work E" "\<And>d s. trace (assign d s) = trace s"
  shows "result (System_Server.open_queue E name assign) s = Inr ()"
    "opened (trace (exec (System_Server.open_queue E name assign) s)) = opened (trace s) @ [name]"
  by (simp_all add: System_Server.open_queue_def exec_simps queues_workD [OF assms(1)] assms(2))

lemma input_open_queue_effect:
  assumes "queues_work E" "\<And>d s. trace (assign d s) = trace s"
  shows "result (Input_Shell.open_queue E name assign) s = Inr ()"
    "opened (trace (exec (Input_Shell.open_queue E name assign) s)) = opened (trace s) @ [name]"
  by (simp_all add: Input_Shell.open_queue_def exec_simps queues_workD [OF assms(1)] assms(2))

section \<open>Both sides of a fork\<close>

text \<open>
  The \<open>n\<close>-th \<^verbatim>\<open>fork\<close>, counted from 0, seen from the new process: it answers 0, and everything else goes on
  as it would have.
\<close>

definition in_child :: "nat \<Rightarrow> uenv \<Rightarrow> uenv" where
  "in_child n E h c = (if c = Process Fork \<and> count_list (boot_steps h) Fork_child = n then 0 else E h c)"

lemma in_child_other [simp]: "c \<noteq> Process Fork \<Longrightarrow> in_child n E h c = E h c"
  by (simp add: in_child_def)

lemma in_child_queues: "queues_work E \<Longrightarrow> queues_work (in_child n E)"
  by (simp add: queues_work_def)

text \<open>Every program only adds to the history.\<close>

lemma emits_then_do [emits_intros]: "emits UNIV m \<Longrightarrow> (\<And>x. emits UNIV (f x)) \<Longrightarrow> emits UNIV (then_do m f)"
  by (auto simp: then_do_def intro!: emits_intros split: sum.split)

lemma emits_asserting [emits_intros]: "emits UNIV m \<Longrightarrow> emits UNIV (asserting b m)"
  by (auto simp: asserting_def intro!: emits_intros)

lemma emits_in_system: "emits UNIV m \<Longrightarrow> emits UNIV (in_system m)"
  unfolding emits_def
proof
  fix s assume "\<forall>s. \<exists>cs. trace (exec m s) = trace s @ cs \<and> fst ` set cs \<subseteq> UNIV"
  from this [THEN spec, of "system_initial\<lparr>trace := trace s, shm_id := shm_id s\<rparr>"]
  show "\<exists>cs. trace (exec (in_system m) s) = trace s @ cs \<and> fst ` set cs \<subseteq> UNIV"
    by (simp add: in_system_def case_prod_beta Let_def)
qed

lemma emits_in_input: "emits UNIV m \<Longrightarrow> emits UNIV (in_input m)"
  unfolding emits_def
proof
  fix s assume "\<forall>s. \<exists>cs. trace (exec m s) = trace s @ cs \<and> fst ` set cs \<subseteq> UNIV"
  from this [THEN spec, of "input_initial\<lparr>trace := trace s, shm_id := shm_id s\<rparr>"]
  show "\<exists>cs. trace (exec (in_input m) s) = trace s @ cs \<and> fst ` set cs \<subseteq> UNIV"
    by (simp add: in_input_def case_prod_beta Let_def)
qed

lemma emits_wait_exit: "emits UNIV (wait_exit E flags)"
  by (induction flags) (auto simp: system_done_def intro!: emits_intros)

lemma emits_system_server: "emits UNIV (system_server E wakeups)"
  unfolding system_server_def open_queues_def System_Server.open_queue_def start_threads_def must_def
  by (intro emits_intros emits_wait_exit) auto

lemma emits_input: "emits UNIV (input E)"
  unfolding input_def open_and_start_def Input_Shell.open_queue_def toy_shm_create_def toy_shm_attach_def Let_def
  by (intro emits_intros) auto

lemma emits_create_input: "emits UNIV (create_input E)"
  unfolding create_input_def by (intro emits_intros emits_input) auto

lemma emits_create_web_server: "emits UNIV (create_web_server E)"
  unfolding create_web_server_def by (intro emits_intros) auto

lemma emits_more: "emits UNIV m \<Longrightarrow> \<exists>cs. boot_steps (trace (exec m s)) = boot_steps (trace s) @ cs"
  by (metis emits_def boot_steps_append)

lemma then_do_more:
  assumes "\<And>x. emits UNIV (f x)"
  shows "\<exists>cs. boot_steps (trace (exec (then_do m f) s)) = boot_steps (trace (exec m s)) @ cs"
  using emits_more [OF assms] by (cases "result m s") (auto simp: run_then_do case_prod_beta)

text \<open>What the new processes do first, and that the system server never comes back.\<close>

lemma system_child:
  assumes "E (trace s) (Process Fork) = 0"
  shows "\<exists>cs. boot_steps (trace (exec (in_system (create_system_server E wakeups)) s)) =
    boot_steps (trace s) @ Fork_child # Named ''system_server'' # cs"
proof -
  let ?r = "E (trace s @ [(Process Fork, 0)]) (Process (Prctl ''system_server''))"
  let ?u = "system_initial\<lparr>shm_id := shm_id s,
    trace := trace s @ [(Process Fork, 0), (Process (Prctl ''system_server''), ?r)]\<rparr>"
  have "emits UNIV (if b then then_do (system_server E wakeups) (\<lambda>_. State_Monad.return (Inr (0 :: int)))
      else State_Monad.return (Inr 0))" for b
    by (intro emits_intros emits_system_server)
  from emits_more [OF this, of "?r = 0" ?u] show ?thesis
    using assms by (simp add: in_system_def create_system_server_def run_invoke case_prod_beta Let_def)
qed

lemma input_child:
  assumes "E (trace s) (Process Fork) = 0"
  shows "\<exists>cs. boot_steps (trace (exec (in_input (create_input E)) s)) =
    boot_steps (trace s) @ Fork_child # Named ''input'' # cs"
proof -
  let ?u = "input_initial\<lparr>shm_id := shm_id s, trace := trace s @ [(Process Fork, 0), (Process (Prctl ''input''),
    E (trace s @ [(Process Fork, 0)]) (Process (Prctl ''input'')))]\<rparr>"
  have "emits UNIV (then_do (input E) (\<lambda>_. State_Monad.return (Inr (0 :: int))))"
    by (intro emits_intros emits_input)
  from emits_more [OF this, of ?u] show ?thesis
    using assms by (simp add: in_input_def create_input_def run_invoke run_perform case_prod_beta Let_def)
qed

lemma wait_exit_stays: "\<exists>e. result (wait_exit E flags) s = Inl e"
  by (induction flags arbitrary: s) (simp_all add: system_done_def exec_simps)

lemma system_server_stays: "\<exists>e. result (system_server E wakeups) s = Inl e"
  using wait_exit_stays [of E wakeups]
  by (auto simp: system_server_def run_then_do run_perform case_prod_beta split: sum.split)

lemma system_server_not_back: "result (system_server E wakeups) s \<noteq> Inr x"
  using system_server_stays [of E wakeups s] by auto

section \<open>The main program, in pieces\<close>

text \<open>A system on which everything but \<^verbatim>\<open>fork\<close> and \<^verbatim>\<open>prctl\<close> works, also for the new processes.\<close>

definition can_start :: "uenv \<Rightarrow> bool" where
  "can_start E \<longleftrightarrow> queues_work E \<and> (\<forall>h. E h (Process (Sigaction ''SIGCHLD'')) \<noteq> -1 \<and>
     E h (Process Clone) \<noteq> -1 \<and> E h (Memory (Mmap STACK_SIZE)) \<noteq> -1)"

lemma can_startD:
  assumes "can_start E"
  shows "queues_work E" "E h (Process (Sigaction ''SIGCHLD'')) \<noteq> -1" "E h (Process Clone) \<noteq> -1"
    "E h (Memory (Mmap STACK_SIZE)) \<noteq> -1"
  using assms by (simp_all add: can_start_def)

lemma in_child_can_start: "can_start E \<Longrightarrow> can_start (in_child n E)"
  by (simp add: can_start_def in_child_queues)

text \<open>After the queues were made, the waits at the end, and what comes between the first fork and them.\<close>

definition queues_made :: "uenv \<Rightarrow> main_state" where
  "queues_made E = exec (make_queues E)
     (main_initial\<lparr>trace := [(Process (Sigaction ''SIGCHLD''), E [] (Process (Sigaction ''SIGCHLD'')))]\<rparr>)"

definition wait_for_all :: "uenv \<Rightarrow> int \<Rightarrow> int \<Rightarrow> int \<Rightarrow> int outcome main_prog" where
  "wait_for_all E spid wpid = (\<lambda>ipid. do {
     perform E (Process (Waitpid spid));
     perform E (Process (Waitpid ipid));
     perform E (Process (Waitpid wpid));
     State_Monad.return (Inr 0) })"

definition start_others :: "uenv \<Rightarrow> int \<Rightarrow> int outcome main_prog" where
  "start_others E = (\<lambda>spid. then_do (create_web_server E) (\<lambda>wpid.
     then_do (in_input (create_input E)) (wait_for_all E spid wpid)))"

lemma main_starts:
  assumes "can_start E"
  shows "run_state (main E wakeups) main_initial =
    run_state (then_do (in_system (create_system_server E wakeups)) (start_others E)) (queues_made E)"
  using can_startD [OF assms]
  by (simp add: main_def run_invoke then_do_Inr make_queues_effect(1) queues_made_def main_initial_def
      start_others_def wait_for_all_def)

lemma queues_made_steps: "can_start E \<Longrightarrow> boot_steps (trace (queues_made E)) = map Create_queue boot_queues"
  by (simp add: queues_made_def make_queues_effect can_startD(1))

lemma emits_wait_for_all: "emits UNIV (wait_for_all E spid wpid ipid)"
  unfolding wait_for_all_def by (intro emits_intros) auto

lemma emits_start_others: "emits UNIV (start_others E spid)"
  unfolding start_others_def
  by (intro emits_then_do emits_create_web_server emits_in_input emits_create_input emits_wait_for_all)

text \<open>The side of the parent in the three functions that start a process.\<close>

lemma system_parent:
  "E (trace s) (Process Fork) \<noteq> 0 \<Longrightarrow> run_state (in_system (create_system_server E wakeups)) s =
     (Inr 0, s\<lparr>trace := trace s @ [(Process Fork, E (trace s) (Process Fork))]\<rparr>)"
  by (simp add: in_system_def create_system_server_def run_invoke Let_def)

lemma input_parent:
  "E (trace s) (Process Fork) \<noteq> 0 \<Longrightarrow> run_state (in_input (create_input E)) s =
     (Inr 0, s\<lparr>trace := trace s @ [(Process Fork, E (trace s) (Process Fork))]\<rparr>)"
  by (simp add: in_input_def create_input_def run_invoke Let_def)

lemma web_parent:
  assumes "can_start E"
  shows "result (create_web_server E) s = Inr 0"
    "boot_steps (trace (exec (create_web_server E) s)) = boot_steps (trace s) @ [Clone_child]"
  using can_startD [OF assms] by (simp_all add: create_web_server_def exec_simps)

lemma count_queues [simp]: "count_list (map Create_queue qs) Fork_child = 0"
  by (induction qs) simp_all

lemma parent_boots:
  assumes "can_start E" "\<And>h. E h (Process Fork) \<noteq> 0"
  shows "result (main E wakeups) main_initial = Inr 0"
    "boot_steps (trace (exec (main E wakeups) main_initial)) =
      map Create_queue boot_queues @ [Fork_child, Clone_child, Fork_child, Wait_for 0, Wait_for 0, Wait_for 0]"
  using assms(2) queues_made_steps [OF assms(1)]
  by (simp_all add: main_starts [OF assms(1)] then_do_Inr system_parent input_parent web_parent [OF assms(1)]
      run_perform case_prod_beta start_others_def wait_for_all_def)

lemma first_child_boots:
  assumes "can_start E" "E (trace (queues_made E)) (Process Fork) = 0"
  shows "\<exists>cs. boot_steps (trace (exec (main E wakeups) main_initial)) =
      map Create_queue boot_queues @ Fork_child # Named ''system_server'' # cs"
    "(\<And>h. E h (Process (Prctl ''system_server'')) = 0) \<Longrightarrow> \<exists>e. result (main E wakeups) main_initial = Inl e"
proof -
  let ?m = "in_system (create_system_server E wakeups)"
  obtain cs where cs: "boot_steps (trace (exec ?m (queues_made E))) =
      map Create_queue boot_queues @ Fork_child # Named ''system_server'' # cs"
    using system_child [of E, OF assms(2)] by (auto simp: queues_made_steps [OF assms(1)])
  obtain ds where "boot_steps (trace (exec (main E wakeups) main_initial)) = boot_steps (trace (exec ?m (queues_made E))) @ ds"
    unfolding main_starts [OF assms(1)] using then_do_more [of "start_others E", OF emits_start_others] by blast
  with cs show "\<exists>cs. boot_steps (trace (exec (main E wakeups) main_initial)) =
      map Create_queue boot_queues @ Fork_child # Named ''system_server'' # cs" by simp
  assume "\<And>h. E h (Process (Prctl ''system_server'')) = 0"
  then have "\<exists>e. result ?m (queues_made E) = Inl e"
    using assms(2) by (auto simp: system_server_not_back in_system_def create_system_server_def run_invoke
        run_then_do case_prod_beta Let_def split: sum.split)
  then show "\<exists>e. result (main E wakeups) main_initial = Inl e"
    unfolding main_starts [OF assms(1)] by (auto simp: run_then_do case_prod_beta)
qed

lemma second_child_boots:
  assumes "can_start E" "E (trace (queues_made E)) (Process Fork) \<noteq> 0"
    and "\<And>h. boot_steps h = map Create_queue boot_queues @ [Fork_child, Clone_child] \<Longrightarrow> E h (Process Fork) = 0"
  shows "\<exists>cs. boot_steps (trace (exec (main E wakeups) main_initial)) =
    map Create_queue boot_queues @ [Fork_child, Clone_child, Fork_child, Named ''input''] @ cs"
proof -
  let ?v = "exec (create_web_server E) (queues_made E\<lparr>trace := trace (queues_made E) @
    [(Process Fork, E (trace (queues_made E)) (Process Fork))]\<rparr>)"
  have v: "boot_steps (trace ?v) = map Create_queue boot_queues @ [Fork_child, Clone_child]"
    by (simp add: web_parent(2) [OF assms(1)] queues_made_steps [OF assms(1)])
  obtain es where es: "boot_steps (trace (exec (in_input (create_input E)) ?v)) =
      map Create_queue boot_queues @ [Fork_child, Clone_child, Fork_child, Named ''input''] @ es"
    using input_child [of E ?v, OF assms(3) [OF v]] v by auto
  have "run_state (main E wakeups) main_initial =
      run_state (then_do (in_input (create_input E)) (wait_for_all E 0 0)) ?v"
    by (simp add: main_starts [OF assms(1)] then_do_Inr system_parent [of E "queues_made E", OF assms(2)] web_parent(1) [OF assms(1)]
        start_others_def)
  then obtain fs where "boot_steps (trace (exec (main E wakeups) main_initial)) =
      boot_steps (trace (exec (in_input (create_input E)) ?v)) @ fs"
    using then_do_more [of "wait_for_all E 0 0", OF emits_wait_for_all] by metis
  with es show ?thesis by simp
qed

section \<open>Properties\<close>


text \<open>
  The queues the processes open are those the main program created, under the same names: the
  system server opens all six, the input process the first four.
\<close>

theorem boot_queue_names:
  assumes "queues_work E"
  shows "opened (trace (exec (open_queues E) system_initial)) =
      map fst (created (trace (exec (make_queues E) main_initial))) \<and>
    opened (trace (exec (open_and_start E) input_initial)) =
      take 4 (map fst (created (trace (exec (make_queues E) main_initial)))) \<and>
    result (open_queues E) system_initial = Inr ()"
  by (simp add: open_queues_def open_and_start_def then_do_Inr open_queue_effect [OF assms]
      input_open_queue_effect [OF assms] make_queues_effect [OF assms] boot_queues_def run_perform
      system_initial_def input_initial_def main_initial_def)

definition working :: uenv where
  "working h c = (case c of
       Memory (Malloc _) \<Rightarrow> 4096 | Memory (Mmap _) \<Rightarrow> 8192 | Process Fork \<Rightarrow> 100 | Process Clone \<Rightarrow> 101
     | Queue (MqCreate _ _ _) \<Rightarrow> 3 | Queue (MqOpen _) \<Rightarrow> 4 | _ \<Rightarrow> 0)"


theorem boot_queue_names_witness:
  "opened (trace (exec (open_queues working) system_initial)) =
     map fst (created (trace (exec (make_queues working) main_initial)))"
  using boot_queue_names [of working] by (simp add: queues_work_def working_def)

text \<open>
  The second attempt of \<^verbatim>\<open>create_message_queue\<close> is in vain: when the queue cannot be created the
  main program aborts, also when opening the queue that is there succeeds.
\<close>

theorem queue_fallback_aborts:
  assumes "\<And>h. E h (Queue (MqCreate ''/watchdog_queue'' NUM_MESSAGES sizeof_toy_msg)) = -1"
    and "\<And>h. E h (Process (Sigaction ''SIGCHLD'')) \<noteq> -1"
  shows "result (main E wakeups) s = Inl Abort \<and>
    ((\<forall>h. E h (Queue (MqOpen ''/watchdog_queue'')) \<noteq> -1) \<longrightarrow>
      result (create_message_queue E ''/watchdog_queue'' NUM_MESSAGES sizeof_toy_msg) s = Inr (-1, None))"
proof -
  have "result (make_queue E ''/watchdog_queue'' sizeof_toy_msg assign) u = Inl Abort" for assign u
    using assms(1) by (simp add: make_queue_def create_message_queue_def exec_simps asserting_def)
  then have "result (make_queues E) u = Inl Abort" for u
    by (simp add: make_queues_def run_then_do case_prod_beta)
  with assms show ?thesis
    by (simp add: main_def run_invoke run_then_do case_prod_beta create_message_queue_def exec_simps)
qed

definition stale_queue :: uenv where
  "stale_queue h c = (case c of Queue (MqCreate _ _ _) \<Rightarrow> -1 | _ \<Rightarrow> 5)"

theorem queue_fallback_aborts_witness:
  "result (main stale_queue []) main_initial = Inl Abort \<and>
   result (create_message_queue stale_queue ''/watchdog_queue'' NUM_MESSAGES sizeof_toy_msg) main_initial =
     Inr (-1, None)"
  using queue_fallback_aborts [of stale_queue "[]" main_initial] by (simp add: stale_queue_def)

fun reaped :: "(ucall \<times> int) list \<Rightarrow> nat" where
  "reaped [] = 0"
| "reaped ((Process (Waitpid p), r) # h) = (if 0 < r then 1 else 0) + reaped h"
| "reaped (_ # h) = reaped h"

lemma reaped_append [simp]: "reaped (g @ h) = reaped g + reaped h"
  by (induction g rule: reaped.induct) simp_all

text \<open>
  The handler of \<^verbatim>\<open>SIGCHLD\<close> comes back when there are finitely many children to reap, and by
  then the system has none left to hand out.
\<close>

theorem reaper_returns:
  assumes "\<And>h. children \<le> reaped h \<Longrightarrow> E h (Process (Waitpid (-1))) \<le> 0"
  shows "\<exists>s' cs r. sigchldHandler E s = Some s' \<and> r \<le> 0 \<and>
    trace s' = trace s @ cs @ [(Process (Waitpid (-1)), r)]"
proof (induction "children - reaped (trace s)" arbitrary: s rule: less_induct)
  case less
  let ?r = "E (trace s) (Process (Waitpid (-1)))"
  let ?s = "s\<lparr>trace := trace s @ [(Process (Waitpid (-1)), ?r)]\<rparr>"
  show ?case
  proof (cases "0 < ?r")
    case True
    then have "\<not> children \<le> reaped (trace s)" using assms [of "trace s"] by linarith
    with True have "children - reaped (trace ?s) < children - reaped (trace s)" by simp
    from less [OF this] obtain s' cs r where "sigchldHandler E ?s = Some s'" "r \<le> 0"
      "trace s' = trace ?s @ cs @ [(Process (Waitpid (-1)), r)]" by blast
    with True show ?thesis
      by (intro exI [of _ s'] exI [of _ "(Process (Waitpid (-1)), ?r) # cs"])
        (auto simp: sigchldHandler.simps [of E s] run_invoke)
  next
    case False
    then show ?thesis by (simp add: sigchldHandler.simps [of E s] run_invoke)
  qed
qed

definition two_children :: uenv where
  "two_children h c = (if reaped h < 2 then 100 + int (reaped h) else 0)"

theorem reaper_returns_witness:
  "\<exists>s' cs r. sigchldHandler two_children main_initial = Some s' \<and> r \<le> 0 \<and>
     trace s' = trace main_initial @ cs @ [(Process (Waitpid (-1)), r)]"
  by (rule reaper_returns [of 2 two_children]) (simp add: two_children_def)

end
