(* ===== verification/Fixed_Allocator.thy ===== *)
theory Fixed_Allocator
  imports State_Engine
begin

text \<open>
  The fixed block allocator, \<^verbatim>\<open>src/engine/Allocator.h\<close> and \<^verbatim>\<open>src/engine/Allocator.cpp\<close>.  The free blocks
  form a linked list that lives inside of the blocks themselves, so the memory is modelled byte by
  byte: clients and the allocator write to the same cells.  A call that does not return, because an
  assertion failed or memory was used that holds no pointer, is \<open>None\<close>.
\<close>

section \<open>Memory\<close>

type_synonym size_t = "64 word"

text \<open>A byte of data, or one of the eight bytes of a stored pointer.\<close>

datatype cell = Byte u8 | Part nat nat

text \<open>
  The contents of the memory, the first address that was never handed out, and the arrays of the
  global heap that are allocated, with their sizes.
\<close>

record memory =
  cells :: "nat \<Rightarrow> cell"
  brk :: nat
  live :: "nat \<rightharpoonup> nat"

definition PTR_SIZE :: nat where "PTR_SIZE = 8"

definition store_ptr :: "nat \<Rightarrow> nat \<Rightarrow> (nat \<Rightarrow> cell) \<Rightarrow> nat \<Rightarrow> cell" where
  "store_ptr p v c = (\<lambda>x. if p \<le> x \<and> x < p + PTR_SIZE then Part v (x - p) else c x)"

definition load_ptr :: "(nat \<Rightarrow> cell) \<Rightarrow> nat \<Rightarrow> nat option" where
  "load_ptr c p = (case c p of
       Part v 0 \<Rightarrow> if list_all (\<lambda>i. c (p + i) = Part v i) [0..<PTR_SIZE] then Some v else None
     | _ \<Rightarrow> None)"

text \<open>\<^verbatim>\<open>new CHAR[n]\<close> and \<^verbatim>\<open>delete[]\<close>; the global heap does not run out.\<close>

definition new_chars :: "nat \<Rightarrow> memory \<Rightarrow> nat \<times> memory" where
  "new_chars n m = (brk m, m\<lparr>live := (live m)(brk m \<mapsto> n), brk := brk m + max 1 n\<rparr>)"

definition delete_chars :: "nat \<Rightarrow> memory \<Rightarrow> memory option" where
  "delete_chars p m = (if p \<in> dom (live m) then Some (m\<lparr>live := (live m)(p := None)\<rparr>) else None)"

section \<open>The allocator\<close>

datatype AllocatorMode = HEAP_BLOCKS | HEAP_POOL | STATIC_POOL

record allocator =
  m_blockSize :: size_t
  m_objectsize :: size_t
  m_maxObjects :: u32
  m_allocatorMode :: AllocatorMode
  m_pHead :: nat
  m_pPool :: nat
  m_poolIndex :: u32
  m_blockCnt :: u32
  m_blocksInUse :: u32
  m_allocations :: u32
  m_deallocations :: u32
  m_name :: string

text \<open>The constructor; \<open>memory = 0\<close> is a null pointer.\<close>

definition Allocator :: "size_t \<Rightarrow> u32 \<Rightarrow> nat \<Rightarrow> string \<Rightarrow> memory \<Rightarrow> allocator \<times> memory" where
  "Allocator sz objects mem name m =
     (let bs = (if sz < 8 then 8 else sz);
          a = \<lparr>m_blockSize = bs, m_objectsize = sz, m_maxObjects = objects,
            m_allocatorMode = HEAP_BLOCKS, m_pHead = 0, m_pPool = 0, m_poolIndex = 0, m_blockCnt = 0,
            m_blocksInUse = 0, m_allocations = 0, m_deallocations = 0, m_name = name\<rparr>
      in if objects \<noteq> 0 then
           if mem \<noteq> 0 then (a\<lparr>m_pPool := mem, m_allocatorMode := STATIC_POOL\<rparr>, m)
           else (let (p, m) = new_chars (unat (bs * ucast objects)) m
                 in (a\<lparr>m_pPool := p, m_allocatorMode := HEAP_POOL\<rparr>, m))
         else (a, m))"

type_synonym alloc_state = "allocator \<times> memory"

definition Push :: "nat \<Rightarrow> alloc_state \<Rightarrow> alloc_state" where
  "Push pMemory = (\<lambda>(a, m).
     (a\<lparr>m_pHead := pMemory\<rparr>, m\<lparr>cells := store_ptr pMemory (m_pHead a) (cells m)\<rparr>))"

definition Pop :: "alloc_state \<Rightarrow> (nat \<times> alloc_state) option" where
  "Pop = (\<lambda>(a, m). if m_pHead a \<noteq> 0 then
       (case load_ptr (cells m) (m_pHead a) of
          None \<Rightarrow> None
        | Some pNext \<Rightarrow> Some (m_pHead a, a\<lparr>m_pHead := pNext\<rparr>, m))
     else Some (0, a, m))"

text \<open>\<open>handler\<close>: a new handler is installed; it returns without effect.\<close>

definition new_block :: "bool \<Rightarrow> alloc_state \<Rightarrow> (nat \<times> alloc_state) option" where
  "new_block handler = (\<lambda>(a, m).
     if m_maxObjects a \<noteq> 0 then
       if m_poolIndex a < m_maxObjects a then
         Some (m_pPool a + unat (ucast (m_poolIndex a) * m_blockSize a),
           a\<lparr>m_poolIndex := m_poolIndex a + 1\<rparr>, m)
       else if handler then Some (0, a, m) else None
     else (let (p, m) = new_chars (unat (m_blockSize a)) m
           in Some (p, a\<lparr>m_blockCnt := m_blockCnt a + 1\<rparr>, m)))"

definition Allocate :: "bool \<Rightarrow> size_t \<Rightarrow> alloc_state \<Rightarrow> (nat \<times> alloc_state) option" where
  "Allocate handler sz = (\<lambda>(a, m). do {
     ASSERT_TRUE (sz \<le> m_objectsize a);
     (pBlock, st) \<leftarrow> Pop (a, m);
     (pBlock, a, m) \<leftarrow> (if pBlock = 0 then new_block handler st else Some (pBlock, st));
     Some (pBlock, a\<lparr>m_blocksInUse := m_blocksInUse a + 1, m_allocations := m_allocations a + 1\<rparr>, m) })"

definition Deallocate :: "nat \<Rightarrow> alloc_state \<Rightarrow> alloc_state" where
  "Deallocate pBlock st = (case Push pBlock st of (a, m) \<Rightarrow>
     (a\<lparr>m_blocksInUse := m_blocksInUse a - 1, m_deallocations := m_deallocations a + 1\<rparr>, m))"

text \<open>The destructor; a free list with a cycle would keep it busy until a block is deleted twice.\<close>

partial_function (option) delete_blocks :: "alloc_state \<Rightarrow> memory option" where
  "delete_blocks st = (if m_pHead (fst st) \<noteq> 0 then do {
       (p, a, m) \<leftarrow> Pop st;
       m \<leftarrow> delete_chars p m;
       delete_blocks (a, m) }
     else Some (snd st))"

definition delete_Allocator :: "alloc_state \<Rightarrow> memory option" where
  "delete_Allocator st = (case m_allocatorMode (fst st) of
       HEAP_POOL \<Rightarrow> delete_chars (m_pPool (fst st)) (snd st)
     | HEAP_BLOCKS \<Rightarrow> delete_blocks st
     | STATIC_POOL \<Rightarrow> Some (snd st))"

definition GetBlockSize :: "allocator \<Rightarrow> size_t" where "GetBlockSize a = m_blockSize a"

text \<open>\<^verbatim>\<open>AllocatorPool<T, Objects>\<close> with its own memory of \<^verbatim>\<open>sizeof(T) * Objects\<close> bytes at \<open>memory\<close>.\<close>

definition AllocatorPool :: "size_t \<Rightarrow> u32 \<Rightarrow> nat \<Rightarrow> memory \<Rightarrow> allocator \<times> memory" where
  "AllocatorPool sizeof_T Objects mem m = Allocator sizeof_T Objects mem [] m"

definition pool_bytes :: "size_t \<Rightarrow> u32 \<Rightarrow> nat" where
  "pool_bytes sizeof_T Objects = unat sizeof_T * unat Objects"

section \<open>Stored pointers\<close>

lemma load_store [simp]: "load_ptr (store_ptr p v c) p = Some v"
  by (simp add: load_ptr_def store_ptr_def PTR_SIZE_def list_all_iff)

lemma load_ptr_cong:
  assumes "\<And>x. p \<le> x \<Longrightarrow> x < p + PTR_SIZE \<Longrightarrow> c x = d x"
  shows "load_ptr c p = load_ptr d p"
proof -
  have "c p = d p" "list_all (\<lambda>i. c (p + i) = Part v i) [0..<PTR_SIZE] =
      list_all (\<lambda>i. d (p + i) = Part v i) [0..<PTR_SIZE]" for v
    using assms by (auto simp: list_all_iff PTR_SIZE_def)
  then show ?thesis by (simp add: load_ptr_def split: cell.split nat.split)
qed

lemma store_other: "x < p \<or> p + PTR_SIZE \<le> x \<Longrightarrow> store_ptr p v c x = c x"
  by (auto simp: store_ptr_def)

section \<open>The free list\<close>

fun free_list :: "(nat \<Rightarrow> cell) \<Rightarrow> nat \<Rightarrow> nat list \<Rightarrow> bool" where
  "free_list c p [] \<longleftrightarrow> p = 0"
| "free_list c p (b # fs) \<longleftrightarrow> p = b \<and> b \<noteq> 0 \<and>
     (case load_ptr c b of None \<Rightarrow> False | Some q \<Rightarrow> free_list c q fs)"

lemma free_list_cong:
  assumes "\<And>b x. b \<in> set fs \<Longrightarrow> b \<le> x \<Longrightarrow> x < b + PTR_SIZE \<Longrightarrow> c x = d x"
  shows "free_list c p fs = free_list d p fs"
  using assms
proof (induction fs arbitrary: p)
  case (Cons b fs)
  have "load_ptr c b = load_ptr d b" by (rule load_ptr_cong) (rule Cons.prems [of b], simp_all)
  moreover have "free_list c q fs = free_list d q fs" for q by (rule Cons.IH, rule Cons.prems) simp_all
  ultimately show ?case by (simp split: option.split)
qed simp

text \<open>Blocks of \<open>n\<close> bytes that do not overlap.\<close>

definition apart :: "nat \<Rightarrow> nat \<Rightarrow> nat \<Rightarrow> bool" where
  "apart n p q \<longleftrightarrow> p + n \<le> q \<or> q + n \<le> p"

definition disjoint_blocks :: "nat \<Rightarrow> nat list \<Rightarrow> bool" where
  "disjoint_blocks n ps \<longleftrightarrow> distinct ps \<and> (\<forall>p \<in> set ps. \<forall>q \<in> set ps. p \<noteq> q \<longrightarrow> apart n p q)"

lemma disjoint_blocks_Cons:
  "disjoint_blocks n (p # ps) \<longleftrightarrow> p \<notin> set ps \<and> (\<forall>q \<in> set ps. apart n p q) \<and> disjoint_blocks n ps"
  by (auto simp: disjoint_blocks_def apart_def)

lemma disjoint_blocks_set:
  "disjoint_blocks n ps \<Longrightarrow> distinct qs \<Longrightarrow> set qs \<subseteq> set ps \<Longrightarrow> disjoint_blocks n qs"
  by (auto simp: disjoint_blocks_def)

section \<open>The invariant\<close>

abbreviation block_bytes :: "allocator \<Rightarrow> nat" where
  "block_bytes a \<equiv> unat (m_blockSize a)"

text \<open>Where the blocks come from: slots of the pool, or arrays of the global heap.\<close>

definition sourced :: "allocator \<Rightarrow> memory \<Rightarrow> nat list \<Rightarrow> bool" where
  "sourced a m bs \<longleftrightarrow> (if m_maxObjects a \<noteq> 0 then
       0 < m_pPool a \<and> m_poolIndex a \<le> m_maxObjects a \<and>
       unat (m_maxObjects a) * block_bytes a < 2 ^ 64 \<and>
       m_pPool a + unat (m_maxObjects a) * block_bytes a \<le> brk m \<and>
       (\<forall>b \<in> set bs. \<exists>i < unat (m_poolIndex a). b = m_pPool a + i * block_bytes a)
     else m_allocatorMode a = HEAP_BLOCKS \<and> (\<forall>b \<in> set bs. live m b = Some (block_bytes a)))"

text \<open>
  \<open>owns a m fs us\<close>: the free list of the allocator holds the blocks \<open>fs\<close>, its clients have the
  blocks \<open>us\<close>, and no two of them overlap.
\<close>

definition owns :: "allocator \<Rightarrow> memory \<Rightarrow> nat list \<Rightarrow> nat list \<Rightarrow> bool" where
  "owns a m fs us \<longleftrightarrow> free_list (cells m) (m_pHead a) fs \<and> disjoint_blocks (block_bytes a) (fs @ us) \<and>
     8 \<le> block_bytes a \<and> m_objectsize a \<le> m_blockSize a \<and>
     (\<forall>p \<in> set (fs @ us). 0 < p \<and> p + block_bytes a \<le> brk m) \<and> 0 < brk m \<and>
     m_blocksInUse a = of_nat (length us) \<and> sourced a m (fs @ us)"

lemma sourced_mono: "sourced a m bs \<Longrightarrow> set cs \<subseteq> set bs \<Longrightarrow> sourced a m cs"
  by (auto simp: sourced_def)

lemma sourced_frame:
  "sourced (a\<lparr>m_pHead := p, m_blocksInUse := n\<rparr>) (m\<lparr>cells := c\<rparr>) bs = sourced a m bs"
  by (simp add: sourced_def)

lemma ownsD:
  assumes "owns a m fs us"
  shows "p \<in> set (fs @ us) \<Longrightarrow> 0 < p" "p \<in> set (fs @ us) \<Longrightarrow> p + block_bytes a \<le> brk m"
    "8 \<le> block_bytes a" "disjoint_blocks (block_bytes a) (fs @ us)"
    "free_list (cells m) (m_pHead a) fs" "m_blocksInUse a = of_nat (length us)"
  using assms unfolding owns_def by blast+

lemma pop_cases:
  assumes "free_list (cells m) (m_pHead a) fs"
  shows "Pop (a, m) = (case fs of [] \<Rightarrow> Some (0, a, m)
    | b # rest \<Rightarrow> Some (b, a\<lparr>m_pHead := the (load_ptr (cells m) b)\<rparr>, m))"
  using assms by (cases fs) (auto simp: Pop_def split: option.splits)

lemma free_list_tl:
  "free_list c p (b # fs) \<Longrightarrow> free_list c (the (load_ptr c b)) fs"
  by (auto split: option.splits)

text \<open>A block of the pool that was never handed out lies behind all that were.\<close>

lemma pool_slot:
  assumes "unat mx * n < 2 ^ 64" "(i :: u32) < mx" "n = unat (bs :: size_t)"
  shows "unat (ucast i * bs) = unat i * n"
proof -
  have "unat i * n < 2 ^ 64"
    using assms(1,2) by (metis le_less_trans less_or_eq_imp_le mult_le_mono1 word_less_nat_alt)
  moreover have "unat (ucast i :: size_t) = unat i"
    using unsigned_less [of i, where ?'a = nat] by (simp add: unsigned_ucast_eq take_bit_nat_eq_self)
  ultimately show ?thesis
    using assms(3) by (simp add: unat_word_ariths)
qed

text \<open>What an operation keeps: the parameters of the allocator, and the arrays of the global heap.\<close>

definition fixed_part :: "allocator \<Rightarrow> size_t \<times> size_t \<times> u32 \<times> AllocatorMode \<times> nat" where
  "fixed_part a = (m_blockSize a, m_objectsize a, m_maxObjects a, m_allocatorMode a, m_pPool a)"

definition grows :: "memory \<Rightarrow> memory \<Rightarrow> bool" where
  "grows m m' \<longleftrightarrow> brk m \<le> brk m' \<and> (\<forall>q < brk m. live m' q = live m q)"

lemma owns_frame:
  assumes "owns a m fs us" "grows m m'"
    and "\<And>b x. b \<in> set fs \<Longrightarrow> b \<le> x \<Longrightarrow> x < b + PTR_SIZE \<Longrightarrow> cells m x = cells m' x"
  shows "owns a m' fs us"
proof -
  have "free_list (cells m') (m_pHead a) fs"
    using free_list_cong [of fs "cells m" "cells m'"] assms(1,3) by (simp add: owns_def)
  moreover have below: "b < brk m" if "b \<in> set (fs @ us)" for b
    using ownsD(2) [OF assms(1) that] ownsD(3) [OF assms(1)] by linarith
  have "sourced a m' (fs @ us)"
  proof (cases "m_maxObjects a = 0")
    case True
    then show ?thesis using assms(1,2) below by (simp add: owns_def sourced_def grows_def)
  next
    case False
    then show ?thesis using assms(1,2) by (auto simp: owns_def sourced_def grows_def)
  qed
  moreover have "p + block_bytes a \<le> brk m'" if "p \<in> set (fs @ us)" for p
    using ownsD(2) [OF assms(1) that] assms(2) by (simp add: grows_def)
  ultimately show ?thesis
    using assms(1,2) by (auto simp: owns_def grows_def)
qed

lemma new_block_spec:
  assumes "owns a m [] us" "m_poolIndex a < m_maxObjects a \<or> m_maxObjects a = 0"
  shows "\<exists>p a' m'. new_block handler (a, m) = Some (p, a', m') \<and> 0 < p \<and> cells m' = cells m \<and>
    grows m m' \<and> fixed_part a' = fixed_part a \<and>
    owns (a'\<lparr>m_blocksInUse := m_blocksInUse a' + 1\<rparr>) m' [] (p # us)"
proof (cases "m_maxObjects a = 0")
  case True
  let ?n = "block_bytes a"
  have o: "8 \<le> ?n" "\<And>q. q \<in> set us \<Longrightarrow> 0 < q \<and> q + ?n \<le> brk m" "0 < brk m"
    "disjoint_blocks ?n us" "sourced a m us"
    using assms(1) by (simp_all add: owns_def)
  then have "brk m \<notin> set us" "\<And>q. q \<in> set us \<Longrightarrow> apart ?n (brk m) q" by (force simp: apart_def)+
  with True o assms(1) show ?thesis
    by (force simp: new_block_def new_chars_def owns_def sourced_def disjoint_blocks_Cons grows_def fixed_part_def)
next
  case False
  with assms(2) have less: "m_poolIndex a < m_maxObjects a" by simp
  let ?n = "block_bytes a" and ?i = "unat (m_poolIndex a)" and ?mx = "unat (m_maxObjects a)"
  let ?p = "m_pPool a + ?i * ?n"
  have o: "8 \<le> ?n" "\<And>q. q \<in> set us \<Longrightarrow> 0 < q \<and> q + ?n \<le> brk m" "0 < m_pPool a" "?mx * ?n < 2 ^ 64"
    "m_pPool a + ?mx * ?n \<le> brk m"
    "\<And>q. q \<in> set us \<Longrightarrow> \<exists>i < ?i. q = m_pPool a + i * ?n"
    using assms(1) False by (simp_all add: owns_def sourced_def)
  have i: "?i < ?mx" using less by (simp add: word_less_nat_alt)
  then have "Suc ?i * ?n \<le> ?mx * ?n" by (intro mult_le_mono1) simp
  then have top: "?i * ?n + ?n \<le> ?mx * ?n" by simp
  have behind: "q + ?n \<le> ?p" if q: "q \<in> set us" for q
  proof -
    obtain j where j: "j < ?i" "q = m_pPool a + j * ?n" using o(6) [OF q] by blast
    then have "Suc j * ?n \<le> ?i * ?n" by (intro mult_le_mono1) simp
    with j(2) show ?thesis by simp
  qed
  have new: "?p \<notin> set us" "\<And>q. q \<in> set us \<Longrightarrow> apart ?n ?p q"
    using behind o(1) by (force simp: apart_def)+
  have "?mx < 2 ^ 32" using unsigned_less [of "m_maxObjects a", where ?'a = nat] by simp
  with i have step: "unat (m_poolIndex a + 1) = Suc ?i" "m_poolIndex a + 1 \<le> m_maxObjects a"
    by (simp_all add: unat_word_ariths word_le_nat_alt)
  have slots: "\<exists>i < Suc ?i. q = m_pPool a + i * ?n" if "q \<in> set (?p # us)" for q
    using that o(6) [of q] by (auto intro: less_SucI)
  have "new_block handler (a, m) = Some (?p, a\<lparr>m_poolIndex := m_poolIndex a + 1\<rparr>, m)"
    using False less pool_slot [OF o(4) less refl] by (simp add: new_block_def)
  moreover have "owns (a\<lparr>m_poolIndex := m_poolIndex a + 1, m_blocksInUse := m_blocksInUse a + 1\<rparr>) m [] (?p # us)"
    using assms(1) False new step slots o top
    by (simp add: owns_def sourced_def disjoint_blocks_Cons)
  ultimately show ?thesis using o(3) by (simp add: grows_def fixed_part_def)
qed

section \<open>The operations keep it\<close>

lemma owns_statistics [simp]:
  "owns (a\<lparr>m_allocations := n\<rparr>) m fs us = owns a m fs us"
  "owns (a\<lparr>m_deallocations := n\<rparr>) m fs us = owns a m fs us"
  "owns (a\<lparr>m_blockCnt := n\<rparr>) m fs us = owns a m fs us"
  by (simp_all add: owns_def sourced_def)

lemma allocate_spec:
  assumes "owns a m fs us" "sz \<le> m_objectsize a"
    and "fs \<noteq> [] \<or> m_poolIndex a < m_maxObjects a \<or> m_maxObjects a = 0"
  shows "\<exists>p a' m'. Allocate handler sz (a, m) = Some (p, a', m') \<and> 0 < p \<and> cells m' = cells m \<and>
    grows m m' \<and> fixed_part a' = fixed_part a \<and> owns a' m' (tl fs) (p # us) \<and> (fs \<noteq> [] \<longrightarrow> p = hd fs)"
proof (cases fs)
  case Nil
  have pop: "Pop (a, m) = Some (0, a, m)"
    using assms(1) Nil pop_cases [of m a "[]"] by (simp add: owns_def)
  obtain p a' m' where "new_block handler (a, m) = Some (p, a', m')" "0 < p" "cells m' = cells m"
    "grows m m'" "fixed_part a' = fixed_part a" "owns (a'\<lparr>m_blocksInUse := m_blocksInUse a' + 1\<rparr>) m' [] (p # us)"
    using new_block_spec [of a m us handler] assms(1,3) Nil by auto
  with pop assms(2) Nil show ?thesis
    by (simp add: Allocate_def ASSERT_TRUE_def fixed_part_def)
next
  case (Cons b rest)
  let ?a = "a\<lparr>m_pHead := the (load_ptr (cells m) b)\<rparr>"
  have fl: "free_list (cells m) (m_pHead a) (b # rest)" and b: "0 < b"
    using assms(1) Cons by (auto simp: owns_def)
  have pop: "Pop (a, m) = Some (b, ?a, m)"
    using pop_cases [OF fl] by simp
  have "disjoint_blocks (block_bytes a) (rest @ b # us)"
    by (rule disjoint_blocks_set [of _ "fs @ us"])
      (use assms(1) Cons in \<open>auto simp: owns_def disjoint_blocks_def\<close>)
  then have "owns (?a\<lparr>m_blocksInUse := m_blocksInUse a + 1, m_allocations := m_allocations a + 1\<rparr>) m rest (b # us)"
    using assms(1) Cons free_list_tl [OF fl] by (auto simp: owns_def sourced_def)
  with pop b assms(2) Cons show ?thesis
    by (simp add: Allocate_def ASSERT_TRUE_def fixed_part_def grows_def)
qed

lemma deallocate_spec:
  assumes "owns a m fs us" "p \<in> set us"
  shows "\<exists>a' m'. Deallocate p (a, m) = (a', m') \<and> owns a' m' (p # fs) (remove1 p us) \<and>
    cells m' = store_ptr p (m_pHead a) (cells m) \<and> brk m' = brk m \<and> live m' = live m \<and>
    fixed_part a' = fixed_part a \<and> m_blocksInUse a' = m_blocksInUse a - 1"
proof -
  let ?c = "store_ptr p (m_pHead a) (cells m)"
  note d = ownsD(4) [OF assms(1)] and n = ownsD(3) [OF assms(1)]
  have "free_list ?c (m_pHead a) fs = free_list (cells m) (m_pHead a) fs"
  proof (rule free_list_cong)
    fix b x assume b: "b \<in> set fs" "b \<le> x" "x < b + PTR_SIZE"
    have "b \<noteq> p" using d b(1) assms(2) by (auto simp: disjoint_blocks_def)
    with d b(1) assms(2) have "apart (block_bytes a) b p" by (simp add: disjoint_blocks_def)
    with b n show "?c x = cells m x" by (intro store_other) (auto simp: apart_def PTR_SIZE_def)
  qed
  then have fl: "free_list ?c p (p # fs)"
    using ownsD(5) [OF assms(1)] ownsD(1) [OF assms(1), of p] assms(2) by simp
  have mem: "set ((p # fs) @ remove1 p us) \<subseteq> set (fs @ us)"
    using assms(2) set_remove1_subset [of p us] by auto
  have "distinct ((p # fs) @ remove1 p us)"
    using d assms(2) set_remove1_subset [of p us] by (auto simp: disjoint_blocks_def)
  then have db: "disjoint_blocks (block_bytes a) ((p # fs) @ remove1 p us)"
    using mem by (rule disjoint_blocks_set [OF d])
  have "length us = Suc (length (remove1 p us))"
    using assms(2) length_pos_if_in_set [OF assms(2)] by (simp add: length_remove1)
  then have cnt: "m_blocksInUse a - 1 = of_nat (length (remove1 p us))"
    using ownsD(6) [OF assms(1)] by simp
  have "sourced a m ((p # fs) @ remove1 p us)"
    using assms(1) mem unfolding owns_def by (blast intro: sourced_mono)
  then have src: "sourced (a\<lparr>m_pHead := p, m_blocksInUse := m_blocksInUse a - 1\<rparr>) (m\<lparr>cells := ?c\<rparr>)
      ((p # fs) @ remove1 p us)"
    by (simp only: sourced_frame)
  have "0 < q \<and> q + block_bytes a \<le> brk m" if "q \<in> set ((p # fs) @ remove1 p us)" for q
    using ownsD(1,2) [OF assms(1), of q] mem that by blast
  with fl db cnt src have "owns (a\<lparr>m_pHead := p, m_blocksInUse := m_blocksInUse a - 1\<rparr>) (m\<lparr>cells := ?c\<rparr>)
      (p # fs) (remove1 p us)"
    using assms(1) unfolding owns_def by simp
  then show ?thesis
    by (simp add: Deallocate_def Push_def fixed_part_def)
qed

section \<open>The contract with the clients\<close>

text \<open>
  A store of blocks of one size.  \<open>ok s us\<close>: the store is consistent and its clients hold the blocks
  \<open>us\<close>; \<open>get\<close> hands out one more and does not touch the memory, \<open>put\<close> takes one back and may write
  into that block only.
\<close>

locale block_store =
  fixes ok :: "'s \<Rightarrow> nat list \<Rightarrow> bool"
    and content :: "'s \<Rightarrow> nat \<Rightarrow> cell"
    and bytes :: "'s \<Rightarrow> nat"
    and get :: "'s \<Rightarrow> (nat \<times> 's) option"
    and put :: "nat \<Rightarrow> 's \<Rightarrow> 's"
  assumes get_ok: "ok s us \<Longrightarrow> \<exists>p s'. get s = Some (p, s') \<and> 0 < p \<and> ok s' (p # us) \<and>
      content s' = content s \<and> bytes s' = bytes s"
    and put_ok: "ok s us \<Longrightarrow> p \<in> set us \<Longrightarrow> ok (put p s) (remove1 p us) \<and> bytes (put p s) = bytes s"
    and put_content: "ok s us \<Longrightarrow> p \<in> set us \<Longrightarrow> x < p \<or> p + bytes s \<le> x \<Longrightarrow>
      content (put p s) x = content s x"
    and blocks: "ok s us \<Longrightarrow> disjoint_blocks (bytes s) us"
begin

text \<open>The clients ask for blocks and give back blocks they hold; \<open>None\<close> in the list is a request.\<close>

fun client :: "nat option list \<Rightarrow> 's \<times> nat list \<Rightarrow> ('s \<times> nat list) option" where
  "client [] st = Some st"
| "client (None # os) (s, us) = (case get s of None \<Rightarrow> None | Some (p, s') \<Rightarrow> client os (s', p # us))"
| "client (Some p # os) (s, us) = (if p \<in> set us then client os (put p s, remove1 p us) else None)"

lemma client_ok:
  "ok s us \<Longrightarrow> client os (s, us) = Some (s', us') \<Longrightarrow> ok s' us' \<and> bytes s' = bytes s"
proof (induction os "(s, us)" arbitrary: s us rule: client.induct)
  case (2 os s us)
  obtain p s1 where "get s = Some (p, s1)" "ok s1 (p # us)" "bytes s1 = bytes s"
    using get_ok [OF 2(2)] by blast
  with 2(1) [of "(p, s1)" p s1] 2(3) show ?case by simp
next
  case (3 p os s us)
  then show ?case using put_ok [of s us p] by (auto split: if_splits)
qed simp

text \<open>A request is always served.\<close>

lemma client_total:
  "ok s us \<Longrightarrow> set os \<subseteq> {None} \<Longrightarrow> \<exists>s' us'. client os (s, us) = Some (s', us') \<and> length us' = length us + length os"
proof (induction os arbitrary: s us)
  case (Cons x os)
  obtain p s1 where g: "get s = Some (p, s1)" "ok s1 (p # us)" using get_ok [OF Cons.prems(1)] by blast
  from Cons.IH [OF this(2)] Cons.prems(2) g show ?case by fastforce
qed simp

text \<open>The contents of a block that is held all the time do not change.\<close>

lemma held_content:
  assumes "ok s us" "client os (s, us) = Some (s', us')" "q \<in> set us" "Some q \<notin> set os"
    and "q \<le> x" "x < q + bytes s"
  shows "q \<in> set us' \<and> content s' x = content s x"
  using assms
proof (induction os "(s, us)" arbitrary: s us rule: client.induct)
  case (2 os s us)
  obtain p s1 where "get s = Some (p, s1)" "ok s1 (p # us)" "bytes s1 = bytes s" "content s1 = content s"
    using get_ok [OF 2(2)] by blast
  with 2(1) [of "(p, s1)" p s1] 2(3-) show ?case by simp
next
  case (3 p os s us)
  then have p: "p \<in> set us" "p \<noteq> q" by (auto split: if_splits)
  note o = put_ok [OF 3(2) p(1)]
  have "apart (bytes s) p q"
    using blocks [OF 3(2)] p 3(4) by (simp add: disjoint_blocks_def)
  then have "content (put p s) x = content s x"
    using put_content [OF 3(2) p(1), of x] 3(6,7) by (auto simp: apart_def)
  moreover have "q \<in> set (remove1 p us)" using p(2) 3(4) by (simp add: in_set_remove1)
  ultimately show ?case using 3(1) [OF p(1)] o 3(3-) p(1) by simp
qed simp

end

text \<open>The allocator that takes its blocks from the global heap keeps the contract.\<close>

definition heap_ok_store :: "alloc_state \<Rightarrow> nat list \<Rightarrow> bool" where
  "heap_ok_store = (\<lambda>(a, m) us. m_maxObjects a = 0 \<and> (\<exists>fs. owns a m fs us))"

definition get_block :: "alloc_state \<Rightarrow> (nat \<times> alloc_state) option" where
  "get_block st = Allocate False (m_objectsize (fst st)) st"

interpretation heap_blocks: block_store heap_ok_store "\<lambda>st. cells (snd st)" "\<lambda>st. block_bytes (fst st)"
  get_block Deallocate
proof (unfold_locales, goal_cases)
  case (1 s us)
  obtain a m where s: "s = (a, m)" by force
  with 1 obtain fs where o: "owns a m fs us" "m_maxObjects a = 0" by (auto simp: heap_ok_store_def)
  from allocate_spec [OF o(1) order_refl, of False] o(2) show ?case
    by (auto simp: s get_block_def heap_ok_store_def fixed_part_def)
next
  case (2 s us p)
  obtain a m where s: "s = (a, m)" by force
  with 2 obtain fs where o: "owns a m fs us" "m_maxObjects a = 0" by (auto simp: heap_ok_store_def)
  from deallocate_spec [OF o(1) 2(2)] o(2) show ?case
    by (auto simp: s heap_ok_store_def fixed_part_def)
next
  case (3 s us p x)
  obtain a m where s: "s = (a, m)" by force
  with 3 obtain fs where o: "owns a m fs us" "m_maxObjects a = 0" by (auto simp: heap_ok_store_def)
  have "8 \<le> block_bytes a" by (rule ownsD(3) [OF o(1)])
  with deallocate_spec [OF o(1) 3(2)] 3(3) show ?case
    by (auto simp: s store_other PTR_SIZE_def)
next
  case (4 s us)
  obtain a m where s: "s = (a, m)" by force
  with 4 obtain fs where "owns a m fs us" by (auto simp: heap_ok_store_def)
  from ownsD(4) [OF this] show ?case
    by (auto simp: s disjoint_blocks_def)
qed

lemma constructor_owns:
  assumes "0 < brk m"
  shows "heap_ok_store (Allocator sz 0 mem name m) []"
proof -
  have "8 \<le> unat (if sz < 8 then 8 else sz)" by (simp add: word_less_nat_alt not_less)
  moreover have "sz \<le> (if sz < 8 then 8 else sz)" by (simp add: order.strict_implies_order)
  ultimately show ?thesis using assms
    by (auto simp: heap_ok_store_def Allocator_def Let_def owns_def sourced_def disjoint_blocks_def
        intro!: exI [of _ "[]"])
qed

section \<open>Deleting an allocator\<close>

lemma delete_blocks_spec:
  assumes "owns a m fs us" "m_maxObjects a = 0"
  shows "delete_blocks (a, m) = Some (m\<lparr>live := live m |` (- set fs)\<rparr>)"
  using assms
proof (induction fs arbitrary: a m)
  case Nil
  have "m_pHead a = 0" using ownsD(5) [OF Nil(1)] by simp
  then show ?case by (simp add: delete_blocks.simps [of "(a, m)"])
next
  case (Cons b fs)
  let ?a = "a\<lparr>m_pHead := the (load_ptr (cells m) b)\<rparr>" and ?m = "m\<lparr>live := (live m)(b := None)\<rparr>"
  note fl = ownsD(5) [OF Cons.prems(1)]
  have head: "m_pHead a = b" "b \<noteq> 0" using fl by simp_all
  have b: "b \<notin> set (fs @ us)" "disjoint_blocks (block_bytes a) (fs @ us)"
    using ownsD(4) [OF Cons.prems(1)] by (simp_all add: disjoint_blocks_Cons)
  have lv: "live m b = Some (block_bytes a)"
    using Cons.prems by (simp add: owns_def sourced_def)
  have src: "sourced ?a ?m (fs @ us)"
    using Cons.prems b(1) by (auto simp: owns_def sourced_def)
  have "owns ?a ?m fs us"
    using Cons.prems(1) free_list_tl [OF fl] b(2) src unfolding owns_def by simp
  moreover have "m_maxObjects ?a = 0" using Cons.prems(2) by simp
  ultimately have rest: "delete_blocks (?a, ?m) = Some (?m\<lparr>live := live ?m |` (- set fs)\<rparr>)"
    by (rule Cons.IH)
  have "delete_blocks (a, m) = delete_blocks (?a, ?m)"
    using head pop_cases [OF fl] lv
    by (subst delete_blocks.simps) (auto simp: delete_chars_def)
  moreover have "?m\<lparr>live := live ?m |` (- set fs)\<rparr> = m\<lparr>live := live m |` (- set (b # fs))\<rparr>"
    by (cases m) (auto simp: restrict_map_def)
  ultimately show ?case using rest by (simp only:)
qed

section \<open>Properties\<close>

text \<open>
  C8.  The allocator and its clients, from the constructor on: whatever sequence of requests and
  returns of held blocks, every request is served, the blocks in the hands of clients do not overlap
  and the contents of a block stay what they are until it is given back, although the free list is
  kept inside of the blocks.  The count of blocks in use is right.
\<close>

theorem allocator_serves_clients:
  assumes "0 < brk m" "heap_blocks.client os (Allocator sz 0 0 name m, []) = Some ((a, m'), us)"
  shows "disjoint_blocks (block_bytes a) us \<and> unat sz \<le> block_bytes a \<and>
    m_blocksInUse a = of_nat (length us) \<and>
    (\<exists>p st. get_block (a, m') = Some (p, st) \<and> 0 < p \<and> disjoint_blocks (block_bytes a) (p # us)) \<and>
    (\<forall>more a2 m2 us2 q x. heap_blocks.client more ((a, m'), us) = Some ((a2, m2), us2) \<and> q \<in> set us \<and>
       Some q \<notin> set more \<and> q \<le> x \<and> x < q + block_bytes a \<longrightarrow> q \<in> set us2 \<and> cells m2 x = cells m' x)"
proof -
  note start = constructor_owns [OF assms(1), of sz 0 name]
  have end_ok: "heap_ok_store (a, m') us" and bytes: "block_bytes a = block_bytes (fst (Allocator sz 0 0 name m))"
    using heap_blocks.client_ok [OF start assms(2)] by simp_all
  obtain fs where o: "owns a m' fs us" using end_ok by (auto simp: heap_ok_store_def)
  have d: "disjoint_blocks (block_bytes a) us" using heap_blocks.blocks [OF end_ok] by simp
  have "unat sz \<le> block_bytes a"
    using bytes by (simp add: Allocator_def Let_def word_less_nat_alt)
  moreover obtain p st where "get_block (a, m') = Some (p, st)" "0 < p" "heap_ok_store st (p # us)"
      "block_bytes (fst st) = block_bytes a"
    using heap_blocks.get_ok [OF end_ok] by auto
  moreover from this have "disjoint_blocks (block_bytes a) (p # us)"
    using heap_blocks.blocks [of st "p # us"] by simp
  moreover have "q \<in> set us2 \<and> cells m2 x = cells m' x"
    if "heap_blocks.client more ((a, m'), us) = Some ((a2, m2), us2)" "q \<in> set us" "Some q \<notin> set more"
      "q \<le> x" "x < q + block_bytes a" for more a2 m2 us2 q x
    using heap_blocks.held_content [OF end_ok that(1-4), of] that(5) by simp
  ultimately show ?thesis using d ownsD(6) [OF o] by blast
qed

definition blank :: memory where
  "blank = \<lparr>cells = (\<lambda>_. Byte 0), brk = 4096, live = Map.empty\<rparr>"

theorem allocator_serves_clients_witness:
  "\<exists>a m'. heap_blocks.client [None, None, Some 4096, None] (Allocator 16 0 0 [] blank, []) =
     Some ((a, m'), [4096, 4112]) \<and> m_blocksInUse a = 2 \<and> disjoint_blocks (block_bytes a) [4096, 4112]"
proof -
  have "0 < brk blank" by (simp add: blank_def)
  have "\<exists>a m'. heap_blocks.client [None, None, Some 4096, None] (Allocator 16 0 0 [] blank, []) =
      Some ((a, m'), [4096, 4112])"
    by (simp add: Allocator_def Let_def get_block_def Allocate_def Pop_def new_block_def new_chars_def
        Deallocate_def Push_def ASSERT_TRUE_def blank_def)
  then obtain a m' where run: "heap_blocks.client [None, None, Some 4096, None] (Allocator 16 0 0 [] blank, []) =
      Some ((a, m'), [4096, 4112])" by blast
  from allocator_serves_clients [OF \<open>0 < brk blank\<close> run] run show ?thesis by auto
qed

text \<open>
  C35.  A pool of \<open>n\<close> objects: as long as fewer than \<open>n\<close> blocks are in use a request is served with a slot of the
  pool.  When all are in use the request ends in an assertion, or, with a new handler installed,
  returns the null pointer and still counts one more block in use.
\<close>

theorem pool_exhaustion:
  assumes "owns a m fs us" "m_maxObjects a \<noteq> 0" "sz \<le> m_objectsize a"
  shows "(fs \<noteq> [] \<or> m_poolIndex a < m_maxObjects a \<longrightarrow>
      (\<exists>p a' m'. Allocate handler sz (a, m) = Some (p, a', m') \<and> owns a' m' (tl fs) (p # us) \<and>
        (\<exists>i < unat (m_maxObjects a). p = m_pPool a + i * block_bytes a))) \<and>
    (fs = [] \<and> \<not> m_poolIndex a < m_maxObjects a \<longrightarrow>
      Allocate False sz (a, m) = None \<and>
      (\<exists>a'. Allocate True sz (a, m) = Some (0, a', m) \<and> m_blocksInUse a' = of_nat (length us) + 1))"
proof -
  have "\<exists>i < unat (m_maxObjects a). p = m_pPool a + i * block_bytes a"
    if "owns a' m' (tl fs) (p # us)" "fixed_part a' = fixed_part a" for p a' m'
    using that assms(2)
    by (auto simp: owns_def sourced_def fixed_part_def word_le_nat_alt dest: less_le_trans)
  with allocate_spec [OF assms(1,3), of handler]
  have "fs \<noteq> [] \<or> m_poolIndex a < m_maxObjects a \<longrightarrow>
      (\<exists>p a' m'. Allocate handler sz (a, m) = Some (p, a', m') \<and> owns a' m' (tl fs) (p # us) \<and>
        (\<exists>i < unat (m_maxObjects a). p = m_pPool a + i * block_bytes a))"
    by blast
  moreover have "Pop (a, m) = Some (0, a, m)" if "fs = []"
    using that pop_cases [OF ownsD(5) [OF assms(1)]] by simp
  ultimately show ?thesis
    using assms ownsD(6) [OF assms(1)] by (simp add: Allocate_def new_block_def ASSERT_TRUE_def)
qed

definition full_pool :: allocator where
  "full_pool = (fst (Allocator 16 1 4096 [] blank))\<lparr>m_poolIndex := 1, m_blocksInUse := 1\<rparr>"

theorem pool_exhaustion_witness:
  "Allocate False 16 (full_pool, blank\<lparr>brk := 8192\<rparr>) = None \<and>
   (\<exists>a'. Allocate True 16 (full_pool, blank\<lparr>brk := 8192\<rparr>) = Some (0, a', blank\<lparr>brk := 8192\<rparr>) \<and> m_blocksInUse a' = 2)"
proof -
  have "owns full_pool (blank\<lparr>brk := 8192\<rparr>) [] [4096]" "m_maxObjects full_pool \<noteq> 0"
    "16 \<le> m_objectsize full_pool" "\<not> m_poolIndex full_pool < m_maxObjects full_pool"
    by (simp_all add: owns_def sourced_def full_pool_def Allocator_def Let_def blank_def disjoint_blocks_def)
  with pool_exhaustion [of full_pool "blank\<lparr>brk := 8192\<rparr>" "[]" "[4096]" 16 True] show ?thesis by simp
qed

text \<open>
  C34.  Deleting an allocator with blocks of the global heap returns, deletes exactly the free blocks
  and leaves those of its clients allocated.
\<close>

theorem delete_frees_free_blocks:
  assumes "owns a m fs us" "m_maxObjects a = 0"
  shows "\<exists>m'. delete_Allocator (a, m) = Some m' \<and> (\<forall>b \<in> set fs. live m' b = None) \<and>
    (\<forall>b. b \<notin> set fs \<longrightarrow> live m' b = live m b) \<and> (\<forall>b \<in> set us. live m' b \<noteq> None)"
proof -
  have mode: "m_allocatorMode a = HEAP_BLOCKS" and lv: "\<forall>b \<in> set us. live m b \<noteq> None"
    using assms by (auto simp: owns_def sourced_def)
  have "set fs \<inter> set us = {}"
    using ownsD(4) [OF assms(1)] by (simp add: disjoint_blocks_def)
  with lv have "\<forall>b \<in> set us. (live m |` (- set fs)) b \<noteq> None" by (auto simp: restrict_map_def)
  with mode delete_blocks_spec [OF assms] show ?thesis
    by (auto simp: delete_Allocator_def)
qed

theorem delete_frees_free_blocks_witness:
  "\<exists>m'. delete_Allocator (Allocator 16 0 0 [] blank) = Some m'"
proof -
  have "owns (fst (Allocator 16 0 0 [] blank)) blank [] []"
    by (simp add: Allocator_def Let_def owns_def sourced_def disjoint_blocks_def blank_def)
  moreover have "Allocator 16 0 0 [] blank = (fst (Allocator 16 0 0 [] blank), blank)"
    "m_maxObjects (fst (Allocator 16 0 0 [] blank)) = 0"
    by (simp_all add: Allocator_def Let_def)
  ultimately show ?thesis
    using delete_frees_free_blocks [of "fst (Allocator 16 0 0 [] blank)" blank "[]" "[]"] by metis
qed

text \<open>
  A pool class for a type of less than 8 bytes reserves less memory than its blocks take: its
  blocks are 8 bytes long, so already the last slot ends behind the memory of the pool.
\<close>

theorem static_pool_too_small:
  assumes "0 < sizeof_T" "sizeof_T < 8" "0 < Objects" "0 < mem"
  shows "let a = fst (AllocatorPool sizeof_T Objects mem m) in
    m_pPool a = mem \<and> block_bytes a = 8 \<and>
    mem + pool_bytes sizeof_T Objects < m_pPool a + (unat Objects - 1) * block_bytes a + block_bytes a"
proof -
  have "unat sizeof_T < 8" using assms(2) by (simp add: word_less_nat_alt)
  moreover have o: "0 < unat Objects" using assms(3) by (simp add: word_less_nat_alt)
  ultimately have "unat sizeof_T * unat Objects < 8 * unat Objects" by simp
  moreover have "(unat Objects - 1) * 8 + 8 = 8 * unat Objects" using o by (cases "unat Objects") simp_all
  moreover have "Objects \<noteq> 0" using assms(3) by auto
  ultimately show ?thesis
    using assms by (simp add: AllocatorPool_def Allocator_def Let_def pool_bytes_def)
qed

theorem static_pool_too_small_witness:
  "4096 + pool_bytes 4 10 < 4096 + (10 - 1) * 8 + 8"
  using static_pool_too_small [of 4 10 4096 blank] by (simp add: Let_def pool_bytes_def)

end
