(* ===== verification/Xallocator.thy ===== *)
theory Xallocator
  imports Fixed_Allocator
begin

text \<open>
  The replacement of \<^verbatim>\<open>malloc\<close> and \<^verbatim>\<open>free\<close>, \<^verbatim>\<open>src/engine/xallocator.cpp\<close>, in its mode with blocks of the
  global heap: one fixed block allocator for every size class, and in front of every block a pointer
  to the allocator it came from.  The locks are empty on this platform but for their flag.
\<close>

section \<open>Size classes\<close>

text \<open>The loop of \<^verbatim>\<open>nexthigher\<close>: \<open>i\<close> is 1, 2, 4, ... below the 64 bits of a \<^verbatim>\<open>size_t\<close>.\<close>

function smear :: "nat \<Rightarrow> size_t \<Rightarrow> size_t" where
  "smear i k = (if 0 < i \<and> i < 64 then smear (2 * i) (k OR drop_bit i k) else k)"
  by pat_completeness auto
termination
  by (relation "measure (\<lambda>(i, k). 64 - i)") auto

declare smear.simps [simp del]

definition nexthigher :: "size_t \<Rightarrow> size_t" where
  "nexthigher k = smear 1 (k - 1) + 1"

definition block_size :: "size_t \<Rightarrow> size_t" where
  "block_size sz = (let blockSize = sz + 8 in
     if 256 < blockSize \<and> blockSize \<le> 396 then 396
     else if 512 < blockSize \<and> blockSize \<le> 768 then 768
     else nexthigher blockSize)"

section \<open>State\<close>

definition MAX_ALLOCATORS :: nat where "MAX_ALLOCATORS = 15"

text \<open>The table of allocators (0 is a null pointer), the allocators by address, and the memory.\<close>

record xstate =
  xmem :: memory
  objects :: "nat \<rightharpoonup> allocator"
  allocators :: "nat list"
  xallocInitialized :: bool
  refCount :: int

definition xinitial :: "memory \<Rightarrow> xstate" where
  "xinitial m = \<lparr>xmem = m, objects = Map.empty, allocators = replicate MAX_ALLOCATORS 0,
     xallocInitialized = False, refCount = 0\<rparr>"

definition lock_init :: "xstate \<Rightarrow> xstate" where "lock_init st = st\<lparr>xallocInitialized := True\<rparr>"
definition lock_destroy :: "xstate \<Rightarrow> xstate" where "lock_destroy st = st\<lparr>xallocInitialized := False\<rparr>"

section \<open>The pointer in front of a block\<close>

definition set_block_allocator :: "nat \<Rightarrow> nat \<Rightarrow> xstate \<Rightarrow> nat \<times> xstate" where
  "set_block_allocator block allocator st = (block + PTR_SIZE,
     st\<lparr>xmem := (xmem st)\<lparr>cells := store_ptr block allocator (cells (xmem st))\<rparr>\<rparr>)"

definition get_block_allocator :: "nat \<Rightarrow> xstate \<Rightarrow> nat option" where
  "get_block_allocator block st = load_ptr (cells (xmem st)) (block - PTR_SIZE)"

definition get_block_ptr :: "nat \<Rightarrow> nat" where
  "get_block_ptr block = block - PTR_SIZE"

section \<open>The table\<close>

fun find_from :: "(nat \<rightharpoonup> allocator) \<Rightarrow> size_t \<Rightarrow> nat list \<Rightarrow> nat option" where
  "find_from objs sz [] = Some 0"
| "find_from objs sz (x # xs) = (if x = 0 then Some 0
     else case objs x of None \<Rightarrow> None
       | Some a \<Rightarrow> if GetBlockSize a = sz then Some x else find_from objs sz xs)"

definition find_allocator :: "size_t \<Rightarrow> xstate \<Rightarrow> nat option" where
  "find_allocator sz st = find_from (objects st) sz (allocators st)"

fun insert_in :: "nat \<Rightarrow> nat list \<Rightarrow> nat list option" where
  "insert_in allocator [] = None"
| "insert_in allocator (x # xs) = (if x = 0 then Some (allocator # xs)
     else map_option (Cons x) (insert_in allocator xs))"

definition insert_allocator :: "nat \<Rightarrow> xstate \<Rightarrow> xstate option" where
  "insert_allocator allocator st =
     map_option (\<lambda>t. st\<lparr>allocators := t\<rparr>) (insert_in allocator (allocators st))"

definition sizeof_Allocator :: nat where "sizeof_Allocator = 72"

text \<open>\<^verbatim>\<open>new Allocator(blockSize, 0, 0, "xallocator")\<close>.\<close>

definition new_Allocator :: "size_t \<Rightarrow> xstate \<Rightarrow> nat \<times> xstate" where
  "new_Allocator blockSize st =
     (let (p, m) = new_chars sizeof_Allocator (xmem st);
          (a, m) = Allocator blockSize 0 0 ''xallocator'' m
      in (p, st\<lparr>xmem := m, objects := (objects st)(p \<mapsto> a)\<rparr>))"

definition xallocator_get_allocator :: "size_t \<Rightarrow> xstate \<Rightarrow> (nat \<times> xstate) option" where
  "xallocator_get_allocator sz st = do {
     let blockSize = block_size sz;
     allocator \<leftarrow> find_allocator blockSize st;
     if allocator = 0 then do {
       let (allocator, st) = new_Allocator blockSize st;
       st \<leftarrow> insert_allocator allocator st;
       Some (allocator, st) }
     else Some (allocator, st) }"

section \<open>The interface\<close>

definition xalloc_init :: "xstate \<Rightarrow> xstate" where
  "xalloc_init st = lock_init st"

text \<open>\<^verbatim>\<open>delete _allocators[i]\<close>: the destructor, then the object itself.\<close>

definition delete_object :: "nat \<Rightarrow> xstate \<Rightarrow> xstate option" where
  "delete_object x st = do {
     a \<leftarrow> objects st x;
     m \<leftarrow> delete_Allocator (a, xmem st);
     m \<leftarrow> delete_chars x m;
     Some (st\<lparr>xmem := m, objects := (objects st)(x := None)\<rparr>) }"

fun destroy_from :: "nat list \<Rightarrow> xstate \<Rightarrow> (nat list \<times> xstate) option" where
  "destroy_from [] st = Some ([], st)"
| "destroy_from (x # xs) st = (if x = 0 then Some (x # xs, st)
     else do {
       st \<leftarrow> delete_object x st;
       (t, st) \<leftarrow> destroy_from xs st;
       Some (0 # t, st) })"

definition xalloc_destroy :: "xstate \<Rightarrow> xstate option" where
  "xalloc_destroy st = do {
     (t, st) \<leftarrow> destroy_from (allocators st) st;
     Some (lock_destroy (st\<lparr>allocators := t\<rparr>)) }"

definition XallocInitDestroy :: "xstate \<Rightarrow> xstate" where
  "XallocInitDestroy st = (let st' = st\<lparr>refCount := refCount st + 1\<rparr>
     in if refCount st = 0 then xalloc_init st' else st')"

definition delete_XallocInitDestroy :: "xstate \<Rightarrow> xstate option" where
  "delete_XallocInitDestroy st = (let st' = st\<lparr>refCount := refCount st - 1\<rparr>
     in if refCount st' = 0 then xalloc_destroy st' else Some st')"

definition xmalloc :: "size_t \<Rightarrow> xstate \<Rightarrow> (nat \<times> xstate) option" where
  "xmalloc sz st = do {
     (allocator, st) \<leftarrow> xallocator_get_allocator sz st;
     a \<leftarrow> objects st allocator;
     (blockMemoryPtr, a, m) \<leftarrow> Allocate False (8 + sz) (a, xmem st);
     Some (set_block_allocator blockMemoryPtr allocator
       (st\<lparr>xmem := m, objects := (objects st)(allocator \<mapsto> a)\<rparr>)) }"

definition xfree :: "nat \<Rightarrow> xstate \<Rightarrow> xstate option" where
  "xfree ptr st = (if ptr = 0 then Some st
     else do {
       allocator \<leftarrow> get_block_allocator ptr st;
       a \<leftarrow> objects st allocator;
       let (a, m) = Deallocate (get_block_ptr ptr) (a, xmem st);
       Some (st\<lparr>xmem := m, objects := (objects st)(allocator \<mapsto> a)\<rparr>) })"

definition memcpy :: "nat \<Rightarrow> nat \<Rightarrow> nat \<Rightarrow> xstate \<Rightarrow> xstate" where
  "memcpy dst src n st = st\<lparr>xmem := (xmem st)\<lparr>cells := (\<lambda>x.
     if dst \<le> x \<and> x < dst + n then cells (xmem st) (src + (x - dst)) else cells (xmem st) x)\<rparr>\<rparr>"

definition xrealloc :: "nat \<Rightarrow> size_t \<Rightarrow> xstate \<Rightarrow> (nat \<times> xstate) option" where
  "xrealloc oldMem sz st =
     (if oldMem = 0 then xmalloc sz st
      else if sz = 0 then map_option (Pair 0) (xfree oldMem st)
      else do {
        (newMem, st) \<leftarrow> xmalloc sz st;
        if newMem \<noteq> 0 then do {
          oldAllocator \<leftarrow> get_block_allocator oldMem st;
          a \<leftarrow> objects st oldAllocator;
          let oldSize = GetBlockSize a - 8;
          let st = memcpy newMem oldMem (unat (if oldSize < sz then oldSize else sz)) st;
          st \<leftarrow> xfree oldMem st;
          Some (newMem, st) }
        else Some (0, st) })"

text \<open>The lines of \<^verbatim>\<open>xalloc_stats\<close>: name, block size, block count, blocks in use.\<close>

definition xalloc_stats :: "xstate \<Rightarrow> (string \<times> size_t \<times> u32 \<times> u32) list" where
  "xalloc_stats st = map (\<lambda>x. case objects st x of None \<Rightarrow> ([], 0, 0, 0)
       | Some a \<Rightarrow> (m_name a, GetBlockSize a, m_blockCnt a, m_blocksInUse a))
     (takeWhile (\<lambda>x. x \<noteq> 0) (allocators st))"

section \<open>The next higher power of two\<close>

lemma bit_smear_step:
  fixes k :: size_t
  assumes "\<And>n. bit x n \<longleftrightarrow> (\<exists>m. n \<le> m \<and> m < n + i \<and> bit k m)"
  shows "bit (x OR drop_bit i x :: size_t) n \<longleftrightarrow> (\<exists>m. n \<le> m \<and> m < n + 2 * i \<and> bit k m)"
proof -
  have "bit (x OR drop_bit i x) n \<longleftrightarrow> bit x n \<or> bit x (i + n)"
    by (simp add: bit_or_iff bit_drop_bit_eq)
  also have "\<dots> \<longleftrightarrow> (\<exists>m. n \<le> m \<and> m < n + 2 * i \<and> bit k m)"
  proof
    assume "bit x n \<or> bit x (i + n)"
    then show "\<exists>m. n \<le> m \<and> m < n + 2 * i \<and> bit k m"
    proof
      assume "bit x n"
      then obtain m where "n \<le> m" "m < n + i" "bit k m" unfolding assms by blast
      then show ?thesis by (intro exI [of _ m]) simp
    next
      assume "bit x (i + n)"
      then obtain m where "i + n \<le> m" "m < i + n + i" "bit k m" unfolding assms by blast
      then show ?thesis by (intro exI [of _ m]) simp
    qed
  next
    assume "\<exists>m. n \<le> m \<and> m < n + 2 * i \<and> bit k m"
    then obtain m where m: "n \<le> m" "m < n + 2 * i" "bit k m" by blast
    show "bit x n \<or> bit x (i + n)"
    proof (cases "m < n + i")
      case True
      then show ?thesis using m unfolding assms by blast
    next
      case False
      then have "i + n \<le> m" "m < i + n + i" using m(2) by simp_all
      then show ?thesis using m(3) unfolding assms by blast
    qed
  qed
  finally show ?thesis .
qed

lemma bit_smear:
  fixes k :: size_t
  assumes "\<And>n. bit x n \<longleftrightarrow> (\<exists>m. n \<le> m \<and> m < n + i \<and> bit k m)" "0 < i"
  shows "bit (smear i x) n \<longleftrightarrow> (\<exists>m. n \<le> m \<and> bit k m)"
  using assms
proof (induction i x rule: smear.induct)
  case (1 i x)
  show ?case
  proof (cases "i < 64")
    case True
    then have "bit (smear (2 * i) (x OR drop_bit i x)) n \<longleftrightarrow> (\<exists>m. n \<le> m \<and> bit k m)"
      using 1(3) by (intro 1(1)) (simp_all add: bit_smear_step [OF 1(2)])
    with True 1(3) show ?thesis by (simp add: smear.simps [of i x])
  next
    case False
    then have "bit (smear i x) n \<longleftrightarrow> bit x n" by (simp add: smear.simps [of i x])
    moreover have "m < n + i" if "bit k m" for m
      using bit_imp_le_length [OF that] False by simp
    ultimately show ?thesis unfolding 1(2) by blast
  qed
qed

lemma smear_mask:
  fixes k :: size_t
  assumes "2 ^ h \<le> unat k" "unat k < 2 ^ Suc h" "h < 64"
  shows "smear 1 k = mask (Suc h)"
proof (rule bit_eqI)
  fix n assume "possible_bit TYPE(64 word) n"
  then have n: "n < 64" by (simp add: possible_bit_def)
  have b: "bit k m \<longleftrightarrow> odd (unat k div 2 ^ m)" for m
    using bit_unsigned_iff [of k m, where ?'a = nat] by (simp add: bit_iff_odd)
  have "unat k div 2 ^ h = 1"
    using assms(1,2) by (intro div_nat_eqI) simp_all
  then have top: "bit k h" using b [of h] by simp
  have "m \<le> h" if "bit k m" for m
  proof (rule ccontr)
    assume "\<not> m \<le> h"
    then have "2 ^ Suc h \<le> (2 :: nat) ^ m" by (intro power_increasing) simp_all
    with assms(2) have "unat k div 2 ^ m = 0" by simp
    with b [of m] that show False by simp
  qed
  moreover have "bit (smear 1 k) n \<longleftrightarrow> (\<exists>m. n \<le> m \<and> bit k m)"
    by (rule bit_smear) (auto simp: less_Suc_eq_le dest: le_antisym)
  ultimately show "bit (smear 1 k) n \<longleftrightarrow> bit (mask (Suc h) :: size_t) n"
    using top n by (auto simp: bit_mask_iff less_Suc_eq_le intro: order_trans)
qed

lemma unat_power2:
  assumes "n < 64"
  shows "unat (2 ^ n :: size_t) = 2 ^ n"
proof -
  have "(2 :: nat) ^ n < 2 ^ 64" using assms by (intro power_strict_increasing) simp_all
  then have "unat (of_nat (2 ^ n) :: size_t) = 2 ^ n"
    unfolding unsigned_of_nat using take_bit_nat_eq_self [of "2 ^ n" 64] by (simp only: len_num0 of_nat_id) simp
  then show ?thesis by simp
qed

lemma smear_zero: "smear (Suc 0) 0 = 0"
  by (simp add: smear.simps)

lemma nexthigher_power:
  assumes "0 < k" "unat k \<le> 2 ^ 63"
  shows "\<exists>j. unat (nexthigher k) = 2 ^ j \<and> unat k \<le> 2 ^ j \<and> (\<forall>i. unat k \<le> 2 ^ i \<longrightarrow> j \<le> i) \<and> j \<le> 63"
proof (cases "k = 1")
  case True
  then show ?thesis by (intro exI [of _ 0]) (simp add: nexthigher_def smear_zero)
next
  case False
  then have "unat k \<noteq> 1" by (metis unat_1 word_unat_eq_iff)
  moreover have "unat k \<noteq> 0" using assms(1) by (metis unat_0 word_unat_eq_iff less_irrefl)
  ultimately have two: "2 \<le> unat k" by simp
  have k1: "unat (k - 1) = unat k - 1" using assms(1) by (simp add: unat_minus_one word_neq_0_conv)
  obtain h where h: "2 ^ h \<le> unat k - 1" "unat k - 1 < 2 ^ Suc h"
  proof -
    have "1 \<le> unat k - 1" using two by simp
    from ex_power_ivl1 [OF order_refl this] that show thesis by (metis Suc_eq_plus1)
  qed
  have "(2 :: nat) ^ h < 2 ^ 63" using h(1) assms(2) two by linarith
  then have "h < 63" by (rule power_less_imp_less_exp [rotated]) simp
  then have h62: "h \<le> 62" by simp
  have "nexthigher k = mask (Suc h) + 1"
    using smear_mask [of h "k - 1"] h k1 h62 by (simp add: nexthigher_def)
  also have "\<dots> = 2 ^ Suc h" by (simp add: mask_eq_decr_exp)
  finally have "unat (nexthigher k) = 2 ^ Suc h" using h62 unat_power2 [of "Suc h"] by simp
  moreover have "Suc h \<le> i" if "unat k \<le> 2 ^ i" for i
  proof (rule ccontr)
    assume "\<not> Suc h \<le> i"
    then have "(2 :: nat) ^ i \<le> 2 ^ h" by (intro power_increasing) simp_all
    with that h(1) two show False by linarith
  qed
  ultimately show ?thesis using h(2) two h62 by (intro exI [of _ "Suc h"]) auto
qed

lemma size_plus:
  fixes sz :: size_t
  assumes "unat sz + 8 \<le> 2 ^ 63"
  shows "unat (sz + 8) = unat sz + 8" "0 < sz + 8" "8 + sz = sz + 8"
proof -
  show u: "unat (sz + 8) = unat sz + 8" using assms by (simp add: unat_word_ariths)
  show "0 < sz + 8" using u by (simp add: word_less_nat_alt)
  show "8 + sz = sz + 8" by (rule add.commute)
qed

lemma block_size_fits:
  assumes "unat sz + 8 \<le> 2 ^ 63"
  shows "unat sz + 8 \<le> unat (block_size sz)"
    "block_size sz \<in> {396, 768} \<or> (\<exists>j. 3 \<le> j \<and> j \<le> 63 \<and> unat (block_size sz) = 2 ^ j \<and>
       (\<forall>i. unat sz + 8 \<le> 2 ^ i \<longrightarrow> j \<le> i))"
proof -
  note sp = size_plus [OF assms]
  obtain j where j: "unat (nexthigher (sz + 8)) = 2 ^ j" "unat sz + 8 \<le> 2 ^ j"
      "\<forall>i. unat sz + 8 \<le> 2 ^ i \<longrightarrow> j \<le> i" "j \<le> 63"
    using nexthigher_power [OF sp(2)] sp(1) assms by auto
  have "(2 :: nat) ^ 3 \<le> 2 ^ j" using j(2) by simp
  then have "3 \<le> j" by (rule power_le_imp_le_exp [rotated]) simp
  with j show "block_size sz \<in> {396, 768} \<or> (\<exists>j. 3 \<le> j \<and> j \<le> 63 \<and> unat (block_size sz) = 2 ^ j \<and>
       (\<forall>i. unat sz + 8 \<le> 2 ^ i \<longrightarrow> j \<le> i))"
    by (auto simp: block_size_def Let_def)
  have "sz + 8 \<le> 396 \<Longrightarrow> unat sz + 8 \<le> 396" "sz + 8 \<le> 768 \<Longrightarrow> unat sz + 8 \<le> 768"
    using sp(1) by (simp_all add: word_le_nat_alt)
  with j show "unat sz + 8 \<le> unat (block_size sz)"
    by (simp add: block_size_def Let_def)
qed

section \<open>The invariant\<close>

definition object :: "xstate \<Rightarrow> nat \<Rightarrow> allocator" where
  "object st x = the (objects st x)"

abbreviation bytes_of :: "xstate \<Rightarrow> nat \<Rightarrow> nat" where
  "bytes_of st x \<equiv> block_bytes (object st x)"

text \<open>Blocks of \<open>m\<close> bytes at \<open>p\<close> and of \<open>n\<close> bytes at \<open>q\<close> do not overlap.\<close>

definition clear_of :: "nat \<Rightarrow> nat \<Rightarrow> nat \<Rightarrow> nat \<Rightarrow> bool" where
  "clear_of p m q n \<longleftrightarrow> p + m \<le> q \<or> q + n \<le> p"

lemma clear_of_sym: "clear_of p m q n \<longleftrightarrow> clear_of q n p m"
  by (auto simp: clear_of_def)

text \<open>
  \<open>xok st as fr us\<close>: the table holds the allocators \<open>as\<close>, one per block size; allocator \<open>x\<close> has the
  free blocks \<open>fr x\<close>, its clients have \<open>us x\<close>, the blocks of different allocators do not overlap
  either, and every block that is in use begins with the address of its allocator.
\<close>

definition xok :: "xstate \<Rightarrow> nat list \<Rightarrow> (nat \<Rightarrow> nat list) \<Rightarrow> (nat \<Rightarrow> nat list) \<Rightarrow> bool" where
  "xok st as fr us \<longleftrightarrow>
     allocators st = as @ replicate (MAX_ALLOCATORS - length as) 0 \<and> length as \<le> MAX_ALLOCATORS \<and>
     0 < brk (xmem st) \<and> distinct (map (\<lambda>x. m_blockSize (object st x)) as) \<and>
     (\<forall>x \<in> set as. 0 < x \<and> x < brk (xmem st) \<and> objects st x \<noteq> None \<and>
        owns (object st x) (xmem st) (fr x) (us x) \<and> m_maxObjects (object st x) = 0 \<and>
        m_objectsize (object st x) = m_blockSize (object st x) \<and>
        (\<forall>b \<in> set (us x). load_ptr (cells (xmem st)) b = Some x) \<and>
        (\<forall>y \<in> set as. x \<noteq> y \<longrightarrow> (\<forall>b \<in> set (fr x @ us x). \<forall>c \<in> set (fr y @ us y).
           clear_of b (bytes_of st x) c (bytes_of st y))))"

lemma xokD:
  assumes "xok st as fr us"
  shows "allocators st = as @ replicate (MAX_ALLOCATORS - length as) 0" "length as \<le> MAX_ALLOCATORS"
    "0 < brk (xmem st)" "distinct (map (\<lambda>x. m_blockSize (object st x)) as)"
    "x \<in> set as \<Longrightarrow> 0 < x" "x \<in> set as \<Longrightarrow> x < brk (xmem st)"
    "x \<in> set as \<Longrightarrow> objects st x = Some (object st x)"
    "x \<in> set as \<Longrightarrow> owns (object st x) (xmem st) (fr x) (us x)"
    "x \<in> set as \<Longrightarrow> m_maxObjects (object st x) = 0"
    "x \<in> set as \<Longrightarrow> m_objectsize (object st x) = m_blockSize (object st x)"
    "x \<in> set as \<Longrightarrow> b \<in> set (us x) \<Longrightarrow> load_ptr (cells (xmem st)) b = Some x"
    "x \<in> set as \<Longrightarrow> y \<in> set as \<Longrightarrow> x \<noteq> y \<Longrightarrow> b \<in> set (fr x @ us x) \<Longrightarrow> c \<in> set (fr y @ us y) \<Longrightarrow>
       clear_of b (bytes_of st x) c (bytes_of st y)"
  using assms unfolding xok_def object_def by fastforce+

lemma xokI:
  assumes "allocators st = as @ replicate (MAX_ALLOCATORS - length as) 0" "length as \<le> MAX_ALLOCATORS"
    "0 < brk (xmem st)" "distinct (map (\<lambda>x. m_blockSize (object st x)) as)"
    "\<And>x. x \<in> set as \<Longrightarrow> 0 < x \<and> x < brk (xmem st) \<and> objects st x \<noteq> None"
    "\<And>x. x \<in> set as \<Longrightarrow> owns (object st x) (xmem st) (fr x) (us x)"
    "\<And>x. x \<in> set as \<Longrightarrow> m_maxObjects (object st x) = 0 \<and>
       m_objectsize (object st x) = m_blockSize (object st x)"
    "\<And>x b. x \<in> set as \<Longrightarrow> b \<in> set (us x) \<Longrightarrow> load_ptr (cells (xmem st)) b = Some x"
    "\<And>x y b c. x \<in> set as \<Longrightarrow> y \<in> set as \<Longrightarrow> x \<noteq> y \<Longrightarrow> b \<in> set (fr x @ us x) \<Longrightarrow>
       c \<in> set (fr y @ us y) \<Longrightarrow> clear_of b (bytes_of st x) c (bytes_of st y)"
  shows "xok st as fr us"
  unfolding xok_def using assms by blast

lemma initial_xok: "0 < brk m \<Longrightarrow> xok (xinitial m) [] fr us"
  by (simp add: xok_def xinitial_def)

section \<open>Finding and making an allocator\<close>

lemma find_from_table:
  assumes "\<And>x. x \<in> set as \<Longrightarrow> x \<noteq> 0 \<and> objs x \<noteq> None"
  shows "find_from objs sz (as @ replicate n 0) =
    Some (case find (\<lambda>x. m_blockSize (the (objs x)) = sz) as of None \<Rightarrow> 0 | Some x \<Rightarrow> x)"
  using assms
proof (induction as)
  case Nil
  then show ?case by (cases n) simp_all
next
  case (Cons x as)
  obtain a where "x \<noteq> 0" "objs x = Some a" using Cons.prems [of x] by auto
  moreover have "find_from objs sz (as @ replicate n 0) =
      Some (case find (\<lambda>x. m_blockSize (the (objs x)) = sz) as of None \<Rightarrow> 0 | Some x \<Rightarrow> x)"
    using Cons.prems by (intro Cons.IH) simp
  ultimately show ?case by (simp add: GetBlockSize_def)
qed

lemma insert_in_table:
  assumes "0 \<notin> set as" "length as < MAX_ALLOCATORS"
  shows "insert_in x (as @ replicate (MAX_ALLOCATORS - length as) 0) =
    Some (as @ x # replicate (MAX_ALLOCATORS - Suc (length as)) 0)"
proof -
  have "insert_in x (as @ replicate (Suc n) 0) = Some (as @ x # replicate n 0)" for n
    using assms(1) by (induction as) auto
  from this [of "MAX_ALLOCATORS - Suc (length as)"] assms(2) show ?thesis by (simp add: Suc_diff_Suc)
qed

lemma insert_in_full: "0 \<notin> set as \<Longrightarrow> insert_in x as = None"
  by (induction as) auto

text \<open>A new allocator at the end of the table.\<close>

definition with_allocator :: "size_t \<Rightarrow> nat list \<Rightarrow> xstate \<Rightarrow> xstate" where
  "with_allocator bs as st =
     (let st' = snd (new_Allocator bs st)
      in st'\<lparr>allocators := as @ brk (xmem st) # replicate (MAX_ALLOCATORS - Suc (length as)) 0\<rparr>)"

lemma with_allocator_parts:
  "brk (xmem (with_allocator bs as st)) = brk (xmem st) + sizeof_Allocator"
  "cells (xmem (with_allocator bs as st)) = cells (xmem st)"
  "grows (xmem st) (xmem (with_allocator bs as st))"
  "y \<noteq> brk (xmem st) \<Longrightarrow> object (with_allocator bs as st) y = object st y"
  "objects (with_allocator bs as st) (brk (xmem st)) \<noteq> None"
  "y \<noteq> brk (xmem st) \<Longrightarrow> objects (with_allocator bs as st) y = objects st y"
  by (simp_all add: with_allocator_def new_Allocator_def new_chars_def Allocator_def Let_def
      sizeof_Allocator_def grows_def object_def)

lemma with_allocator_new:
  assumes "8 \<le> bs" "0 < brk (xmem st)"
  shows "m_blockSize (object (with_allocator bs as st) (brk (xmem st))) = bs"
    "m_objectsize (object (with_allocator bs as st) (brk (xmem st))) = bs"
    "m_maxObjects (object (with_allocator bs as st) (brk (xmem st))) = 0"
    "owns (object (with_allocator bs as st) (brk (xmem st))) (xmem (with_allocator bs as st)) [] []"
proof -
  have "\<not> bs < 8" "8 \<le> unat bs" using assms(1) by (simp_all add: word_le_nat_alt word_less_nat_alt)
  with assms(2) show "m_blockSize (object (with_allocator bs as st) (brk (xmem st))) = bs"
    "m_objectsize (object (with_allocator bs as st) (brk (xmem st))) = bs"
    "m_maxObjects (object (with_allocator bs as st) (brk (xmem st))) = 0"
    "owns (object (with_allocator bs as st) (brk (xmem st))) (xmem (with_allocator bs as st)) [] []"
    by (simp_all add: with_allocator_def new_Allocator_def new_chars_def Allocator_def Let_def
        object_def owns_def sourced_def disjoint_blocks_def)
qed

lemma with_allocator_xok:
  assumes x: "xok st as fr us" and "8 \<le> bs" "length as < MAX_ALLOCATORS"
    and sizes: "\<And>x. x \<in> set as \<Longrightarrow> m_blockSize (object st x) \<noteq> bs"
  shows "xok (with_allocator bs as st) (as @ [brk (xmem st)])
    (fr(brk (xmem st) := [])) (us(brk (xmem st) := []))"
proof -
  let ?p = "brk (xmem st)" and ?st = "with_allocator bs as st"
  have p: "?p \<notin> set as" using xokD(6) [OF x] by force
  have ne: "y \<noteq> ?p" if "y \<in> set as" for y using p that by metis
  note new = with_allocator_new [OF assms(2) xokD(3) [OF x], of as]
  note old = with_allocator_parts(4) [OF ne, of _ bs as]
  show ?thesis
  proof (rule xokI, goal_cases)
    case 1
    show ?case by (simp add: with_allocator_def Let_def)
  next
    case 2
    show ?case using assms(3) by simp
  next
    case 3
    show ?case using xokD(3) [OF x] by (simp add: with_allocator_parts)
  next
    case 4
    have "map (\<lambda>x. m_blockSize (object ?st x)) as = map (\<lambda>x. m_blockSize (object st x)) as"
      using old by simp
    then have "distinct (map (\<lambda>x. m_blockSize (object ?st x)) as)"
      using xokD(4) [OF x] by (simp only:)
    moreover have "m_blockSize (object ?st ?p) \<noteq> m_blockSize (object ?st y)" if "y \<in> set as" for y
      using sizes [OF that] old [OF that] new(1) by simp
    ultimately show ?case by auto
  next
    case (5 y)
    then show ?case
      using xokD(3) [OF x] xokD(5,6,7) [OF x, of y] with_allocator_parts(5) [of bs as st]
        with_allocator_parts(6) [OF ne, of y bs as]
      by (auto simp: with_allocator_parts(1) sizeof_Allocator_def)
  next
    case (6 y)
    then show ?case
    proof (cases "y = ?p")
      case False
      with 6 have y: "y \<in> set as" by simp
      have "owns (object st y) (xmem ?st) (fr y) (us y)"
        by (rule owns_frame [OF xokD(8) [OF x y] with_allocator_parts(3)]) (simp add: with_allocator_parts)
      with False y old show ?thesis by simp
    qed (use new in simp)
  next
    case (7 y)
    then show ?case using new old xokD(9,10) [OF x, of y] by auto
  next
    case (8 y b)
    then show ?case using xokD(11) [OF x, of y b] by (auto simp: with_allocator_parts split: if_splits)
  next
    case (9 y z b c)
    then show ?case using xokD(12) [OF x, of y z b c] old by (auto split: if_splits)
  qed
qed

text \<open>The allocator of a request: an old one, or a new one.\<close>

lemma get_allocator_spec:
  assumes x: "xok st as fr us" and fit: "8 \<le> block_size sz"
    and room: "block_size sz \<in> (\<lambda>x. m_blockSize (object st x)) ` set as \<or> length as < MAX_ALLOCATORS"
  obtains x st' as' fr' us' where "xallocator_get_allocator sz st = Some (x, st')" "xok st' as' fr' us'"
    "x \<in> set as'" "set as \<subseteq> set as'" "m_blockSize (object st' x) = block_size sz"
    "cells (xmem st') = cells (xmem st)"
    "\<And>y. y \<in> set as \<Longrightarrow> us' y = us y \<and> object st' y = object st y"
    "set as' \<subseteq> insert x (set as)"
proof -
  have table: "find_from (objects st) (block_size sz) (as @ replicate n 0) =
      Some (case find (\<lambda>x. m_blockSize (the (objects st x)) = block_size sz) as of None \<Rightarrow> 0 | Some x \<Rightarrow> x)" for n
    using xokD(5,7) [OF x] by (intro find_from_table) force
  show thesis
  proof (cases "find (\<lambda>x. m_blockSize (object st x) = block_size sz) as")
    case (Some x')
    then have xs: "x' \<in> set as" "m_blockSize (object st x') = block_size sz"
      by (auto simp: find_Some_iff)
    have "find_allocator (block_size sz) st = Some x'"
      unfolding find_allocator_def xokD(1) [OF x]
      by (subst table) (use Some in \<open>simp add: object_def\<close>)
    moreover have "0 < x'" using xokD(5) [OF x xs(1)] .
    ultimately have "xallocator_get_allocator sz st = Some (x', st)"
      by (simp add: xallocator_get_allocator_def)
    then show thesis using x xs by (intro that [of x' st as fr us]) auto
  next
    case None
    let ?p = "brk (xmem st)" and ?st = "with_allocator (block_size sz) as st"
    have sizes: "m_blockSize (object st x) \<noteq> block_size sz" if "x \<in> set as" for x
      using None that by (auto simp: find_None_iff)
    have len: "length as < MAX_ALLOCATORS" using room sizes by (metis imageE)
    have p: "?p \<notin> set as" "0 \<notin> set as" using xokD(5,6) [OF x] by force+
    have find: "find_allocator (block_size sz) st = Some 0"
      unfolding find_allocator_def xokD(1) [OF x]
      by (subst table) (use None in \<open>simp add: object_def\<close>)
    have "fst (new_Allocator (block_size sz) st) = ?p"
      "allocators (snd (new_Allocator (block_size sz) st)) = allocators st"
      by (simp_all add: new_Allocator_def new_chars_def Let_def case_prod_beta)
    then have "xallocator_get_allocator sz st = Some (?p, ?st)"
      using find xokD(3) [OF x] insert_in_table [OF p(2) len, of ?p] xokD(1) [OF x]
      by (simp add: xallocator_get_allocator_def insert_allocator_def with_allocator_def Let_def case_prod_beta)
    moreover have "object ?st y = object st y" if "y \<in> set as" for y
      using that p(1) by (intro with_allocator_parts(4)) metis
    ultimately show thesis
      using with_allocator_xok [OF x fit len sizes] with_allocator_new(1) [OF fit xokD(3) [OF x], of as] p(1)
      by (intro that [of ?p ?st "as @ [?p]" "fr(?p := [])" "us(?p := [])"])
        (auto simp: with_allocator_parts)
  qed
qed

section \<open>Allocating and freeing\<close>

lemma load_other:
  assumes "clear_of b PTR_SIZE p PTR_SIZE"
  shows "load_ptr (store_ptr p v c) b = load_ptr c b"
  using assms by (intro load_ptr_cong store_other) (auto simp: clear_of_def)

lemma owns_store:
  assumes "owns a m fs us" "\<And>b. b \<in> set fs \<Longrightarrow> clear_of b PTR_SIZE p PTR_SIZE"
  shows "owns a (m\<lparr>cells := store_ptr p v (cells m)\<rparr>) fs us"
proof (rule owns_frame [OF assms(1)])
  show "grows m (m\<lparr>cells := store_ptr p v (cells m)\<rparr>)" by (simp add: grows_def)
next
  fix b x assume "b \<in> set fs" "b \<le> x" "x < b + PTR_SIZE"
  then show "cells m x = cells (m\<lparr>cells := store_ptr p v (cells m)\<rparr>) x"
    using assms(2) [of b] by (auto simp: store_ptr_def clear_of_def)
qed

lemma clear_mono: "clear_of p m q n \<Longrightarrow> k \<le> m \<Longrightarrow> l \<le> n \<Longrightarrow> clear_of p k q l"
  by (auto simp: clear_of_def)

lemma own_blocks_clear:
  assumes "owns a m fs us" "b \<in> set (fs @ us)" "c \<in> set (fs @ us)" "b \<noteq> c"
  shows "clear_of b (block_bytes a) c (block_bytes a)"
  using ownsD(4) [OF assms(1)] assms(2-) by (simp add: disjoint_blocks_def apart_def clear_of_def)

lemma allocate_address:
  assumes "owns a m [] us" "m_maxObjects a = 0" "Allocate h sz (a, m) = Some (p, a', m')"
  shows "p = brk m"
proof -
  have "Pop (a, m) = Some (0, a, m)" using pop_cases [OF ownsD(5) [OF assms(1)]] by simp
  with assms(2,3) show ?thesis
    by (auto simp: Allocate_def new_block_def new_chars_def ASSERT_TRUE_def split: if_splits)
qed

definition with_block :: "nat \<Rightarrow> nat \<Rightarrow> allocator \<Rightarrow> memory \<Rightarrow> xstate \<Rightarrow> xstate" where
  "with_block x p a m st =
     st\<lparr>xmem := m\<lparr>cells := store_ptr p x (cells m)\<rparr>, objects := (objects st)(x \<mapsto> a)\<rparr>"

lemma with_block_parts:
  "xmem (with_block x p a m st) = m\<lparr>cells := store_ptr p x (cells m)\<rparr>"
  "object (with_block x p a m st) y = (if y = x then a else object st y)"
  "objects (with_block x p a m st) y = (if y = x then Some a else objects st y)"
  "allocators (with_block x p a m st) = allocators st"
  by (simp_all add: with_block_def object_def)

lemma with_block_xok:
  assumes x: "xok st as fr us" and xs: "x \<in> set as"
    and p: "0 < p" "cells m = cells (xmem st)" "grows (xmem st) m" "fixed_part a = fixed_part (object st x)"
      "owns a m (tl (fr x)) (p # us x)"
    and where_p: "p \<in> set (fr x) \<or> brk (xmem st) \<le> p"
  shows "xok (with_block x p a m st) as (fr(x := tl (fr x))) (us(x := p # us x))"
proof -
  let ?st = "with_block x p a m st"
  have n: "8 \<le> bytes_of st y" if "y \<in> set as" for y using ownsD(3) [OF xokD(8) [OF x that]] .
  have par: "m_blockSize a = m_blockSize (object st x)" "m_objectsize a = m_objectsize (object st x)"
    "m_maxObjects a = m_maxObjects (object st x)" using p(4) by (simp_all add: fixed_part_def)
  have size: "m_blockSize (object ?st y) = m_blockSize (object st y)" for y
    using par by (simp add: with_block_parts)
  have far: "clear_of b (bytes_of st y) p (bytes_of st x)" if "y \<in> set as" "y \<noteq> x" "b \<in> set (fr y @ us y)" for y b
  proof (cases "p \<in> set (fr x)")
    case True
    then show ?thesis using xokD(12) [OF x that(1) xs that(2,3), of p] by simp
  next
    case False
    with where_p have "brk (xmem st) \<le> p" by simp
    then show ?thesis using ownsD(2) [OF xokD(8) [OF x that(1)] that(3)] by (simp add: clear_of_def)
  qed
  have near: "clear_of b (block_bytes a) p (block_bytes a)" if "b \<in> set (tl (fr x) @ us x)" for b
  proof (rule own_blocks_clear [OF p(5)])
    show "b \<noteq> p" using ownsD(4) [OF p(5)] that by (auto simp: disjoint_blocks_def)
  qed (use that in auto)
  have head: "clear_of b PTR_SIZE p PTR_SIZE" if "y \<in> set as" "b \<in> set ((fr(x := tl (fr x))) y @ us y)" for y b
  proof (cases "y = x")
    case True
    with near [of b] that n [OF xs] par show ?thesis by (auto intro: clear_mono simp: PTR_SIZE_def)
  next
    case False
    with far [of y b] that n [OF that(1)] n [OF xs] show ?thesis by (auto intro: clear_mono simp: PTR_SIZE_def)
  qed
  show ?thesis
  proof (rule xokI, goal_cases)
    case 1
    show ?case using xokD(1) [OF x] by (simp add: with_block_parts)
  next
    case 2
    show ?case by (rule xokD(2) [OF x])
  next
    case 3
    show ?case using xokD(3) [OF x] p(3) by (simp add: with_block_parts grows_def)
  next
    case 4
    show ?case using xokD(4) [OF x] by (simp add: size)
  next
    case (5 y)
    then show ?case using xokD(5,6,7) [OF x 5] p(3) by (auto simp: with_block_parts grows_def)
  next
    case (6 y)
    show ?case
    proof (cases "y = x")
      case True
      with owns_store [OF p(5), of p x] head [OF xs] show ?thesis by (simp add: with_block_parts)
    next
      case False
      have "owns (object st y) m (fr y) (us y)"
        by (rule owns_frame [OF xokD(8) [OF x 6] p(3)]) (simp add: p(2))
      from owns_store [OF this, of p x] head [OF 6] False show ?thesis by (simp add: with_block_parts)
    qed
  next
    case (7 y)
    then show ?case using xokD(9,10) [OF x 7] par by (auto simp: with_block_parts)
  next
    case (8 y b)
    show ?case
    proof (cases "b = p \<and> y = x")
      case False
      then have b: "b \<in> set (us y)" using 8(2) by (auto split: if_splits)
      have "clear_of b PTR_SIZE p PTR_SIZE" using head [OF 8(1), of b] b by simp
      with xokD(11) [OF x 8(1) b] show ?thesis by (simp add: with_block_parts load_other p(2))
    qed (simp add: with_block_parts)
  next
    case (9 y z b c)
    have old: "clear_of b (bytes_of st y) c (bytes_of st z)"
      if "b \<in> set (fr y @ us y)" "c \<in> set (fr z @ us z)"
      by (rule xokD(12) [OF x 9(1-3) that])
    have tl: "set (tl (fr x)) \<subseteq> set (fr x)" by (cases "fr x") auto
    show ?case
    proof (cases "y = x \<and> b = p")
      case True
      with 9(3,5) far [OF 9(2), of c] show ?thesis by (simp add: size clear_of_sym [of p])
    next
      case False
      show ?thesis
      proof (cases "z = x \<and> c = p")
        case True
        with 9(3,4) far [OF 9(1), of b] show ?thesis by (simp add: size)
      next
        case False': False
        have "b \<in> set (fr y @ us y)" "c \<in> set (fr z @ us z)"
          using 9(4,5) False False' tl by (auto split: if_splits)
        with old show ?thesis by (simp add: size)
      qed
    qed
  qed
qed

lemma xmalloc_spec:
  assumes x: "xok st as fr us" and small: "unat sz + 8 \<le> 2 ^ 63"
    and room: "block_size sz \<in> (\<lambda>x. m_blockSize (object st x)) ` set as \<or> length as < MAX_ALLOCATORS"
  obtains x b st' as' fr' us' where "xmalloc sz st = Some (b + PTR_SIZE, st')" "xok st' as' fr' us'"
    "0 < b" "x \<in> set as'" "b \<in> set (us' x)" "unat sz + PTR_SIZE \<le> bytes_of st' x" "set as \<subseteq> set as'"
    "set as' \<subseteq> insert x (set as)" "m_blockSize (object st' x) = block_size sz"
    "\<And>y. y \<in> set as \<Longrightarrow> m_blockSize (object st' y) = m_blockSize (object st y) \<and> set (us y) \<subseteq> set (us' y) \<and> set (us' y) \<subseteq> insert b (set (us y))"
    "\<And>y c. y \<in> set as \<Longrightarrow> c \<in> set (us y) \<Longrightarrow> clear_of c (bytes_of st' y) b (bytes_of st' x)"
    "\<And>z. z < b \<or> b + PTR_SIZE \<le> z \<Longrightarrow> cells (xmem st') z = cells (xmem st) z"
proof -
  have fits: "unat sz + 8 \<le> unat (block_size sz)" by (rule block_size_fits(1) [OF small])
  then have "8 \<le> block_size sz" by (simp add: word_le_nat_alt)
  from get_allocator_spec [OF x this room] obtain x s1 as1 fr1 us1 where
    g: "xallocator_get_allocator sz st = Some (x, s1)" "xok s1 as1 fr1 us1" "x \<in> set as1" "set as \<subseteq> set as1"
      "m_blockSize (object s1 x) = block_size sz" "cells (xmem s1) = cells (xmem st)"
      "\<And>y. y \<in> set as \<Longrightarrow> us1 y = us y \<and> object s1 y = object st y" "set as1 \<subseteq> insert x (set as)"
    by metis
  have want: "8 + sz \<le> m_objectsize (object s1 x)"
    using fits size_plus(1) [OF small] xokD(10) [OF g(2,3)] g(5)
    by (simp add: word_le_nat_alt add.commute)
  from allocate_spec [OF xokD(8) [OF g(2,3)] want, of False] xokD(9) [OF g(2,3)]
  obtain b a m where al: "Allocate False (8 + sz) (object s1 x, xmem s1) = Some (b, a, m)" "0 < b"
      "cells m = cells (xmem s1)" "grows (xmem s1) m" "fixed_part a = fixed_part (object s1 x)"
      "owns a m (tl (fr1 x)) (b # us1 x)" "fr1 x \<noteq> [] \<longrightarrow> b = hd (fr1 x)" by blast
  have wh: "b \<in> set (fr1 x) \<or> brk (xmem s1) \<le> b"
  proof (cases "fr1 x")
    case Nil
    with allocate_address [OF _ xokD(9) [OF g(2,3)] al(1)] xokD(8) [OF g(2,3)] show ?thesis by simp
  qed (use al(7) in simp)
  let ?st = "with_block x b a m s1"
  note ok = with_block_xok [OF g(2,3) al(2-6) wh]
  have run: "xmalloc sz st = Some (b + PTR_SIZE, ?st)"
    using g(1) xokD(7) [OF g(2,3)] al(1)
    by (simp add: xmalloc_def set_block_allocator_def with_block_def)
  have size: "m_blockSize (object ?st y) = m_blockSize (object s1 y)" for y
    using al(5) by (simp add: with_block_parts fixed_part_def)
  show thesis
  proof (rule that [OF run ok al(2) g(3)])
    show "b \<in> set ((us1(x := b # us1 x)) x)" by simp
    show "unat sz + PTR_SIZE \<le> bytes_of ?st x" using fits g(5) by (simp add: size PTR_SIZE_def)
    show "set as \<subseteq> set as1" "set as1 \<subseteq> insert x (set as)" by (rule g(4), rule g(8))
    show "m_blockSize (object ?st x) = block_size sz" using g(5) by (simp add: size)
    show "m_blockSize (object ?st y) = m_blockSize (object st y) \<and> set (us y) \<subseteq> set ((us1(x := b # us1 x)) y) \<and>
        set ((us1(x := b # us1 x)) y) \<subseteq> insert b (set (us y))" if "y \<in> set as" for y
      using g(7) [OF that] by (auto simp: size)
    show "clear_of c (bytes_of ?st y) b (bytes_of ?st x)" if c: "y \<in> set as" "c \<in> set (us y)" for y c
    proof (cases "y = x")
      case True
      have "c \<noteq> b" using ownsD(4) [OF al(6)] g(7) [OF c(1)] c(2) True by (auto simp: disjoint_blocks_def)
      moreover have "c \<in> set (b # us1 x)" using g(7) [OF c(1)] c(2) True by simp
      ultimately have "clear_of c (block_bytes a) b (block_bytes a)"
        by (intro own_blocks_clear [OF al(6)]) auto
      with True show ?thesis by (simp add: with_block_parts)
    next
      case False
      have "y \<in> set as1" "c \<in> set (us1 y)" using c g(4) g(7) [OF c(1)] by auto
      then show ?thesis using xokD(12) [OF ok _ g(3) False, of c b] False by simp
    qed
    show "cells (xmem ?st) z = cells (xmem st) z" if "z < b \<or> b + PTR_SIZE \<le> z" for z
      using that al(3) g(6) by (simp add: with_block_parts store_other)
  qed
qed

lemma xfree_spec:
  assumes x: "xok st as fr us" and xs: "x \<in> set as" and b: "b \<in> set (us x)"
  obtains st' where "xfree (b + PTR_SIZE) st = Some st'"
    "xok st' as (fr(x := b # fr x)) (us(x := remove1 b (us x)))"
    "\<And>y. m_blockSize (object st' y) = m_blockSize (object st y)"
    "\<And>z. z < b \<or> b + PTR_SIZE \<le> z \<Longrightarrow> cells (xmem st') z = cells (xmem st) z"
proof -
  from deallocate_spec [OF xokD(8) [OF x xs] b] obtain a m where
    d: "Deallocate b (object st x, xmem st) = (a, m)" "owns a m (b # fr x) (remove1 b (us x))"
      "cells m = store_ptr b (m_pHead (object st x)) (cells (xmem st))" "brk m = brk (xmem st)"
      "live m = live (xmem st)" "fixed_part a = fixed_part (object st x)" by blast
  let ?st = "st\<lparr>xmem := m, objects := (objects st)(x \<mapsto> a)\<rparr>"
  let ?fr = "fr(x := b # fr x)" and ?us = "us(x := remove1 b (us x))"
  have obj: "object ?st y = (if y = x then a else object st y)" for y by (simp add: object_def)
  have par: "m_blockSize a = m_blockSize (object st x)" "m_objectsize a = m_objectsize (object st x)"
    "m_maxObjects a = m_maxObjects (object st x)" using d(6) by (simp_all add: fixed_part_def)
  have size: "m_blockSize (object ?st y) = m_blockSize (object st y)" for y using par by (simp add: obj)
  have n: "8 \<le> bytes_of st y" if "y \<in> set as" for y using ownsD(3) [OF xokD(8) [OF x that]] .
  have "0 < PTR_SIZE" by (simp add: PTR_SIZE_def)
  then have run: "xfree (b + PTR_SIZE) st = Some ?st"
    using xokD(11) [OF x xs b] xokD(7) [OF x xs] d(1)
    by (simp add: xfree_def get_block_allocator_def get_block_ptr_def)
  have sub: "set (?fr y @ ?us y) \<subseteq> set (fr y @ us y)" for y
    using b set_remove1_subset [of b "us x"] by auto
  have head: "clear_of c PTR_SIZE b PTR_SIZE" if c: "y \<in> set as" "c \<in> set (fr y @ us y)" "y \<noteq> x \<or> c \<noteq> b" for y c
  proof -
    have "clear_of c (bytes_of st y) b (bytes_of st x)"
    proof (cases "y = x")
      case True
      with c b show ?thesis by (auto intro!: own_blocks_clear [OF xokD(8) [OF x xs]])
    next
      case False
      then show ?thesis using xokD(12) [OF x c(1) xs False c(2), of b] b by simp
    qed
    then show ?thesis by (rule clear_mono) (use n [OF c(1)] n [OF xs] in \<open>simp_all add: PTR_SIZE_def\<close>)
  qed
  have ok: "xok ?st as ?fr ?us"
  proof (rule xokI, goal_cases)
    case 4
    show ?case unfolding size by (rule xokD(4) [OF x])
  next
    case (6 y)
    show ?case
    proof (cases "y = x")
      case False
      have "owns (object st y) m (fr y) (us y)"
      proof (rule owns_frame [OF xokD(8) [OF x 6]])
        show "grows (xmem st) m" using d(4,5) by (simp add: grows_def)
      next
        fix c z assume c: "c \<in> set (fr y)" "c \<le> z" "z < c + PTR_SIZE"
        with head [OF 6, of c] False show "cells (xmem st) z = cells m z"
          by (auto simp: d(3) store_ptr_def clear_of_def)
      qed
      with False show ?thesis by (simp add: obj)
    qed (use d(2) in \<open>simp add: obj\<close>)
  next
    case (8 y c)
    have "c \<noteq> b \<or> y \<noteq> x"
      using 8(2) ownsD(4) [OF d(2)] by (auto simp: disjoint_blocks_def)
    moreover have c: "c \<in> set (us y)"
      using 8(2) set_remove1_subset [of b "us x"] by (auto split: if_splits)
    ultimately have "clear_of c PTR_SIZE b PTR_SIZE" using head [OF 8(1), of c] by auto
    with xokD(11) [OF x 8(1) c] show ?case by (simp add: d(3) load_other)
  next
    case (9 y z c e)
    then show ?case using xokD(12) [OF x 9(1-3), of c e] sub by (auto simp: size)
  qed (use xokD(1-4) [OF x] xokD(5,6,7,9,10) [OF x] d(4) par in \<open>auto simp: obj size\<close>)
  show thesis
    by (rule that [OF run ok]) (simp_all add: size d(3) store_other)
qed

text \<open>A client writes into its part of a block.\<close>

definition with_cells :: "(nat \<Rightarrow> cell) \<Rightarrow> xstate \<Rightarrow> xstate" where
  "with_cells c st = st\<lparr>xmem := (xmem st)\<lparr>cells := c\<rparr>\<rparr>"

lemma client_write_xok:
  assumes x: "xok st as fr us" and xs: "x \<in> set as" and b: "b \<in> set (us x)"
    and c: "\<And>z. z < b + PTR_SIZE \<or> b + bytes_of st x \<le> z \<Longrightarrow> c z = cells (xmem st) z"
  shows "xok (with_cells c st) as fr us"
proof -
  let ?st = "with_cells c st"
  have obj: "object ?st y = object st y" for y by (simp add: object_def with_cells_def)
  have n: "8 \<le> bytes_of st y" if "y \<in> set as" for y using ownsD(3) [OF xokD(8) [OF x that]] .
  have same: "c z = cells (xmem st) z"
    if e: "y \<in> set as" "e \<in> set (fr y @ us y)" "e \<le> z" "z < e + PTR_SIZE" for y e z
  proof (cases "y = x \<and> e = b")
    case False
    have "clear_of e (bytes_of st y) b (bytes_of st x)"
    proof (cases "y = x")
      case True
      with False e b show ?thesis by (auto intro!: own_blocks_clear [OF xokD(8) [OF x xs]])
    next
      case False': False
      then show ?thesis using xokD(12) [OF x e(1) xs False' e(2), of b] b by simp
    qed
    with e(3,4) n [OF e(1)] show ?thesis by (intro c) (auto simp: clear_of_def PTR_SIZE_def)
  qed (use e c in auto)
  show ?thesis
  proof (rule xokI, goal_cases)
    case (6 y)
    have "owns (object st y) (xmem ?st) (fr y) (us y)"
    proof (rule owns_frame [OF xokD(8) [OF x 6]])
      show "grows (xmem st) (xmem ?st)" by (simp add: grows_def with_cells_def)
    next
      fix e z assume "e \<in> set (fr y)" "e \<le> z" "z < e + PTR_SIZE"
      then show "cells (xmem st) z = cells (xmem ?st) z"
        using same [OF 6, of e z] by (simp add: with_cells_def)
    qed
    then show ?case by (simp add: obj)
  next
    case (8 y e)
    have "load_ptr c e = load_ptr (cells (xmem st)) e"
      using same [OF 8(1), of e] 8(2) by (intro load_ptr_cong) auto
    then show ?case using xokD(11) [OF x 8] by (simp add: with_cells_def)
  next
    case (9 y z e f)
    then show ?case using xokD(12) [OF x 9] by (simp add: obj)
  qed (use xokD(1-4) [OF x] xokD(5,6,7,9,10) [OF x] in \<open>auto simp: obj, auto simp: with_cells_def\<close>)
qed

section \<open>Clients\<close>

text \<open>
  What clients do: ask for a block, free the \<open>i\<close>-th of the blocks they hold, resize it, write a byte into it.
  The blocks they hold are pairs of a pointer and the size that was asked for.
\<close>

datatype xop = Xmalloc size_t | Xfree nat | Xrealloc nat size_t | Xwrite nat nat u8

fun xstep :: "xop \<Rightarrow> xstate \<times> (nat \<times> nat) list \<Rightarrow> (xstate \<times> (nat \<times> nat) list) option" where
  "xstep (Xmalloc sz) (st, hs) = (case xmalloc sz st of None \<Rightarrow> None | Some (p, st') \<Rightarrow> Some (st', (p, unat sz) # hs))"
| "xstep (Xfree i) (st, hs) = (if i < length hs
     then map_option (\<lambda>st'. (st', remove1 (hs ! i) hs)) (xfree (fst (hs ! i)) st) else Some (st, hs))"
| "xstep (Xrealloc i sz) (st, hs) = (if i < length hs
     then map_option (\<lambda>(q, st'). (st', (if q = 0 then [] else [(q, unat sz)]) @ remove1 (hs ! i) hs))
       (xrealloc (fst (hs ! i)) sz st) else Some (st, hs))"
| "xstep (Xwrite i off v) (st, hs) = (if i < length hs \<and> off < snd (hs ! i)
     then Some (with_cells ((cells (xmem st))(fst (hs ! i) + off := Byte v)) st, hs) else Some (st, hs))"

text \<open>Requests of up to 32 KB, with the pointer that precedes them, fall into fifteen size classes.\<close>

fun moderate :: "xop \<Rightarrow> bool" where
  "moderate (Xmalloc sz) \<longleftrightarrow> unat sz + 8 \<le> 2 ^ 15"
| "moderate (Xrealloc i sz) \<longleftrightarrow> unat sz + 8 \<le> 2 ^ 15"
| "moderate _ \<longleftrightarrow> True"

definition classes :: "nat list" where
  "classes = [396, 768, 8, 16, 32, 64, 128, 256, 512, 1024, 2048, 4096, 8192, 16384, 32768]"

lemma moderate_class:
  assumes "unat sz + 8 \<le> 2 ^ 15"
  shows "unat (block_size sz) \<in> set classes"
proof -
  have "unat sz + 8 \<le> 2 ^ 63" using assms by simp
  from block_size_fits(2) [OF this] show ?thesis
  proof
    assume "\<exists>j. 3 \<le> j \<and> j \<le> 63 \<and> unat (block_size sz) = 2 ^ j \<and> (\<forall>i. unat sz + 8 \<le> 2 ^ i \<longrightarrow> j \<le> i)"
    then obtain j where j: "3 \<le> j" "unat (block_size sz) = 2 ^ j" "j \<le> 15" using assms by blast
    from j(1,3) have "j \<in> {3, 4, 5, 6, 7, 8, 9, 10, 11, 12, 13, 14, 15}"
      by (simp only: insert_iff empty_iff) presburger
    with j(2) show ?thesis by (auto simp: classes_def)
  qed (auto simp: classes_def)
qed

definition xheld :: "xstate \<Rightarrow> (nat \<times> nat) list \<Rightarrow> bool" where
  "xheld st hs \<longleftrightarrow> (\<exists>as fr us. xok st as fr us \<and> distinct (map fst hs) \<and>
     (\<forall>x \<in> set as. unat (m_blockSize (object st x)) \<in> set classes) \<and>
     (\<forall>(p, n) \<in> set hs. \<exists>x \<in> set as. \<exists>b \<in> set (us x). p = b + PTR_SIZE \<and> n + PTR_SIZE \<le> bytes_of st x))"

lemma moderate_room:
  assumes "xok st as fr us" "\<forall>x \<in> set as. unat (m_blockSize (object st x)) \<in> set classes"
    and "unat bs \<in> set classes"
  shows "bs \<in> (\<lambda>x. m_blockSize (object st x)) ` set as \<or> length as < MAX_ALLOCATORS"
proof (rule disjCI)
  assume "\<not> length as < MAX_ALLOCATORS"
  then have len: "length as = 15" using xokD(2) [OF assms(1)] by (simp add: MAX_ALLOCATORS_def)
  let ?f = "\<lambda>x. unat (m_blockSize (object st x))"
  have "distinct (map ?f as)"
    using xokD(4) [OF assms(1)] by (simp add: distinct_map inj_on_def word_unat_eq_iff)
  then have "card (?f ` set as) = 15" using len distinct_card [of "map ?f as"] by simp
  moreover have "?f ` set as \<subseteq> set classes" using assms(2) by blast
  moreover have "card (set classes) = 15" by (simp add: classes_def)
  ultimately have "?f ` set as = set classes" by (intro card_subset_eq) simp_all
  then obtain x where "x \<in> set as" "?f x = unat bs" using assms(3) by force
  then show "bs \<in> (\<lambda>x. m_blockSize (object st x)) ` set as" by (metis imageI word_unat_eq_iff)
qed

lemma held_disjoint:
  assumes "xheld st hs" "(p, n) \<in> set hs" "(q, k) \<in> set hs" "p \<noteq> q"
  shows "clear_of p n q k"
proof -
  obtain as fr us where x: "xok st as fr us"
    and h: "\<forall>(p, n) \<in> set hs. \<exists>x \<in> set as. \<exists>b \<in> set (us x). p = b + PTR_SIZE \<and> n + PTR_SIZE \<le> bytes_of st x"
    using assms(1) by (auto simp: xheld_def)
  obtain x b where b: "x \<in> set as" "b \<in> set (us x)" "p = b + PTR_SIZE" "n + PTR_SIZE \<le> bytes_of st x"
    using h assms(2) by blast
  obtain y c where c: "y \<in> set as" "c \<in> set (us y)" "q = c + PTR_SIZE" "k + PTR_SIZE \<le> bytes_of st y"
    using h assms(3) by blast
  have "clear_of b (bytes_of st x) c (bytes_of st y)"
  proof (cases "x = y")
    case True
    with own_blocks_clear [OF xokD(8) [OF x b(1)], of b c] b c assms(4) show ?thesis by auto
  next
    case False
    with b c show ?thesis by (intro xokD(12) [OF x]) auto
  qed
  with b c show ?thesis by (auto simp: clear_of_def)
qed

lemma xheldE:
  assumes "xheld st hs"
  obtains as fr us where "xok st as fr us" "distinct (map fst hs)"
    "\<And>x. x \<in> set as \<Longrightarrow> unat (m_blockSize (object st x)) \<in> set classes"
    "\<And>p n. (p, n) \<in> set hs \<Longrightarrow> \<exists>x \<in> set as. \<exists>b \<in> set (us x). p = b + PTR_SIZE \<and> n + PTR_SIZE \<le> bytes_of st x"
  using assms unfolding xheld_def by blast

lemma xmalloc_held:
  assumes "xheld st hs" "unat sz + 8 \<le> 2 ^ 15"
  obtains p st' where "xmalloc sz st = Some (p, st')" "xheld st' ((p, unat sz) # hs)" "0 < p"
    "\<And>q n i. (q, n) \<in> set hs \<Longrightarrow> i < n \<Longrightarrow> cells (xmem st') (q + i) = cells (xmem st) (q + i)"
proof -
  obtain as fr us where x: "xok st as fr us" "distinct (map fst hs)"
      "\<And>x. x \<in> set as \<Longrightarrow> unat (m_blockSize (object st x)) \<in> set classes"
      "\<And>p n. (p, n) \<in> set hs \<Longrightarrow> \<exists>x \<in> set as. \<exists>b \<in> set (us x). p = b + PTR_SIZE \<and> n + PTR_SIZE \<le> bytes_of st x"
    using xheldE [OF assms(1)] by metis
  have small: "unat sz + 8 \<le> 2 ^ 63" using assms(2) by simp
  note cls = moderate_class [OF assms(2)]
  from xmalloc_spec [OF x(1) small moderate_room [OF x(1) _ cls]] x(3)
  obtain x0 b st' as' fr' us' where m: "xmalloc sz st = Some (b + PTR_SIZE, st')" "xok st' as' fr' us'"
      "0 < b" "x0 \<in> set as'" "b \<in> set (us' x0)" "unat sz + PTR_SIZE \<le> bytes_of st' x0" "set as \<subseteq> set as'"
      "set as' \<subseteq> insert x0 (set as)" "m_blockSize (object st' x0) = block_size sz"
    and old: "\<And>y. y \<in> set as \<Longrightarrow> m_blockSize (object st' y) = m_blockSize (object st y) \<and>
        set (us y) \<subseteq> set (us' y) \<and> set (us' y) \<subseteq> insert b (set (us y))"
      "\<And>y c. y \<in> set as \<Longrightarrow> c \<in> set (us y) \<Longrightarrow> clear_of c (bytes_of st' y) b (bytes_of st' x0)"
      "\<And>z. z < b \<or> b + PTR_SIZE \<le> z \<Longrightarrow> cells (xmem st') z = cells (xmem st) z"
    by (metis (no_types, lifting))
  have n: "8 \<le> bytes_of st' y" if "y \<in> set as'" for y using ownsD(3) [OF xokD(8) [OF m(2) that]] .
  have place: "\<exists>x \<in> set as. \<exists>c \<in> set (us x). q = c + PTR_SIZE \<and> k + PTR_SIZE \<le> bytes_of st' x \<and> c \<noteq> b"
    if qk: "(q, k) \<in> set hs" for q k
  proof -
    obtain y c where c: "y \<in> set as" "c \<in> set (us y)" "q = c + PTR_SIZE" "k + PTR_SIZE \<le> bytes_of st y"
      using x(4) [OF qk] by blast
    have "c \<noteq> b" using old(2) [OF c(1,2)] n [OF m(4)] n [of y] c(1) m(7) by (auto simp: clear_of_def)
    with c old(1) [OF c(1)] show ?thesis by auto
  qed
  have "xheld st' ((b + PTR_SIZE, unat sz) # hs)"
    unfolding xheld_def
  proof (rule exI [of _ as'], rule exI [of _ fr'], rule exI [of _ us'], intro conjI ballI)
    show "distinct (map fst ((b + PTR_SIZE, unat sz) # hs))" using x(2) place by fastforce
    show "unat (m_blockSize (object st' y)) \<in> set classes" if "y \<in> set as'" for y
      using that m(8,9) cls x(3) [of y] old(1) [of y] by auto
    show "case pn of (p, n) \<Rightarrow> \<exists>x \<in> set as'. \<exists>b \<in> set (us' x). p = b + PTR_SIZE \<and> n + PTR_SIZE \<le> bytes_of st' x"
      if pn: "pn \<in> set ((b + PTR_SIZE, unat sz) # hs)" for pn
    proof (cases "pn = (b + PTR_SIZE, unat sz)")
      case False
      then obtain q k where q: "pn = (q, k)" "(q, k) \<in> set hs" using pn by (cases pn) auto
      obtain y c where y: "y \<in> set as" "c \<in> set (us y)" "q = c + PTR_SIZE" "k + PTR_SIZE \<le> bytes_of st' y"
        using place [OF q(2)] by blast
      then have "y \<in> set as'" "c \<in> set (us' y)" using m(7) old(1) [OF y(1)] by blast+
      with y(3,4) q(1) show ?thesis by auto
    qed (use m in auto)
  qed (rule m(2))
  moreover have "cells (xmem st') (q + i) = cells (xmem st) (q + i)" if qk: "(q, k) \<in> set hs" "i < k" for q k i
  proof -
    obtain y c where c: "y \<in> set as" "c \<in> set (us y)" "q = c + PTR_SIZE" "k + PTR_SIZE \<le> bytes_of st' y"
      using place [OF qk(1)] by blast
    have "clear_of c (bytes_of st' y) b (bytes_of st' x0)" by (rule old(2) [OF c(1,2)])
    with c(3,4) qk(2) n [OF m(4)] show ?thesis by (intro old(3)) (auto simp: clear_of_def PTR_SIZE_def)
  qed
  ultimately show thesis using m(1,3) by (intro that [of "b + PTR_SIZE" st']) simp_all
qed

lemma xfree_held:
  assumes "xheld st hs" "(p, n) \<in> set hs"
  obtains st' where "xfree p st = Some st'" "xheld st' (remove1 (p, n) hs)"
    "\<And>q k i. (q, k) \<in> set hs \<Longrightarrow> q \<noteq> p \<Longrightarrow> i < k \<Longrightarrow> cells (xmem st') (q + i) = cells (xmem st) (q + i)"
proof -
  obtain as fr us where x: "xok st as fr us" "distinct (map fst hs)"
      "\<And>x. x \<in> set as \<Longrightarrow> unat (m_blockSize (object st x)) \<in> set classes"
      "\<And>p n. (p, n) \<in> set hs \<Longrightarrow> \<exists>x \<in> set as. \<exists>b \<in> set (us x). p = b + PTR_SIZE \<and> n + PTR_SIZE \<le> bytes_of st x"
    using xheldE [OF assms(1)] by metis
  obtain x0 b where b: "x0 \<in> set as" "b \<in> set (us x0)" "p = b + PTR_SIZE" "n + PTR_SIZE \<le> bytes_of st x0"
    using x(4) [OF assms(2)] by blast
  from xfree_spec [OF x(1) b(1,2)] obtain st' where
    f: "xfree (b + PTR_SIZE) st = Some st'" "xok st' as (fr(x0 := b # fr x0)) (us(x0 := remove1 b (us x0)))"
    and keep: "\<And>y. m_blockSize (object st' y) = m_blockSize (object st y)"
      "\<And>z. z < b \<or> b + PTR_SIZE \<le> z \<Longrightarrow> cells (xmem st') z = cells (xmem st) z" by metis
  have d: "distinct hs" using x(2) by (simp add: distinct_map)
  have rest: "q \<noteq> p" if "(q, k) \<in> set (remove1 (p, n) hs)" for q k
    using that assms(2) d eq_key_imp_eq_value [OF x(2), of p n k] by (auto simp: set_remove1_eq)
  have "xheld st' (remove1 (p, n) hs)"
    unfolding xheld_def
  proof (rule exI [of _ as], rule exI [of _ "fr(x0 := b # fr x0)"], rule exI [of _ "us(x0 := remove1 b (us x0))"],
      intro conjI ballI)
    show "distinct (map fst (remove1 (p, n) hs))"
      using x(2) d set_remove1_subset [of "(p, n)" hs] by (auto simp: distinct_map intro: inj_on_subset)
    show "unat (m_blockSize (object st' y)) \<in> set classes" if "y \<in> set as" for y
      using x(3) [OF that] keep(1) by simp
    show "case qk of (q, k) \<Rightarrow> \<exists>x \<in> set as. \<exists>c \<in> set ((us(x0 := remove1 b (us x0))) x).
        q = c + PTR_SIZE \<and> k + PTR_SIZE \<le> bytes_of st' x"
      if qk: "qk \<in> set (remove1 (p, n) hs)" for qk
    proof -
      obtain q k where q: "qk = (q, k)" by (cases qk)
      from qk have old: "q \<noteq> p" "(q, k) \<in> set hs"
        unfolding q by (rule rest, blast dest: set_remove1_subset [THEN subsetD])
      obtain y c where c: "y \<in> set as" "c \<in> set (us y)" "q = c + PTR_SIZE" "k + PTR_SIZE \<le> bytes_of st y"
        using x(4) [OF old(2)] by blast
      then have "c \<noteq> b" using old(1) b(3) by blast
      then have "c \<in> set ((us(x0 := remove1 b (us x0))) y)" using c(2) by (auto simp: in_set_remove1)
      with c(1,3,4) show ?thesis unfolding q prod.case keep(1) by blast
    qed
  qed (rule f(2))
  moreover have "cells (xmem st') (q + i) = cells (xmem st) (q + i)" if qk: "(q, k) \<in> set hs" "q \<noteq> p" "i < k" for q k i
  proof -
    obtain y c where c: "y \<in> set as" "c \<in> set (us y)" "q = c + PTR_SIZE" "k + PTR_SIZE \<le> bytes_of st y"
      using x(4) [OF qk(1)] by blast
    have "clear_of c (bytes_of st y) b (bytes_of st x0)"
    proof (cases "y = x0")
      case True
      with own_blocks_clear [OF xokD(8) [OF x(1) b(1)], of c b] c b qk(2) show ?thesis by auto
    next
      case False
      then show ?thesis using xokD(12) [OF x(1) c(1) b(1) False, of c b] c(2) b(2) by simp
    qed
    moreover have "8 \<le> bytes_of st x0" by (rule ownsD(3) [OF xokD(8) [OF x(1) b(1)]])
    ultimately show ?thesis using c(3,4) qk(3) by (intro keep(2)) (auto simp: clear_of_def PTR_SIZE_def)
  qed
  ultimately show thesis using f(1) b(3) by (intro that [of st']) simp_all
qed

lemma write_held:
  assumes "xheld st hs" "(p, n) \<in> set hs" "\<And>z. z < p \<or> p + n \<le> z \<Longrightarrow> c z = cells (xmem st) z"
  shows "xheld (with_cells c st) hs"
proof -
  obtain as fr us where x: "xok st as fr us" "distinct (map fst hs)"
      "\<And>x. x \<in> set as \<Longrightarrow> unat (m_blockSize (object st x)) \<in> set classes"
      "\<And>p n. (p, n) \<in> set hs \<Longrightarrow> \<exists>x \<in> set as. \<exists>b \<in> set (us x). p = b + PTR_SIZE \<and> n + PTR_SIZE \<le> bytes_of st x"
    using xheldE [OF assms(1)] by metis
  obtain x0 b where b: "x0 \<in> set as" "b \<in> set (us x0)" "p = b + PTR_SIZE" "n + PTR_SIZE \<le> bytes_of st x0"
    using x(4) [OF assms(2)] by blast
  have "xok (with_cells c st) as fr us"
    using b assms(3) by (intro client_write_xok [OF x(1) b(1,2)]) auto
  moreover have "object (with_cells c st) y = object st y" for y by (simp add: object_def with_cells_def)
  ultimately show ?thesis
    unfolding xheld_def using x(2-4)
    by (intro exI [of _ as] exI [of _ fr] exI [of _ us]) auto
qed

lemma held_header:
  assumes "xheld st hs" "(p, n) \<in> set hs"
  obtains x a where "get_block_allocator p st = Some x" "objects st x = Some a"
    "n + 8 \<le> unat (GetBlockSize a)" "0 < p"
proof -
  obtain as fr us where x: "xok st as fr us"
      "\<And>p n. (p, n) \<in> set hs \<Longrightarrow> \<exists>x \<in> set as. \<exists>b \<in> set (us x). p = b + PTR_SIZE \<and> n + PTR_SIZE \<le> bytes_of st x"
    using xheldE [OF assms(1)] by metis
  obtain y b where b: "y \<in> set as" "b \<in> set (us y)" "p = b + PTR_SIZE" "n + PTR_SIZE \<le> bytes_of st y"
    using x(2) [OF assms(2)] by blast
  obtain a where a: "objects st y = Some a" using xokD(7) [OF x(1) b(1)] by blast
  show thesis
  proof (rule that [of y a])
    show "get_block_allocator p st = Some y"
      using xokD(11) [OF x(1) b(1,2)] b(3) by (simp add: get_block_allocator_def)
  qed (use a b(3,4) in \<open>simp_all add: object_def GetBlockSize_def PTR_SIZE_def\<close>)
qed

lemma memcpy_cells:
  "memcpy d s n st = with_cells (\<lambda>x. if d \<le> x \<and> x < d + n then cells (xmem st) (s + (x - d)) else cells (xmem st) x) st"
  by (simp add: memcpy_def with_cells_def)

lemma xrealloc_held:
  assumes "xheld st hs" "(p, n) \<in> set hs" "sz \<noteq> 0" "unat sz + 8 \<le> 2 ^ 15"
  obtains q st' where "xrealloc p sz st = Some (q, st')" "0 < q" "q \<noteq> p"
    "xheld st' ((q, unat sz) # remove1 (p, n) hs)"
    "\<And>i. i < n \<Longrightarrow> i < unat sz \<Longrightarrow> cells (xmem st') (q + i) = cells (xmem st) (p + i)"
    "\<And>r k i. (r, k) \<in> set hs \<Longrightarrow> r \<noteq> p \<Longrightarrow> i < k \<Longrightarrow> cells (xmem st') (r + i) = cells (xmem st) (r + i)"
proof -
  obtain q s1 where m: "xmalloc sz st = Some (q, s1)" "xheld s1 ((q, unat sz) # hs)" "0 < q"
      "\<And>r k i. (r, k) \<in> set hs \<Longrightarrow> i < k \<Longrightarrow> cells (xmem s1) (r + i) = cells (xmem st) (r + i)"
    using xmalloc_held [OF assms(1,4)] by metis
  have in1: "(p, n) \<in> set ((q, unat sz) # hs)" using assms(2) by simp
  obtain x a where h: "get_block_allocator p s1 = Some x" "objects s1 x = Some a"
      "n + 8 \<le> unat (GetBlockSize a)" "0 < p"
    using held_header [OF m(2) in1] by metis
  have fresh: "r \<noteq> q" if "(r, k) \<in> set hs" for r k
    using m(2) that by (force simp: xheld_def)
  define len where "len = unat (if GetBlockSize a - 8 < sz then GetBlockSize a - 8 else sz)"
  have "unat (GetBlockSize a - 8) = unat (GetBlockSize a) - 8"
    using unat_sub [of 8 "GetBlockSize a"] h(3) by (simp add: word_le_nat_alt)
  then have len: "len \<le> unat sz" "i < n \<Longrightarrow> i < unat sz \<Longrightarrow> i < len" for i
    using h(3) by (auto simp: len_def word_less_nat_alt)
  define s2 where "s2 = memcpy q p len s1"
  have w: "xheld s2 ((q, unat sz) # hs)"
    unfolding s2_def memcpy_cells using len(1) by (intro write_held [OF m(2), of q "unat sz"]) auto
  obtain st' where f: "xfree p s2 = Some st'" "xheld st' (remove1 (p, n) ((q, unat sz) # hs))"
      "\<And>r k i. (r, k) \<in> set ((q, unat sz) # hs) \<Longrightarrow> r \<noteq> p \<Longrightarrow> i < k \<Longrightarrow>
         cells (xmem st') (r + i) = cells (xmem s2) (r + i)"
    using xfree_held [OF w in1] by metis
  have copied: "cells (xmem st') (q + i) = cells (xmem st) (p + i)" if i: "i < n" "i < unat sz" for i
  proof -
    have "cells (xmem st') (q + i) = cells (xmem s2) (q + i)"
      using fresh [OF assms(2)] i(2) by (intro f(3)) auto
    also have "\<dots> = cells (xmem s1) (p + i)"
      using len(2) [OF i] by (simp add: s2_def memcpy_def)
    finally show ?thesis using m(4) [OF assms(2) i(1)] by simp
  qed
  have others: "cells (xmem st') (r + i) = cells (xmem st) (r + i)" if r: "(r, k) \<in> set hs" "r \<noteq> p" "i < k" for r k i
  proof -
    have "clear_of r k q (unat sz)"
      using r(1) fresh [OF r(1)] by (intro held_disjoint [OF m(2)]) auto
    then have "cells (xmem s2) (r + i) = cells (xmem s1) (r + i)"
      using r(3) len(1) by (auto simp: s2_def memcpy_def clear_of_def)
    with f(3) [of r k i] m(4) [OF r(1,3)] r show ?thesis by simp
  qed
  have run: "xrealloc p sz st = Some (q, st')"
    using m(1,3) h assms(3) f(1) by (simp add: xrealloc_def len_def s2_def Let_def)
  have "remove1 (p, n) ((q, unat sz) # hs) = (q, unat sz) # remove1 (p, n) hs"
    using fresh [OF assms(2)] by auto
  with f(2) fresh [OF assms(2)] show thesis
    by (intro that [OF run m(3) _ _ copied others]) auto
qed

text \<open>What a byte of a block that stays held is after an operation: only a write into it changes it.\<close>

definition expected :: "xop \<Rightarrow> (nat \<times> nat) list \<Rightarrow> (nat \<Rightarrow> cell) \<Rightarrow> nat \<Rightarrow> cell" where
  "expected op hs c z = (case op of
     Xwrite i off v \<Rightarrow> if i < length hs \<and> off < snd (hs ! i) \<and> z = fst (hs ! i) + off then Byte v else c z
   | _ \<Rightarrow> c z)"

definition kept :: "xop \<Rightarrow> xstate \<times> (nat \<times> nat) list \<Rightarrow> xstate \<times> (nat \<times> nat) list \<Rightarrow> bool" where
  "kept op = (\<lambda>(st, hs) (st', hs'). \<forall>(q, k) \<in> set hs \<inter> set hs'. \<forall>i < k.
     cells (xmem st') (q + i) = expected op hs (cells (xmem st)) (q + i))"

fun xrun :: "xop list \<Rightarrow> xstate \<times> (nat \<times> nat) list \<Rightarrow> (xstate \<times> (nat \<times> nat) list) option" where
  "xrun [] s = Some s"
| "xrun (op # ops) s = Option.bind (xstep op s) (xrun ops)"

lemma keptI:
  assumes "\<And>q k i. (q, k) \<in> set hs \<Longrightarrow> (q, k) \<in> set hs' \<Longrightarrow> i < k \<Longrightarrow>
    cells (xmem st') (q + i) = expected op hs (cells (xmem st)) (q + i)"
  shows "kept op (st, hs) (st', hs')"
  using assms unfolding kept_def by blast

lemma gone:
  assumes "xheld st hs" "(p, n) \<in> set hs" "(q, k) \<in> set (remove1 (p, n) hs)"
  shows "q \<noteq> p"
proof -
  have d: "distinct (map fst hs)" using assms(1) by (auto simp: xheld_def)
  then show ?thesis
    using assms(2,3) eq_key_imp_eq_value [OF d, of p n k] by (auto simp: distinct_map set_remove1_eq)
qed

lemma xfree_step:
  assumes "xheld st hs" "i < length hs"
  obtains st' where "xfree (fst (hs ! i)) st = Some st'" "xheld st' (remove1 (hs ! i) hs)"
    "\<And>q k j. (q, k) \<in> set hs \<Longrightarrow> (q, k) \<in> set (remove1 (hs ! i) hs) \<Longrightarrow> j < k \<Longrightarrow>
       cells (xmem st') (q + j) = cells (xmem st) (q + j)"
proof -
  obtain p n where h: "hs ! i = (p, n)" by (cases "hs ! i")
  have at: "(p, n) \<in> set hs" using nth_mem [OF assms(2)] h by simp
  from xfree_held [OF assms(1) at] gone [OF assms(1) at] that show thesis unfolding h fst_conv by metis
qed

lemma xstep_spec:
  assumes x: "xheld st hs" and small: "moderate op"
  shows "\<exists>st' hs'. xstep op (st, hs) = Some (st', hs') \<and> xheld st' hs' \<and> kept op (st, hs) (st', hs')"
proof (cases op)
  case (Xmalloc sz)
  then have "unat sz + 8 \<le> 2 ^ 15" using small by simp
  from xmalloc_held [OF x this] obtain p st' where m: "xmalloc sz st = Some (p, st')"
      "xheld st' ((p, unat sz) # hs)"
      "\<And>q n i. (q, n) \<in> set hs \<Longrightarrow> i < n \<Longrightarrow> cells (xmem st') (q + i) = cells (xmem st) (q + i)" by metis
  have "kept op (st, hs) (st', (p, unat sz) # hs)"
    by (rule keptI) (simp add: m(3) expected_def Xmalloc)
  with m(1,2) Xmalloc show ?thesis by simp
next
  case (Xfree i)
  show ?thesis
  proof (cases "i < length hs")
    case True
    from xfree_step [OF x True] obtain st' where f: "xfree (fst (hs ! i)) st = Some st'"
        "xheld st' (remove1 (hs ! i) hs)"
        "\<And>q k j. (q, k) \<in> set hs \<Longrightarrow> (q, k) \<in> set (remove1 (hs ! i) hs) \<Longrightarrow> j < k \<Longrightarrow>
           cells (xmem st') (q + j) = cells (xmem st) (q + j)" by metis
    have "kept op (st, hs) (st', remove1 (hs ! i) hs)"
      by (rule keptI) (simp add: f(3) expected_def Xfree)
    with f(1,2) True Xfree show ?thesis by simp
  qed (use x Xfree in \<open>simp add: kept_def expected_def\<close>)
next
  case (Xrealloc i sz)
  show ?thesis
  proof (cases "i < length hs")
    case True
    obtain p n where h: "hs ! i = (p, n)" by (cases "hs ! i")
    have at: "(p, n) \<in> set hs" using nth_mem [OF True] h by simp
    obtain x0 a where pos: "0 < p" using held_header [OF x at] by metis
    show ?thesis
    proof (cases "sz = 0")
      case zero: True
      from xfree_step [OF x True] obtain st' where f: "xfree (fst (hs ! i)) st = Some st'"
          "xheld st' (remove1 (hs ! i) hs)"
          "\<And>q k j. (q, k) \<in> set hs \<Longrightarrow> (q, k) \<in> set (remove1 (hs ! i) hs) \<Longrightarrow> j < k \<Longrightarrow>
             cells (xmem st') (q + j) = cells (xmem st) (q + j)" by metis
      have "kept op (st, hs) (st', remove1 (hs ! i) hs)"
        by (rule keptI) (simp add: f(3) expected_def Xrealloc)
      with f(1,2) True Xrealloc zero pos h show ?thesis by (simp add: xrealloc_def)
    next
      case False
      have "unat sz + 8 \<le> 2 ^ 15" using small Xrealloc by simp
      from xrealloc_held [OF x at False this] obtain q st' where r: "xrealloc p sz st = Some (q, st')" "0 < q" "q \<noteq> p"
          "xheld st' ((q, unat sz) # remove1 (p, n) hs)"
          "\<And>r k i. (r, k) \<in> set hs \<Longrightarrow> r \<noteq> p \<Longrightarrow> i < k \<Longrightarrow> cells (xmem st') (r + i) = cells (xmem st) (r + i)"
        by metis
      have "kept op (st, hs) (st', (q, unat sz) # remove1 (p, n) hs)"
      proof (rule keptI)
        fix r k j
        assume k: "(r, k) \<in> set hs" "(r, k) \<in> set ((q, unat sz) # remove1 (p, n) hs)" "j < k"
        have "r \<noteq> p"
        proof (cases "r = q")
          case False
          with k(2) show ?thesis by (intro gone [OF x at, of r k]) simp
        qed (simp add: r(3))
        with k r(5) show "cells (xmem st') (r + j) = expected op hs (cells (xmem st)) (r + j)"
          by (simp add: expected_def Xrealloc)
      qed
      with r(1,2,4) show ?thesis unfolding Xrealloc using True h by simp
    qed
  qed (use x Xrealloc in \<open>simp add: kept_def expected_def\<close>)
next
  case (Xwrite i off v)
  show ?thesis
  proof (cases "i < length hs \<and> off < snd (hs ! i)")
    case True
    obtain p n where h: "hs ! i = (p, n)" by (cases "hs ! i")
    have at: "(p, n) \<in> set hs" using nth_mem [of i hs] True h by simp
    let ?c = "(cells (xmem st))(p + off := Byte v)"
    have "xheld (with_cells ?c st) hs"
      using True h by (intro write_held [OF x at]) auto
    moreover have "kept op (st, hs) (with_cells ?c st, hs)"
      using True h by (simp add: kept_def with_cells_def expected_def Xwrite)
    ultimately show ?thesis using True h Xwrite by simp
  qed (use x Xwrite in \<open>auto simp: kept_def expected_def\<close>)
qed

lemma initial_held: "0 < brk m \<Longrightarrow> xheld (xinitial m) []"
  using initial_xok [of m] unfolding xheld_def by (intro exI [of _ "[]"] exI) auto

lemma xrun_held:
  assumes "xheld st hs" "list_all moderate ops"
  shows "\<exists>st' hs'. xrun ops (st, hs) = Some (st', hs') \<and> xheld st' hs'"
  using assms
proof (induction ops arbitrary: st hs)
  case (Cons op ops)
  obtain st1 hs1 where s: "xstep op (st, hs) = Some (st1, hs1)" "xheld st1 hs1"
    using xstep_spec [OF Cons.prems(1), of op] Cons.prems(2) by auto
  from Cons.IH [OF s(2)] Cons.prems(2) s(1) show ?case by simp
qed simp

lemma block_size_wraps: "block_size (- 1) = 8"
  by (simp add: block_size_def nexthigher_def smear.simps)

section \<open>Properties\<close>

text \<open>C32. \<^verbatim>\<open>nexthigher\<close>, the loop of shifts and ors, gives the least power of two that is not below its argument,
  for every argument from 1 to \<open>2 ^ 63\<close>.\<close>

theorem nexthigher_next_power:
  assumes "1 \<le> unat k" "unat k \<le> 2 ^ 63"
  shows "unat (nexthigher k) = 2 ^ (LEAST j. unat k \<le> 2 ^ j)"
proof -
  have "0 < k" using assms(1) by (simp add: word_less_nat_alt)
  then obtain j where j: "unat (nexthigher k) = 2 ^ j" "unat k \<le> 2 ^ j" "\<forall>i. unat k \<le> 2 ^ i \<longrightarrow> j \<le> i"
    using nexthigher_power [OF _ assms(2)] by blast
  then have "(LEAST j. unat k \<le> 2 ^ j) = j" by (intro Least_equality) auto
  with j(1) show ?thesis by simp
qed

theorem nexthigher_next_power_witness:
  "unat (nexthigher 12) = 2 ^ (LEAST j. unat (12 :: size_t) \<le> 2 ^ j)"
  by (rule nexthigher_next_power) simp_all

text \<open>C7. After any run of requests of moderate size, frees, resizes and writes, one more operation succeeds,
  the blocks the clients hold do not overlap, and every byte of a block that stays held is what its client
  wrote last.\<close>

theorem xallocator_serves_clients:
  assumes "0 < brk m" "list_all moderate ops" "moderate op"
  shows "\<exists>st hs st' hs'. xrun ops (xinitial m, []) = Some (st, hs) \<and> xstep op (st, hs) = Some (st', hs') \<and>
    kept op (st, hs) (st', hs') \<and>
    (\<forall>(p, n) \<in> set hs'. \<forall>(q, k) \<in> set hs'. p \<noteq> q \<longrightarrow> clear_of p n q k) \<and> distinct (map fst hs')"
proof -
  obtain st hs where r: "xrun ops (xinitial m, []) = Some (st, hs)" "xheld st hs"
    using xrun_held [OF initial_held [OF assms(1)] assms(2)] by blast
  obtain st' hs' where s: "xstep op (st, hs) = Some (st', hs')" "xheld st' hs'" "kept op (st, hs) (st', hs')"
    using xstep_spec [OF r(2) assms(3)] by blast
  moreover have "distinct (map fst hs')" using s(2) by (auto simp: xheld_def)
  ultimately show ?thesis using r(1) held_disjoint [OF s(2)] by blast
qed

definition fresh_memory :: memory where
  "fresh_memory = \<lparr>cells = (\<lambda>_. Byte 0), brk = 4096, live = Map.empty\<rparr>"

theorem xallocator_serves_clients_witness:
  "\<exists>st hs st' hs'. xrun [Xmalloc 10, Xmalloc 100, Xwrite 0 3 7, Xfree 1] (xinitial fresh_memory, []) = Some (st, hs) \<and>
    xstep (Xrealloc 0 300) (st, hs) = Some (st', hs') \<and> kept (Xrealloc 0 300) (st, hs) (st', hs') \<and>
    (\<forall>(p, n) \<in> set hs'. \<forall>(q, k) \<in> set hs'. p \<noteq> q \<longrightarrow> clear_of p n q k) \<and> distinct (map fst hs')"
  by (rule xallocator_serves_clients) (simp_all add: fresh_memory_def)

text \<open>C33. \<^verbatim>\<open>xrealloc\<close> of a block that a client holds gives it a block of the new size that begins with the bytes of
  the old one, as many as fit, and changes no other client's block.\<close>

theorem xrealloc_keeps_bytes:
  assumes "0 < brk m" "list_all moderate ops" "xrun ops (xinitial m, []) = Some (st, hs)"
    and "(p, n) \<in> set hs" "sz \<noteq> 0" "unat sz + 8 \<le> 2 ^ 15"
  shows "\<exists>q st'. xrealloc p sz st = Some (q, st') \<and> q \<noteq> 0 \<and>
    (\<forall>i < min n (unat sz). cells (xmem st') (q + i) = cells (xmem st) (p + i)) \<and>
    (\<forall>(r, k) \<in> set hs. r \<noteq> p \<longrightarrow> (clear_of r k q (unat sz) \<and>
       (\<forall>i < k. cells (xmem st') (r + i) = cells (xmem st) (r + i))))"
proof -
  have x: "xheld st hs" using xrun_held [OF initial_held [OF assms(1)] assms(2)] assms(3) by auto
  obtain q st' where r: "xrealloc p sz st = Some (q, st')" "0 < q" "q \<noteq> p"
      "xheld st' ((q, unat sz) # remove1 (p, n) hs)"
      "\<And>i. i < n \<Longrightarrow> i < unat sz \<Longrightarrow> cells (xmem st') (q + i) = cells (xmem st) (p + i)"
      "\<And>r k i. (r, k) \<in> set hs \<Longrightarrow> r \<noteq> p \<Longrightarrow> i < k \<Longrightarrow> cells (xmem st') (r + i) = cells (xmem st) (r + i)"
    using xrealloc_held [OF x assms(4-6)] by metis
  have "clear_of s k q (unat sz)" if s: "(s, k) \<in> set hs" "s \<noteq> p" for s k
  proof -
    have in2: "(s, k) \<in> set (remove1 (p, n) hs)" using s by (auto simp: in_set_remove1)
    then have "s \<noteq> q" using r(4) by (force simp: xheld_def)
    with in2 show ?thesis by (intro held_disjoint [OF r(4)]) auto
  qed
  with r show ?thesis by auto
qed

theorem xrealloc_keeps_bytes_witness:
  "\<exists>p st q st'. xmalloc 10 (xinitial fresh_memory) = Some (p, st) \<and> xrealloc p 20 st = Some (q, st') \<and>
    (\<forall>i < 10. cells (xmem st') (q + i) = cells (xmem st) (p + i))"
proof -
  have held: "0 < brk fresh_memory" "xheld (xinitial fresh_memory) []"
    using initial_held [of fresh_memory] by (simp_all add: fresh_memory_def)
  obtain p st where p: "xmalloc 10 (xinitial fresh_memory) = Some (p, st)"
    by (rule xmalloc_held [OF held(2), of 10]) simp
  have "\<exists>q st'. xrealloc p 20 st = Some (q, st') \<and> q \<noteq> 0 \<and>
    (\<forall>i < min 10 (unat (20 :: size_t)). cells (xmem st') (q + i) = cells (xmem st) (p + i)) \<and>
    (\<forall>(r, k) \<in> set [(p, 10)]. r \<noteq> p \<longrightarrow> (clear_of r k q (unat (20 :: size_t)) \<and>
       (\<forall>i < k. cells (xmem st') (r + i) = cells (xmem st) (r + i))))"
    by (rule xrealloc_keeps_bytes [OF held(1), of "[Xmalloc 10]"]) (simp_all add: p)
  with p show ?thesis by auto
qed

text \<open>A request whose size, with the pointer in front, wraps around is served from the smallest class: the
  block of a request for \<open>2 ^ 64 - 1\<close> bytes has room for that pointer and for not one byte of the client.\<close>

theorem xmalloc_wraps:
  assumes "0 < brk m"
  shows "\<exists>st a. xmalloc (- 1) (xinitial m) = Some (brk m + 72 + 8, st) \<and>
    objects st (brk m) = Some a \<and> m_blockSize a = 8 \<and> brk (xmem st) = brk m + 72 + 8"
proof -
  have b: "block_size (- 1) = 8" by (rule block_size_wraps)
  have f: "find_allocator 8 (xinitial m) = Some 0"
    using find_from_table [of "[]" Map.empty 8 MAX_ALLOCATORS] by (simp add: find_allocator_def xinitial_def)
  have "xmem (xinitial m) = m" "allocators (xinitial m) = 0 # replicate 14 0"
    by (simp_all add: xinitial_def MAX_ALLOCATORS_def replicate_Suc [symmetric] del: replicate_Suc)
  then show ?thesis
    using assms by (simp add: xmalloc_def xallocator_get_allocator_def b f new_Allocator_def Allocator_def
      new_chars_def sizeof_Allocator_def insert_allocator_def Allocate_def Pop_def new_block_def
      set_block_allocator_def PTR_SIZE_def)
qed

theorem xmalloc_wraps_witness:
  "\<exists>st a. xmalloc (- 1) (xinitial fresh_memory) = Some (4096 + 72 + 8, st) \<and>
    objects st 4096 = Some a \<and> m_blockSize a = 8 \<and> brk (xmem st) = 4096 + 72 + 8"
  using xmalloc_wraps [of fresh_memory] by (simp add: fresh_memory_def)

end
