(* ===== verification/Static_Pools.thy ===== *)
theory Static_Pools
  imports Xallocator
begin

text \<open>
  The mode of \<^verbatim>\<open>src/engine/xallocator.cpp\<close> with static pools (\<^verbatim>\<open>STATIC_POOLS\<close>, off in the repository): twelve
  allocators with 32 blocks each in memory that was reserved for them, in place of the ones that are made when a
  size is first asked for.  What is the same in both modes is in \<open>Xallocator\<close>; \<open>storage\<close> are the addresses of the
  twelve static arrays.
\<close>

definition static_sizes :: "size_t list" where
  "static_sizes = [8, 16, 32, 64, 128, 256, 396, 512, 768, 1024, 2048, 4096]"

definition STATIC_MAX_ALLOCATORS :: nat where "STATIC_MAX_ALLOCATORS = 12"
definition MAX_BLOCKS :: u32 where "MAX_BLOCKS = 32"

text \<open>\<^verbatim>\<open>new (&_allocator8) AllocatorPool<CHAR[8], MAX_BLOCKS>()\<close>: the pool lies behind the members of the allocator.\<close>

definition placement_new :: "nat \<times> size_t \<Rightarrow> xstate \<Rightarrow> xstate" where
  "placement_new = (\<lambda>(p, sizeof_T) st.
     let (a, m) = AllocatorPool sizeof_T MAX_BLOCKS (p + sizeof_Allocator) (xmem st)
     in st\<lparr>xmem := m, objects := (objects st)(p \<mapsto> a)\<rparr>)"

definition static_xalloc_init :: "nat list \<Rightarrow> xstate \<Rightarrow> xstate" where
  "static_xalloc_init storage st =
     (fold placement_new (zip storage static_sizes) (lock_init st))\<lparr>allocators := storage\<rparr>"

definition static_get_allocator :: "size_t \<Rightarrow> xstate \<Rightarrow> nat option" where
  "static_get_allocator sz st = do {
     allocator \<leftarrow> find_allocator (block_size sz) st;
     ASSERT_TRUE (allocator \<noteq> 0);
     Some allocator }"

definition static_xmalloc :: "size_t \<Rightarrow> xstate \<Rightarrow> (nat \<times> xstate) option" where
  "static_xmalloc sz st = do {
     allocator \<leftarrow> static_get_allocator sz st;
     a \<leftarrow> objects st allocator;
     (blockMemoryPtr, a, m) \<leftarrow> Allocate False (8 + sz) (a, xmem st);
     Some (set_block_allocator blockMemoryPtr allocator
       (st\<lparr>xmem := m, objects := (objects st)(allocator \<mapsto> a)\<rparr>)) }"

text \<open>The destructors run, the storage stays.\<close>

fun static_destroy :: "nat list \<Rightarrow> xstate \<Rightarrow> xstate option" where
  "static_destroy [] st = Some st"
| "static_destroy (x # xs) st = do {
     a \<leftarrow> objects st x;
     m \<leftarrow> delete_Allocator (a, xmem st);
     static_destroy xs (st\<lparr>xmem := m, objects := (objects st)(x := None)\<rparr>) }"

definition static_xalloc_destroy :: "xstate \<Rightarrow> xstate option" where
  "static_xalloc_destroy st = map_option (\<lambda>st. lock_destroy (st\<lparr>allocators := replicate STATIC_MAX_ALLOCATORS 0\<rparr>))
     (static_destroy (allocators st) st)"

section \<open>The pools after the start\<close>

definition static_pool :: "size_t \<Rightarrow> nat \<Rightarrow> allocator" where
  "static_pool sizeof_T p = fst (AllocatorPool sizeof_T MAX_BLOCKS (p + sizeof_Allocator) blank)"

lemma pool_made: "AllocatorPool sizeof_T MAX_BLOCKS (p + sizeof_Allocator) m = (static_pool sizeof_T p, m)"
  by (simp add: static_pool_def AllocatorPool_def Allocator_def MAX_BLOCKS_def sizeof_Allocator_def)

lemma static_pool_fields:
  "m_blockSize (static_pool sz p) = (if sz < 8 then 8 else sz)" "m_objectsize (static_pool sz p) = sz"
  "m_allocatorMode (static_pool sz p) = STATIC_POOL" "m_maxObjects (static_pool sz p) = 32"
  "m_pHead (static_pool sz p) = 0" "m_poolIndex (static_pool sz p) = 0" "m_pPool (static_pool sz p) = p + 72"
  by (simp_all add: static_pool_def AllocatorPool_def Allocator_def MAX_BLOCKS_def sizeof_Allocator_def)

lemma placed:
  "distinct (map fst ps) \<Longrightarrow> (p, sz) \<in> set ps \<Longrightarrow> objects (fold placement_new ps st) p = Some (static_pool sz p)"
proof (induction ps arbitrary: st)
  case (Cons q ps)
  have other: "objects (fold placement_new ps st) x = objects st x" if "x \<notin> fst ` set ps" for x st
    using that by (induction ps arbitrary: st) (auto simp: placement_new_def pool_made)
  show ?case
  proof (cases "(p, sz) = q")
    case True
    then have "p \<notin> fst ` set ps" using Cons.prems(1) by (metis distinct.simps(2) fst_conv list.simps(9) set_map)
    then have "objects (fold placement_new (q # ps) st) p = objects (placement_new q st) p" by (simp add: other)
    also have "\<dots> = Some (static_pool sz p)" unfolding True [symmetric] by (simp add: placement_new_def pool_made)
    finally show ?thesis .
  next
    case False
    with Cons.prems Cons.IH [of "placement_new q st"] show ?thesis by auto
  qed
qed simp

text \<open>The search in a table whose allocators have the sizes \<open>szs\<close>.\<close>

lemma find_in_pools:
  "list_all2 (\<lambda>p s. p \<noteq> 0 \<and> (\<exists>a. objs p = Some a \<and> GetBlockSize a = s)) ps szs \<Longrightarrow>
    find_from objs sz ps = Some (case map_of (zip szs ps) sz of None \<Rightarrow> 0 | Some p \<Rightarrow> p)"
  by (induction ps szs rule: list_all2_induct) auto

text \<open>The start: the storage is twelve different addresses.\<close>

definition reserved :: "nat list \<Rightarrow> bool" where
  "reserved storage \<longleftrightarrow> length storage = STATIC_MAX_ALLOCATORS \<and> distinct storage \<and> 0 \<notin> set storage"

lemma static_length: "length static_sizes = STATIC_MAX_ALLOCATORS"
  by (simp add: static_sizes_def STATIC_MAX_ALLOCATORS_def)

lemma static_sizes_ge: "sz \<in> set static_sizes \<Longrightarrow> \<not> sz < 8"
  by (auto simp: static_sizes_def)

lemma started_objects:
  assumes "reserved storage" "i < STATIC_MAX_ALLOCATORS"
  shows "objects (static_xalloc_init storage st) (storage ! i) = Some (static_pool (static_sizes ! i) (storage ! i))"
proof -
  have "(storage ! i, static_sizes ! i) \<in> set (zip storage static_sizes)"
    using assms static_length by (auto simp: reserved_def set_zip)
  with assms static_length show ?thesis
    by (simp add: static_xalloc_init_def reserved_def placed)
qed

lemma static_find:
  assumes "reserved storage"
  shows "find_allocator sz (static_xalloc_init storage st) =
    Some (case map_of (zip static_sizes storage) sz of None \<Rightarrow> 0 | Some p \<Rightarrow> p)"
proof -
  have "list_all2 (\<lambda>p s. p \<noteq> 0 \<and> (\<exists>a. objects (static_xalloc_init storage st) p = Some a \<and> GetBlockSize a = s))
      storage static_sizes"
    using assms static_length static_sizes_ge
    by (auto simp: list_all2_conv_all_nth reserved_def started_objects [OF assms] GetBlockSize_def static_pool_fields
      in_set_conv_nth)
  from find_in_pools [OF this] show ?thesis by (simp add: find_allocator_def static_xalloc_init_def)
qed

section \<open>Properties\<close>

lemma static_class:
  assumes "unat sz + 8 \<le> 2 ^ 63"
  shows "block_size sz \<in> set static_sizes \<longleftrightarrow> unat sz + 8 \<le> 4096"
proof
  assume "block_size sz \<in> set static_sizes"
  then have "unat (block_size sz) \<le> 4096" by (auto simp: static_sizes_def)
  with block_size_fits(1) [OF assms] show "unat sz + 8 \<le> 4096" by simp
next
  assume small: "unat sz + 8 \<le> 4096"
  from block_size_fits(2) [OF assms] show "block_size sz \<in> set static_sizes"
  proof
    assume "\<exists>j. 3 \<le> j \<and> j \<le> 63 \<and> unat (block_size sz) = 2 ^ j \<and> (\<forall>i. unat sz + 8 \<le> 2 ^ i \<longrightarrow> j \<le> i)"
    then obtain j where j: "3 \<le> j" "unat (block_size sz) = 2 ^ j" "\<forall>i. unat sz + 8 \<le> 2 ^ i \<longrightarrow> j \<le> i" by blast
    have "j \<le> 12" using j(3) small by (elim allE [of _ 12]) simp
    with j(1) have "j \<in> {3, 4, 5, 6, 7, 8, 9, 10, 11, 12}" by (simp only: insert_iff empty_iff) presburger
    then have "unat (block_size sz) \<in> {8, 16, 32, 64, 128, 256, 512, 1024, 2048, 4096}" using j(2) by auto
    moreover have "block_size sz = of_nat (unat (block_size sz))" by simp
    ultimately show ?thesis unfolding static_sizes_def by (elim insertE emptyE) simp_all
  qed (auto simp: static_sizes_def)
qed

text \<open>
  With static pools every request of up to 4088 bytes finds a pool, whose blocks have the size of its class
  and hold the request and its header, and the first block comes from the storage behind the allocator; every larger request fails an assertion.
\<close>

theorem static_pools_serve:
  assumes "reserved storage" "unat sz + 8 \<le> 2 ^ 63"
  shows "let st = static_xalloc_init storage (xinitial m) in
    if unat sz + 8 \<le> 4096 then \<exists>p st'. p \<in> set storage \<and> static_xmalloc sz st = Some (p + 80, st') \<and>
      get_block_allocator (p + 80) st' = Some p \<and> unat sz + 8 \<le> unat (block_size sz) \<and>
      map_option GetBlockSize (objects st' p) = Some (block_size sz)
    else static_xmalloc sz st = None"
proof -
  let ?st = "static_xalloc_init storage (xinitial m)"
  show ?thesis
  proof (cases "unat sz + 8 \<le> 4096")
    case True
    then have "block_size sz \<in> set static_sizes" using static_class [OF assms(2)] by simp
    then obtain i where i: "i < STATIC_MAX_ALLOCATORS" "static_sizes ! i = block_size sz"
      using static_length by (metis in_set_conv_nth)
    have "distinct static_sizes" by (simp add: static_sizes_def)
    then have look: "map_of (zip static_sizes storage) (block_size sz) = Some (storage ! i)"
      using map_of_zip_nth [of static_sizes storage i] assms(1) i static_length by (simp add: reserved_def)
    let ?p = "storage ! i" and ?a = "static_pool (block_size sz) (storage ! i)"
    have p: "?p \<noteq> 0" "?p \<in> set storage" using assms(1) i(1) by (auto simp: reserved_def in_set_conv_nth)
    have get: "static_get_allocator sz ?st = Some ?p"
      using static_find [OF assms(1), of "block_size sz"] look p(1) by (simp add: static_get_allocator_def ASSERT_TRUE_def)
    have obj: "objects ?st ?p = Some ?a" using started_objects [OF assms(1) i(1)] i(2) by simp
    have fit: "unat sz + 8 \<le> unat (block_size sz)" using block_size_fits(1) [OF assms(2)] .
    then have "8 + sz \<le> m_objectsize ?a"
      using size_plus [OF assms(2)] by (simp add: static_pool_fields word_le_nat_alt add.commute)
    moreover have "\<not> block_size sz < 8" using fit by (simp add: word_less_nat_alt)
    ultimately show ?thesis
      using get obj p(2) fit True
      by (simp add: Let_def static_xmalloc_def Allocate_def ASSERT_TRUE_def Pop_def new_block_def static_pool_fields
        set_block_allocator_def get_block_allocator_def PTR_SIZE_def GetBlockSize_def add.commute [of 72])
  next
    case False
    then have "map_of (zip static_sizes storage) (block_size sz) = None"
      using static_class [OF assms(2)] assms(1) static_length by (simp add: map_of_zip_is_None reserved_def)
    with static_find [OF assms(1), of "block_size sz"] False show ?thesis
      by (simp add: Let_def static_xmalloc_def static_get_allocator_def ASSERT_TRUE_def)
  qed
qed

theorem static_pools_serve_witness:
  "static_xmalloc 5000 (static_xalloc_init [8, 16, 24, 32, 40, 48, 56, 64, 72, 80, 88, 96] (xinitial blank)) = None"
proof -
  have "reserved [8, 16, 24, 32, 40, 48, 56, 64, 72, 80, 88, 96]"
    by (simp add: reserved_def STATIC_MAX_ALLOCATORS_def)
  from static_pools_serve [OF this, of 5000 blank] show ?thesis by (simp add: Let_def)
qed

end
