(* ===== verification/Linked_List.thy ===== *)
theory Linked_List
  imports Toy_Prelude
begin

text \<open>
  The list class of the camera library, \<^verbatim>\<open>src/hal/include/List_comm.h\<close>: a circular doubly linked list
  with a node in the middle that holds no value.  Nodes live in a memory of their own; an iterator is
  the address of a node.  Every operation is written pointer by pointer and is \<open>None\<close> when it touches
  a node that is not allocated, or does not end.
\<close>

section \<open>Nodes\<close>

text \<open>A node; the middle one has no value.\<close>

record 'a node =
  mVal :: "'a option"
  mpPrev :: nat
  mpNext :: nat

record 'a node_memory =
  nodes :: "nat \<rightharpoonup> 'a node"
  next_node :: nat

definition no_nodes :: "'a node_memory" where
  "no_nodes = \<lparr>nodes = Map.empty, next_node = 1\<rparr>"

text \<open>\<^verbatim>\<open>new\<close> with a value or without one; the pointers are set by the caller.\<close>

definition new_node :: "'a option \<Rightarrow> 'a node_memory \<Rightarrow> nat \<times> 'a node_memory" where
  "new_node v s = (next_node s,
     s\<lparr>nodes := (nodes s)(next_node s \<mapsto> \<lparr>mVal = v, mpPrev = 0, mpNext = 0\<rparr>), next_node := next_node s + 1\<rparr>)"

definition delete_node :: "nat \<Rightarrow> 'a node_memory \<Rightarrow> 'a node_memory option" where
  "delete_node p s = (if p \<in> dom (nodes s) then Some (s\<lparr>nodes := (nodes s)(p := None)\<rparr>) else None)"

definition getNext :: "'a node_memory \<Rightarrow> nat \<Rightarrow> nat option" where
  "getNext s p = map_option mpNext (nodes s p)"

definition getPrev :: "'a node_memory \<Rightarrow> nat \<Rightarrow> nat option" where
  "getPrev s p = map_option mpPrev (nodes s p)"

definition getRef :: "'a node_memory \<Rightarrow> nat \<Rightarrow> 'a option" where
  "getRef s p = Option.bind (nodes s p) mVal"

definition setNext :: "nat \<Rightarrow> nat \<Rightarrow> 'a node_memory \<Rightarrow> 'a node_memory option" where
  "setNext p q s = map_option (\<lambda>n. s\<lparr>nodes := (nodes s)(p \<mapsto> n\<lparr>mpNext := q\<rparr>)\<rparr>) (nodes s p)"

definition setPrev :: "nat \<Rightarrow> nat \<Rightarrow> 'a node_memory \<Rightarrow> 'a node_memory option" where
  "setPrev p q s = map_option (\<lambda>n. s\<lparr>nodes := (nodes s)(p \<mapsto> n\<lparr>mpPrev := q\<rparr>)\<rparr>) (nodes s p)"

definition setVal :: "nat \<Rightarrow> 'a \<Rightarrow> 'a node_memory \<Rightarrow> 'a node_memory option" where
  "setVal p v s = map_option (\<lambda>n. s\<lparr>nodes := (nodes s)(p \<mapsto> n\<lparr>mVal := Some v\<rparr>)\<rparr>) (nodes s p)"

section \<open>The operations\<close>

text \<open>A list is the address of its middle node.\<close>

definition prep :: "'a node_memory \<Rightarrow> (nat \<times> 'a node_memory) option" where
  "prep s = do {
     let (mpMiddle, s) = new_node None s;
     s \<leftarrow> setPrev mpMiddle mpMiddle s;
     s \<leftarrow> setNext mpMiddle mpMiddle s;
     Some (mpMiddle, s) }"

definition empty_list :: "nat \<Rightarrow> 'a node_memory \<Rightarrow> bool option" where
  "empty_list mpMiddle s = map_option (\<lambda>n. n = mpMiddle) (getNext s mpMiddle)"

definition begin_list :: "nat \<Rightarrow> 'a node_memory \<Rightarrow> nat option" where
  "begin_list mpMiddle s = getNext s mpMiddle"

definition end_list :: "nat \<Rightarrow> nat" where
  "end_list mpMiddle = mpMiddle"

definition insert_at :: "nat \<Rightarrow> 'a \<Rightarrow> 'a node_memory \<Rightarrow> (nat \<times> 'a node_memory) option" where
  "insert_at posn val s = do {
     let (newNode, s) = new_node (Some val) s;
     s \<leftarrow> setNext newNode posn s;
     prev \<leftarrow> getPrev s posn;
     s \<leftarrow> setPrev newNode prev s;
     prev \<leftarrow> getPrev s posn;
     s \<leftarrow> setNext prev newNode s;
     s \<leftarrow> setPrev posn newNode s;
     Some (newNode, s) }"

partial_function (option) insert_range :: "nat \<Rightarrow> nat \<Rightarrow> nat \<Rightarrow> 'a node_memory \<Rightarrow> 'a node_memory option" where
  "insert_range posn first stop s = (if first \<noteq> stop then do {
       v \<leftarrow> getRef s first;
       (_, s) \<leftarrow> insert_at posn v s;
       first \<leftarrow> getNext s first;
       insert_range posn first stop s }
     else Some s)"

definition push_front :: "nat \<Rightarrow> 'a \<Rightarrow> 'a node_memory \<Rightarrow> 'a node_memory option" where
  "push_front mpMiddle val s = do {
     posn \<leftarrow> begin_list mpMiddle s;
     (_, s) \<leftarrow> insert_at posn val s;
     Some s }"

definition push_back :: "nat \<Rightarrow> 'a \<Rightarrow> 'a node_memory \<Rightarrow> 'a node_memory option" where
  "push_back mpMiddle val s = do {
     (_, s) \<leftarrow> insert_at (end_list mpMiddle) val s;
     Some s }"

definition erase :: "nat \<Rightarrow> 'a node_memory \<Rightarrow> (nat \<times> 'a node_memory) option" where
  "erase posn s = do {
     pNext \<leftarrow> getNext s posn;
     pPrev \<leftarrow> getPrev s posn;
     s \<leftarrow> setNext pPrev pNext s;
     s \<leftarrow> setPrev pNext pPrev s;
     s \<leftarrow> delete_node posn s;
     Some (pNext, s) }"

partial_function (option) erase_range :: "nat \<Rightarrow> nat \<Rightarrow> 'a node_memory \<Rightarrow> 'a node_memory option" where
  "erase_range first stop s = (if first \<noteq> stop then do {
       pNext \<leftarrow> getNext s first;
       (_, s) \<leftarrow> erase first s;
       erase_range pNext stop s }
     else Some s)"

partial_function (option) clear_from :: "nat \<Rightarrow> nat \<Rightarrow> 'a node_memory \<Rightarrow> 'a node_memory option" where
  "clear_from mpMiddle pCurrent s = (if pCurrent \<noteq> mpMiddle then do {
       pNext \<leftarrow> getNext s pCurrent;
       s \<leftarrow> delete_node pCurrent s;
       clear_from mpMiddle pNext s }
     else Some s)"

definition clear :: "nat \<Rightarrow> 'a node_memory \<Rightarrow> 'a node_memory option" where
  "clear mpMiddle s = do {
     pCurrent \<leftarrow> getNext s mpMiddle;
     s \<leftarrow> clear_from mpMiddle pCurrent s;
     s \<leftarrow> setPrev mpMiddle mpMiddle s;
     setNext mpMiddle mpMiddle s }"

definition delete_List :: "nat \<Rightarrow> 'a node_memory \<Rightarrow> 'a node_memory option" where
  "delete_List mpMiddle s = do {
     s \<leftarrow> clear mpMiddle s;
     delete_node mpMiddle s }"

partial_function (option) distance_loop :: "'a node_memory \<Rightarrow> nat \<Rightarrow> nat \<Rightarrow> nat \<Rightarrow> nat option" where
  "distance_loop s first stop count = (if first \<noteq> stop then do {
       first \<leftarrow> getNext s first;
       distance_loop s first stop (count + 1) }
     else Some count)"

definition distance :: "'a node_memory \<Rightarrow> nat \<Rightarrow> nat \<Rightarrow> nat option" where
  "distance s first stop = distance_loop s first stop 0"

definition list_size :: "nat \<Rightarrow> 'a node_memory \<Rightarrow> nat option" where
  "list_size mpMiddle s = do {
     first \<leftarrow> begin_list mpMiddle s;
     distance s first (end_list mpMiddle) }"

definition copy_List :: "nat \<Rightarrow> 'a node_memory \<Rightarrow> (nat \<times> 'a node_memory) option" where
  "copy_List src s = do {
     (mpMiddle, s) \<leftarrow> prep s;
     posn \<leftarrow> begin_list mpMiddle s;
     first \<leftarrow> begin_list src s;
     s \<leftarrow> insert_range posn first (end_list src) s;
     Some (mpMiddle, s) }"

text \<open>The loop of the assignment, which stores into the nodes that are there: where the two iterators stop.\<close>

partial_function (option) assign_loop ::
    "nat \<Rightarrow> nat \<Rightarrow> nat \<Rightarrow> nat \<Rightarrow> 'a node_memory \<Rightarrow> (nat \<times> nat \<times> 'a node_memory) option" where
  "assign_loop firstDst lastDst firstSrc lastSrc s = (if firstSrc \<noteq> lastSrc \<and> firstDst \<noteq> lastDst then do {
       v \<leftarrow> getRef s firstSrc;
       s \<leftarrow> setVal firstDst v s;
       dst \<leftarrow> getNext s firstDst;
       src \<leftarrow> getNext s firstSrc;
       assign_loop dst lastDst src lastSrc s }
     else Some (firstDst, firstSrc, s))"

definition assign :: "nat \<Rightarrow> nat \<Rightarrow> 'a node_memory \<Rightarrow> 'a node_memory option" where
  "assign this right s = (if this = right then Some s
     else do {
       firstDst \<leftarrow> begin_list this s;
       firstSrc \<leftarrow> begin_list right s;
       (firstDst, firstSrc, s) \<leftarrow> assign_loop firstDst (end_list this) firstSrc (end_list right) s;
       if firstSrc = end_list right then erase_range firstDst (end_list this) s
       else insert_range (end_list this) firstSrc (end_list right) s })"

section \<open>Rings\<close>

text \<open>\<open>path s zs\<close>: from each node of \<open>zs\<close> the next pointer leads to the one after it, and back.\<close>

fun path :: "'a node_memory \<Rightarrow> nat list \<Rightarrow> bool" where
  "path s (x # y # zs) \<longleftrightarrow> getNext s x = Some y \<and> getPrev s y = Some x \<and> path s (y # zs)"
| "path s _ \<longleftrightarrow> True"

lemma path_Cons: "path s (x # zs) \<longleftrightarrow>
    (zs \<noteq> [] \<longrightarrow> getNext s x = Some (hd zs) \<and> getPrev s (hd zs) = Some x \<and> path s zs)"
  by (cases zs) simp_all

lemma path_append: "path s (xs @ p # b # ys) \<longleftrightarrow>
    path s (xs @ [p]) \<and> getNext s p = Some b \<and> getPrev s b = Some p \<and> path s (b # ys)"
  by (induction xs rule: induct_list012) auto

lemma path_frame:
  assumes "path s zs" "\<And>x. x \<in> set (butlast zs) \<Longrightarrow> getNext s' x = getNext s x"
    "\<And>x. x \<in> set (tl zs) \<Longrightarrow> getPrev s' x = getPrev s x"
  shows "path s' zs"
  using assms by (induction s zs rule: path.induct) auto

text \<open>
  \<open>holds s m as xs\<close>: the list with the middle node \<open>m\<close> has the nodes \<open>as\<close> and the values \<open>xs\<close>.  All nodes
  lie below the next address that is handed out.
\<close>

definition holds :: "'a node_memory \<Rightarrow> nat \<Rightarrow> nat list \<Rightarrow> 'a list \<Rightarrow> bool" where
  "holds s m as xs \<longleftrightarrow> path s (m # as @ [m]) \<and> distinct (m # as) \<and> map (getRef s) as = map Some xs \<and>
     (\<forall>x \<in> set (m # as). x < next_node s)"

lemma holdsD:
  assumes "holds s m as xs"
  shows "path s (m # as @ [m])" "distinct (m # as)" "map (getRef s) as = map Some xs"
    "x \<in> set (m # as) \<Longrightarrow> x < next_node s" "length as = length xs"
  using assms unfolding holds_def by (auto dest: map_eq_imp_length_eq)

lemma path_ends:
  assumes "path s (zs @ [z])" "zs \<noteq> []" "x \<in> set zs"
  shows "x \<in> dom (nodes s)"
  using assms by (induction zs) (auto simp: path_Cons getNext_def hd_append split: if_splits)

lemma holds_dom:
  assumes "holds s m as xs" "x \<in> set (m # as)"
  shows "x \<in> dom (nodes s)"
  using path_ends [of s "m # as" m x] holdsD(1) [OF assms(1)] assms(2) by simp

lemma holds_frame:
  assumes "holds s m as xs" "\<And>x. x \<in> set (m # as) \<Longrightarrow> nodes s' x = nodes s x" "next_node s \<le> next_node s'"
  shows "holds s' m as xs"
proof -
  have same: "getNext s' x = getNext s x" "getPrev s' x = getPrev s x" "getRef s' x = getRef s x"
    if "x \<in> set (m # as)" for x
    using assms(2) [OF that] by (simp_all add: getNext_def getPrev_def getRef_def)
  have "path s' (m # as @ [m])"
    using same by (intro path_frame [OF holdsD(1) [OF assms(1)]]) (auto simp: butlast_append)
  moreover have "map (getRef s') as = map (getRef s) as" using same by simp
  ultimately show ?thesis
    using holdsD [OF assms(1)] assms(3) unfolding holds_def by (auto intro: less_le_trans)
qed

section \<open>Inserting and erasing\<close>

lemmas pointer_defs = new_node_def delete_node_def setNext_def setPrev_def setVal_def

lemma insert_at_run:
  assumes "getPrev s b = Some p" "p \<in> dom (nodes s)" "p < next_node s" "b < next_node s"
  obtains s' where "insert_at b v s = Some (next_node s, s')" "next_node s' = next_node s + 1"
    "\<And>x. getNext s' x = (if x = next_node s then Some b else if x = p then Some (next_node s) else getNext s x)"
    "\<And>x. getPrev s' x = (if x = next_node s then Some p else if x = b then Some (next_node s) else getPrev s x)"
    "\<And>x. getRef s' x = (if x = next_node s then Some v else getRef s x)"
    "\<And>x. x \<noteq> next_node s \<Longrightarrow> x \<noteq> p \<Longrightarrow> x \<noteq> b \<Longrightarrow> nodes s' x = nodes s x"
proof -
  obtain np where p: "nodes s p = Some np" using assms(2) by blast
  obtain nb where b: "nodes s b = Some nb" "mpPrev nb = p" using assms(1) by (auto simp: getPrev_def)
  let ?n = "next_node s"
  let ?N = "(nodes s)(?n \<mapsto> \<lparr>mVal = Some v, mpPrev = p, mpNext = b\<rparr>, p \<mapsto> np\<lparr>mpNext := ?n\<rparr>)"
  let ?s = "s\<lparr>nodes := ?N(b \<mapsto> (the (?N b))\<lparr>mpPrev := ?n\<rparr>), next_node := ?n + 1\<rparr>"
  have "insert_at b v s = Some (?n, ?s)"
    using p b assms(3,4) by (auto simp: insert_at_def pointer_defs getPrev_def fun_upd_twist)
  then show thesis
    by (rule that) (use p b assms(3,4) in \<open>auto simp: getNext_def getPrev_def getRef_def\<close>)
qed

lemma erase_run:
  assumes "getNext s a = Some q" "getPrev s a = Some p" "p \<in> dom (nodes s)" "q \<in> dom (nodes s)" "a \<noteq> p" "a \<noteq> q"
  obtains s' where "erase a s = Some (q, s')" "next_node s' = next_node s" "nodes s' a = None"
    "\<And>x. x \<noteq> a \<Longrightarrow> getNext s' x = (if x = p then Some q else getNext s x)"
    "\<And>x. x \<noteq> a \<Longrightarrow> getPrev s' x = (if x = q then Some p else getPrev s x)"
    "\<And>x. x \<noteq> a \<Longrightarrow> getRef s' x = getRef s x"
    "\<And>x. x \<noteq> a \<Longrightarrow> x \<noteq> p \<Longrightarrow> x \<noteq> q \<Longrightarrow> nodes s' x = nodes s x"
proof -
  obtain na np nq where n: "nodes s a = Some na" "mpNext na = q" "mpPrev na = p" "nodes s p = Some np"
      "nodes s q = Some nq"
    using assms(1-4) by (auto simp: getNext_def getPrev_def)
  let ?N = "(nodes s)(p \<mapsto> np\<lparr>mpNext := q\<rparr>)"
  let ?s = "s\<lparr>nodes := (?N(q \<mapsto> (the (?N q))\<lparr>mpPrev := p\<rparr>))(a := None)\<rparr>"
  have "erase a s = Some (q, ?s)"
    using n assms(5,6) by (auto simp: erase_def pointer_defs getNext_def getPrev_def)
  then show thesis
    by (rule that) (use n assms(5,6) in \<open>auto simp: getNext_def getPrev_def getRef_def\<close>)
qed

lemma ring_split:
  assumes "holds s m (as1 @ as2) xs"
  obtains us p b ys where "m # as1 = us @ [p]" "as2 @ [m] = b # ys" "path s (us @ p # b # ys)"
    "p \<in> set (m # as1)" "b \<in> set (m # as2)" "p \<notin> set us" "b \<notin> set ys"
proof -
  obtain us p where u: "m # as1 = us @ [p]" by (metis append_butlast_last_id list.distinct(1))
  obtain b ys where y: "as2 @ [m] = b # ys" by (cases "as2 @ [m]") auto
  have d: "distinct (m # as1 @ as2)" using holdsD(2) [OF assms] .
  have "path s ((m # as1) @ as2 @ [m])" using holdsD(1) [OF assms] by simp
  then have "path s (us @ p # b # ys)" unfolding u y by simp
  moreover have "p \<in> set (m # as1)" unfolding u by simp
  moreover have "b \<in> set (m # as2)" using y by (cases as2) auto
  moreover have "p \<notin> set us" using d u by (metis append_Cons distinct_append not_distinct_conv_prefix)
  moreover have "b \<notin> set ys" using d y by (cases as2) auto
  ultimately show thesis using u y by (rule_tac that)
qed

lemma insert_at_holds:
  assumes h: "holds s m (as1 @ as2) (xs1 @ xs2)" and len: "length as1 = length xs1" and b: "b = hd (as2 @ [m])"
  obtains s' where "insert_at b v s = Some (next_node s, s')" "next_node s' = next_node s + 1"
    "holds s' m (as1 @ next_node s # as2) (xs1 @ v # xs2)"
    "\<And>x. x \<notin> set (m # as1 @ as2) \<Longrightarrow> x \<noteq> next_node s \<Longrightarrow> nodes s' x = nodes s x"
proof -
  obtain us p ys where z: "m # as1 = us @ [p]" "as2 @ [m] = b # ys" "path s (us @ p # b # ys)"
      "p \<in> set (m # as1)" "b \<in> set (m # as2)" "p \<notin> set us" "b \<notin> set ys"
    using ring_split [OF h] b by (metis list.sel(1))
  note d = holdsD(2) [OF h]
  have pb: "getPrev s b = Some p" using z(3) by (simp add: path_append)
  have dom: "p \<in> dom (nodes s)" using holds_dom [OF h] z(4) by auto
  have lt: "x < next_node s" if "x \<in> set (m # as1 @ as2)" for x using holdsD(4) [OF h that] .
  have small: "p < next_node s" "b < next_node s" using lt z(4,5) by auto
  obtain s' where s': "insert_at b v s = Some (next_node s, s')" "next_node s' = next_node s + 1"
    "\<And>x. getNext s' x = (if x = next_node s then Some b else if x = p then Some (next_node s) else getNext s x)"
    "\<And>x. getPrev s' x = (if x = next_node s then Some p else if x = b then Some (next_node s) else getPrev s x)"
    "\<And>x. getRef s' x = (if x = next_node s then Some v else getRef s x)"
    "\<And>x. x \<noteq> next_node s \<Longrightarrow> x \<noteq> p \<Longrightarrow> x \<noteq> b \<Longrightarrow> nodes s' x = nodes s x"
    by (rule insert_at_run [OF pb dom small, of v]) (rule that)
  have new: "next_node s \<notin> set (m # as1 @ as2)" using lt by blast
  have tl1: "tl (us @ [p]) = as1" and bl2: "butlast (b # ys) = as2" using z(1,2) by (metis list.sel(3), metis butlast_snoc)
  have us: "set us \<subseteq> set (m # as1)" unfolding z(1) by auto
  have ys: "set ys \<subseteq> set (m # as2)" using z(2) by (metis set_subset_Cons set_append Un_commute list.set(1,2) insert_is_Un)
  have "path s' (us @ [p])"
  proof (rule path_frame [where s = s])
    show "path s (us @ [p])" using z(3) by (simp add: path_append)
    show "getNext s' x = getNext s x" if "x \<in> set (butlast (us @ [p]))" for x
      using that us new z(6) by (auto simp: s'(3))
    show "getPrev s' x = getPrev s x" if "x \<in> set (tl (us @ [p]))" for x
      using that new z(5) d unfolding tl1 by (auto simp: s'(4))
  qed
  moreover have "path s' (b # ys)"
  proof (rule path_frame [where s = s])
    show "path s (b # ys)" using z(3) by (simp add: path_append)
    show "getNext s' x = getNext s x" if "x \<in> set (butlast (b # ys))" for x
      using that new z(4) d unfolding bl2 by (auto simp: s'(3))
    show "getPrev s' x = getPrev s x" if "x \<in> set (tl (b # ys))" for x
      using that new ys z(7) by (auto simp: s'(4))
  qed
  moreover have "p \<noteq> next_node s" "b \<noteq> next_node s" using new z(4,5) by auto
  ultimately have "path s' (us @ p # next_node s # b # ys)"
    by (simp add: path_append s'(3,4))
  then have "path s' (m # (as1 @ next_node s # as2) @ [m])"
    using z(1,2) by (metis append.assoc append_Cons append_Nil)
  moreover have "map (getRef s') (as1 @ next_node s # as2) = map Some (xs1 @ v # xs2)"
  proof -
    have "map (getRef s') as1 = map (getRef s) as1" "map (getRef s') as2 = map (getRef s) as2"
      using new by (auto simp: s'(5))
    moreover have "map (getRef s) as1 = map Some xs1" "map (getRef s) as2 = map Some xs2"
      using holdsD(3) [OF h] len by simp_all
    moreover have "getRef s' (next_node s) = Some v" by (simp add: s'(5))
    ultimately show ?thesis by (simp only: map_append list.map)
  qed
  ultimately have "holds s' m (as1 @ next_node s # as2) (xs1 @ v # xs2)"
    using d new lt unfolding holds_def s'(2) by (auto simp: less_Suc_eq)
  with s'(1,2) show thesis
    using s'(6) z(4,5) by (intro that [of s']) auto
qed

lemma erase_holds:
  assumes h: "holds s m (as1 @ a # as2) (xs1 @ v # xs2)" and len: "length as1 = length xs1"
  obtains s' where "erase a s = Some (hd (as2 @ [m]), s')" "next_node s' = next_node s"
    "holds s' m (as1 @ as2) (xs1 @ xs2)" "nodes s' a = None"
    "\<And>x. x \<notin> set (m # as1 @ a # as2) \<Longrightarrow> nodes s' x = nodes s x"
proof -
  obtain us p where u: "m # as1 = us @ [p]" by (metis append_butlast_last_id list.distinct(1))
  obtain q ys where y: "as2 @ [m] = q # ys" by (cases "as2 @ [m]") auto
  note d = holdsD(2) [OF h]
  have "path s ((m # as1) @ a # as2 @ [m])" using holdsD(1) [OF h] by simp
  then have pth: "path s (us @ p # a # q # ys)" unfolding u y by simp
  have pq: "p \<in> set (m # as1)" "q \<in> set (m # as2)" unfolding u using y by (simp, cases as2) auto
  have loc: "p \<notin> set us" "q \<notin> set ys"
    using d u y by (metis append_Cons distinct_append not_distinct_conv_prefix, cases as2) auto
  have nx: "getNext s a = Some q" "getPrev s a = Some p" using pth by (simp_all add: path_append)
  have dom: "p \<in> dom (nodes s)" "q \<in> dom (nodes s)" using holds_dom [OF h] pq by auto
  have ne: "a \<noteq> p" "a \<noteq> q" using d pq by auto
  obtain s' where s': "erase a s = Some (q, s')" "next_node s' = next_node s" "nodes s' a = None"
    "\<And>x. x \<noteq> a \<Longrightarrow> getNext s' x = (if x = p then Some q else getNext s x)"
    "\<And>x. x \<noteq> a \<Longrightarrow> getPrev s' x = (if x = q then Some p else getPrev s x)"
    "\<And>x. x \<noteq> a \<Longrightarrow> getRef s' x = getRef s x"
    "\<And>x. x \<noteq> a \<Longrightarrow> x \<noteq> p \<Longrightarrow> x \<noteq> q \<Longrightarrow> nodes s' x = nodes s x"
    by (rule erase_run [OF nx dom ne]) (rule that)
  have tl1: "tl (us @ [p]) = as1" and bl2: "butlast (q # ys) = as2" using u y by (metis list.sel(3), metis butlast_snoc)
  have us: "set us \<subseteq> set (m # as1)" unfolding u by auto
  have ys: "set ys \<subseteq> set (m # as2)" using y by (metis set_subset_Cons set_append Un_commute list.set(1,2) insert_is_Un)
  have away: "x \<noteq> a" if "x \<in> set (m # as1 @ as2)" for x using that d by auto
  have "path s (p # a # q # ys)" using pth by (auto simp: path_append [of s us])
  have "path s' (us @ [p])"
  proof (rule path_frame [where s = s])
    show "path s (us @ [p])" using pth by (simp add: path_append)
    show "getNext s' x = getNext s x" if "x \<in> set (butlast (us @ [p]))" for x
      using that us away [of x] loc(1) by (auto simp: s'(4))
    show "getPrev s' x = getPrev s x" if "x \<in> set (tl (us @ [p]))" for x
      using that away [of x] pq(2) d unfolding tl1 by (auto simp: s'(5))
  qed
  moreover have "path s' (q # ys)"
  proof (rule path_frame [where s = s])
    show "path s (q # ys)" using pth by (simp add: path_append)
    show "getNext s' x = getNext s x" if "x \<in> set (butlast (q # ys))" for x
      using that away [of x] pq(1) d unfolding bl2 by (auto simp: s'(4))
    show "getPrev s' x = getPrev s x" if "x \<in> set (tl (q # ys))" for x
      using that ys away [of x] loc(2) by (auto simp: s'(5))
  qed
  ultimately have "path s' (us @ p # q # ys)"
    using ne by (simp add: path_append s'(4,5))
  then have "path s' (m # (as1 @ as2) @ [m])"
    using u y by (metis append.assoc append_Cons append_Nil)
  moreover have "map (getRef s') (as1 @ as2) = map Some (xs1 @ xs2)"
  proof -
    have "map (getRef s') as1 = map (getRef s) as1" "map (getRef s') as2 = map (getRef s) as2"
      using away by (auto simp: s'(6))
    moreover have "map (getRef s) as1 = map Some xs1" "map (getRef s) as2 = map Some xs2"
      using holdsD(3) [OF h] len by simp_all
    ultimately show ?thesis by (simp only: map_append)
  qed
  ultimately have "holds s' m (as1 @ as2) (xs1 @ xs2)"
    using d holdsD(4) [OF h] unfolding holds_def s'(2) by auto
  with s'(1-3) show thesis
    using s'(7) pq y by (intro that [of s']) auto
qed

section \<open>What an operation leaves alone\<close>

text \<open>
  The nodes of one list go from \<open>as\<close> to \<open>as'\<close>: those that left are freed, those that came are new,
  and nothing else of the memory changes.
\<close>

definition updates :: "'a node_memory \<Rightarrow> 'a node_memory \<Rightarrow> nat \<Rightarrow> nat list \<Rightarrow> nat list \<Rightarrow> bool" where
  "updates s s' m as as' \<longleftrightarrow> next_node s \<le> next_node s' \<and>
     (\<forall>x. x \<notin> set (m # as) \<longrightarrow> x \<notin> set as' \<longrightarrow> nodes s' x = nodes s x) \<and>
     (\<forall>x \<in> set as - set as'. nodes s' x = None) \<and> (\<forall>x \<in> set as' - set as. next_node s \<le> x)"

definition wf_memory :: "'a node_memory \<Rightarrow> bool" where
  "wf_memory s \<longleftrightarrow> (\<forall>x \<in> dom (nodes s). x < next_node s)"

lemma updatesD:
  assumes "updates s s' m as as'"
  shows "next_node s \<le> next_node s'" "x \<notin> set (m # as) \<Longrightarrow> x \<notin> set as' \<Longrightarrow> nodes s' x = nodes s x"
    "x \<in> set as \<Longrightarrow> x \<notin> set as' \<Longrightarrow> nodes s' x = None" "x \<in> set as' \<Longrightarrow> x \<notin> set as \<Longrightarrow> next_node s \<le> x"
  using assms by (auto simp: updates_def)

lemma wf_memoryD: "wf_memory s \<Longrightarrow> next_node s \<le> x \<Longrightarrow> nodes s x = None"
  by (meson domIff linorder_not_less wf_memory_def)

lemma updates_refl: "updates s s m as as"
  by (simp add: updates_def)

lemma updates_trans:
  assumes "updates s s1 m as as1" "updates s1 s2 m as1 as2" "wf_memory s" "m \<notin> set as"
  shows "updates s s2 m as as2"
proof -
  have le: "next_node s \<le> next_node s1" "next_node s1 \<le> next_node s2" using assms(1,2) by (auto simp: updates_def)
  have gone: "nodes s x = None" if "x \<in> set as1 - set as" for x
    using updatesD(4) [OF assms(1), of x] wf_memoryD [OF assms(3), of x] that by simp
  have "nodes s2 x = nodes s x" if x: "x \<notin> set (m # as)" "x \<notin> set as2" for x
  proof (cases "x \<in> set as1")
    case True
    with x gone [of x] assms(2) show ?thesis by (auto simp: updates_def)
  next
    case False
    with x assms(1,2) show ?thesis by (auto simp: updates_def)
  qed
  moreover have "nodes s2 x = None" if x: "x \<in> set as - set as2" for x
  proof (cases "x \<in> set as1")
    case True
    with x assms(2) show ?thesis by (auto simp: updates_def)
  next
    case False
    then have "nodes s1 x = None" "x \<noteq> m" using x assms(1,4) by (auto simp: updates_def)
    with False x assms(2) show ?thesis by (auto simp: updates_def)
  qed
  moreover have "next_node s \<le> x" if x: "x \<in> set as2 - set as" for x
  proof (cases "x \<in> set as1")
    case True
    with x assms(1) show ?thesis by (auto simp: updates_def)
  next
    case False
    with x assms(2) le show ?thesis by (auto simp: updates_def intro: order_trans)
  qed
  ultimately show ?thesis using le by (auto simp: updates_def)
qed

lemma updates_wf:
  assumes "updates s s' m as as'" "wf_memory s" "holds s m as xs" "holds s' m as' xs'"
  shows "wf_memory s'"
  unfolding wf_memory_def
proof
  fix x assume x: "x \<in> dom (nodes s')"
  show "x < next_node s'"
  proof (cases "x \<in> set (m # as')")
    case False
    then have "x \<notin> set as" using x updatesD(3) [OF assms(1), of x] by auto
    then have "nodes s' x = nodes s x" using False updatesD(2) [OF assms(1), of x] by simp
    then have "x \<in> dom (nodes s)" using x by (simp add: domIff)
    then have "x < next_node s" using assms(2) unfolding wf_memory_def by blast
    with updatesD(1) [OF assms(1)] show ?thesis by simp
  qed (rule holdsD(4) [OF assms(4)])
qed

text \<open>Another list keeps its nodes and values.\<close>

lemma updates_other:
  assumes "updates s s' m as as'" "holds s r bs ys" "set (m # as) \<inter> set (r # bs) = {}" "holds s' m as' xs'"
  shows "holds s' r bs ys" "set (m # as') \<inter> set (r # bs) = {}"
proof -
  have "x \<notin> set as'" if "x \<in> set (r # bs)" for x
    using that assms(3) holdsD(4) [OF assms(2) that] updatesD(4) [OF assms(1), of x]
    by (meson disjoint_iff linorder_not_less list.set_intros(2))
  then show d: "set (m # as') \<inter> set (r # bs) = {}" using assms(3) by auto
  show "holds s' r bs ys"
  proof (rule holds_frame [OF assms(2)])
    fix x assume "x \<in> set (r # bs)"
    then have "x \<notin> set (m # as)" "x \<notin> set as'" using assms(3) d by auto
    then show "nodes s' x = nodes s x" by (rule updatesD(2) [OF assms(1)])
  qed (rule updatesD(1) [OF assms(1)])
qed

lemma insert_at_updates:
  assumes "holds s m (as1 @ as2) (xs1 @ xs2)" "length as1 = length xs1" "b = hd (as2 @ [m])"
  obtains s' where "insert_at b v s = Some (next_node s, s')"
    "holds s' m (as1 @ next_node s # as2) (xs1 @ v # xs2)" "updates s s' m (as1 @ as2) (as1 @ next_node s # as2)"
proof -
  obtain s' where s': "insert_at b v s = Some (next_node s, s')" "next_node s' = next_node s + 1"
      "holds s' m (as1 @ next_node s # as2) (xs1 @ v # xs2)"
      "\<And>x. x \<notin> set (m # as1 @ as2) \<Longrightarrow> x \<noteq> next_node s \<Longrightarrow> nodes s' x = nodes s x"
    by (rule insert_at_holds [OF assms, of v]) (rule that)
  have "updates s s' m (as1 @ as2) (as1 @ next_node s # as2)"
    using s'(2,4) by (auto simp: updates_def)
  with s'(1,3) show thesis by (rule that)
qed

lemma erase_updates:
  assumes "holds s m (as1 @ a # as2) (xs1 @ v # xs2)" "length as1 = length xs1"
  obtains s' where "erase a s = Some (hd (as2 @ [m]), s')"
    "holds s' m (as1 @ as2) (xs1 @ xs2)" "updates s s' m (as1 @ a # as2) (as1 @ as2)"
proof -
  obtain s' where s': "erase a s = Some (hd (as2 @ [m]), s')" "next_node s' = next_node s"
      "holds s' m (as1 @ as2) (xs1 @ xs2)" "nodes s' a = None"
      "\<And>x. x \<notin> set (m # as1 @ a # as2) \<Longrightarrow> nodes s' x = nodes s x"
    by (rule erase_holds [OF assms]) (rule that)
  have "updates s s' m (as1 @ a # as2) (as1 @ as2)"
    using s'(2,4,5) by (auto simp: updates_def)
  with s'(1,3) show thesis by (rule that)
qed

lemma begin_holds:
  assumes "holds s m as xs"
  shows "begin_list m s = Some (hd (as @ [m]))"
  using holdsD(1) [OF assms] by (simp add: begin_list_def path_Cons)

lemma next_holds:
  assumes "holds s m (as1 @ a # as2) xs"
  shows "getNext s a = Some (hd (as2 @ [m]))"
proof -
  have "path s ((m # as1) @ a # as2 @ [m])" using holdsD(1) [OF assms] by simp
  then show ?thesis by (cases as2) (simp_all add: path_append [of s "m # as1", simplified])
qed

lemma ref_holds:
  assumes "holds s m (as1 @ a # as2) (xs1 @ v # xs2)" "length as1 = length xs1"
  shows "getRef s a = Some v"
  using holdsD(3) [OF assms(1)] assms(2) by simp

lemma push_front_holds:
  assumes "holds s m as xs"
  obtains s' as' where "push_front m v s = Some s'" "holds s' m as' (v # xs)" "updates s s' m as as'"
proof -
  obtain s' where "insert_at (hd (as @ [m])) v s = Some (next_node s, s')"
      "holds s' m ([] @ next_node s # as) ([] @ v # xs)" "updates s s' m ([] @ as) ([] @ next_node s # as)"
    by (rule insert_at_updates [of s m "[]" as "[]" xs _ v]) (use assms in auto)
  then show thesis using begin_holds [OF assms] by (intro that [of s' "next_node s # as"]) (simp_all add: push_front_def)
qed

lemma push_back_holds:
  assumes "holds s m as xs"
  obtains s' as' where "push_back m v s = Some s'" "holds s' m as' (xs @ [v])" "updates s s' m as as'"
proof -
  obtain s' where "insert_at m v s = Some (next_node s, s')"
      "holds s' m (as @ [next_node s]) (xs @ [v])" "updates s s' m (as @ []) (as @ [next_node s])"
    by (rule insert_at_updates [of s m as "[]" xs "[]" _ v]) (use assms holdsD(5) [OF assms] in auto)
  then show thesis by (intro that [of s' "as @ [next_node s]"]) (simp_all add: push_back_def end_list_def)
qed

lemma distance_holds:
  assumes "holds s m (as1 @ as2) xs"
  shows "distance_loop s (hd (as2 @ [m])) m n = Some (n + length as2)"
  using assms
proof (induction as2 arbitrary: as1 n)
  case Nil
  then show ?case by (simp add: distance_loop.simps)
next
  case (Cons a as2)
  have "a \<noteq> m" using holdsD(2) [OF Cons.prems] by auto
  moreover have "distance_loop s (hd (as2 @ [m])) m (n + 1) = Some (n + 1 + length as2)"
    by (rule Cons.IH [of "as1 @ [a]"]) (use Cons.prems in simp)
  ultimately show ?case
    using next_holds [OF Cons.prems] by (simp add: distance_loop.simps [of s a])
qed

lemma size_holds:
  assumes "holds s m as xs"
  shows "list_size m s = Some (length xs)"
  using distance_holds [of s m "[]" as xs 0] begin_holds [OF assms] holdsD(5) [OF assms] assms
  by (simp add: list_size_def distance_def end_list_def)

section \<open>Ranges\<close>

lemma insert_range_holds:
  assumes "holds s m as xs" "holds s r (bs1 @ bs2) (ys1 @ ys2)" "length bs1 = length ys1"
    and "set (m # as) \<inter> set (r # bs1 @ bs2) = {}" "wf_memory s"
  shows "\<exists>s' as'. insert_range m (hd (bs2 @ [r])) r s = Some s' \<and> holds s' m as' (xs @ ys2) \<and>
    updates s s' m as as'"
  using assms
proof (induction bs2 arbitrary: s as xs bs1 ys1 ys2)
  case Nil
  then have "ys2 = []" using holdsD(5) [OF Nil(2)] by simp
  with Nil show ?case by (auto simp: insert_range.simps intro!: exI [of _ as] updates_refl)
next
  case (Cons b bs2)
  obtain y ys where ys: "ys2 = y # ys" using holdsD(5) [OF Cons.prems(2)] Cons.prems(3) by (cases ys2) auto
  note h2 = Cons.prems(2) [unfolded ys]
  have bne: "b \<noteq> r" using holdsD(2) [OF h2] by auto
  have h1: "holds s m (as @ []) (xs @ [])" using Cons.prems(1) by simp
  obtain s1 where s1: "insert_at m y s = Some (next_node s, s1)"
      "holds s1 m (as @ [next_node s]) (xs @ [y])" "updates s s1 m (as @ []) (as @ [next_node s])"
    by (rule insert_at_updates [OF h1 holdsD(5) [OF Cons.prems(1)], of m y]) auto
  have u1: "updates s s1 m as (as @ [next_node s])" using s1(3) by simp
  note other = updates_other [OF u1 h2 Cons.prems(4) s1(2)]
  note wf1 = updates_wf [OF u1 Cons.prems(5,1) s1(2)]
  have "holds s1 r ((bs1 @ [b]) @ bs2) ((ys1 @ [y]) @ ys)" using other(1) by simp
  from Cons.IH [OF s1(2) this _ _ wf1] other(2) Cons.prems(3)
  obtain s' as' where s': "insert_range m (hd (bs2 @ [r])) r s1 = Some s'" "holds s' m as' ((xs @ [y]) @ ys)"
      "updates s1 s' m (as @ [next_node s]) as'" by auto
  have "insert_range m b r s = Some s'"
    using bne s1(1) s'(1) ref_holds [OF h2 Cons.prems(3)] next_holds [OF other(1)]
    by (subst insert_range.simps) simp
  moreover have "updates s s' m as as'"
    using updates_trans [OF u1 s'(3) Cons.prems(5)] holdsD(2) [OF Cons.prems(1)] by simp
  ultimately show ?case using s'(2) ys by auto
qed

lemma erase_range_holds:
  assumes "holds s m (as1 @ as2) (xs1 @ xs2)" "length as1 = length xs1" "wf_memory s"
  shows "\<exists>s'. erase_range (hd (as2 @ [m])) m s = Some s' \<and> holds s' m as1 xs1 \<and> updates s s' m (as1 @ as2) as1"
  using assms
proof (induction as2 arbitrary: s xs2)
  case Nil
  then have "xs2 = []" using holdsD(5) [OF Nil(1)] by simp
  with Nil show ?case by (simp add: erase_range.simps updates_refl)
next
  case (Cons a as2)
  obtain x xs where xs: "xs2 = x # xs" using holdsD(5) [OF Cons.prems(1)] Cons.prems(2) by (cases xs2) auto
  note h = Cons.prems(1) [unfolded xs]
  have ne: "a \<noteq> m" using holdsD(2) [OF h] by auto
  obtain s1 where s1: "erase a s = Some (hd (as2 @ [m]), s1)" "holds s1 m (as1 @ as2) (xs1 @ xs)"
      "updates s s1 m (as1 @ a # as2) (as1 @ as2)"
    by (rule erase_updates [OF h Cons.prems(2)]) (rule that)
  note wf1 = updates_wf [OF s1(3) Cons.prems(3) h s1(2)]
  from Cons.IH [OF s1(2) Cons.prems(2) wf1]
  obtain s' where s': "erase_range (hd (as2 @ [m])) m s1 = Some s'" "holds s' m as1 xs1"
      "updates s1 s' m (as1 @ as2) as1" by auto
  have "erase_range a m s = Some s'"
    using ne s1(1) s'(1) next_holds [OF h] by (subst erase_range.simps) simp
  moreover have "updates s s' m (as1 @ a # as2) as1"
    using updates_trans [OF s1(3) s'(3) Cons.prems(3)] holdsD(2) [OF h] by simp
  ultimately show ?case using s'(2) by simp
qed

lemma clear_from_run:
  assumes "path s (zs @ [m])" "distinct (zs @ [m])"
  shows "\<exists>s'. clear_from m (hd (zs @ [m])) s = Some s' \<and> next_node s' = next_node s \<and>
    (\<forall>x. nodes s' x = (if x \<in> set zs then None else nodes s x))"
  using assms
proof (induction zs arbitrary: s)
  case (Cons z zs)
  have nx: "getNext s z = Some (hd (zs @ [m]))" using Cons.prems(1) by (simp add: path_Cons)
  then obtain n where n: "nodes s z = Some n" by (auto simp: getNext_def)
  let ?s = "s\<lparr>nodes := (nodes s)(z := None)\<rparr>"
  have "path ?s (zs @ [m])"
  proof (rule path_frame)
    show "path s (zs @ [m])" using Cons.prems(1) by (simp add: path_Cons)
    have away: "x \<noteq> z" if "x \<in> set (zs @ [m])" for x using that Cons.prems(2) by auto
    show "getNext ?s x = getNext s x" if "x \<in> set (butlast (zs @ [m]))" for x
      using away [of x] that by (simp add: getNext_def)
    show "getPrev ?s x = getPrev s x" if "x \<in> set (tl (zs @ [m]))" for x
      using away [of x] list.set_sel(2) [OF _ that] by (simp add: getPrev_def)
  qed
  then obtain s' where "clear_from m (hd (zs @ [m])) ?s = Some s'" "next_node s' = next_node s"
      "\<forall>x. nodes s' x = (if x \<in> set zs then None else nodes ?s x)"
    using Cons.IH [of ?s] Cons.prems(2) by auto
  then show ?case using nx n Cons.prems(2)
    by (subst clear_from.simps) (auto simp: delete_node_def)
qed (simp add: clear_from.simps)

lemma clear_holds:
  assumes h: "holds s m as xs"
  obtains s' where "clear m s = Some s'" "holds s' m [] []" "updates s s' m as []" "next_node s' = next_node s"
proof -
  have p: "path s (as @ [m])" "getNext s m = Some (hd (as @ [m]))"
    using holdsD(1) [OF h] by (simp_all add: path_Cons)
  have d: "distinct (as @ [m])" using holdsD(2) [OF h] by simp
  obtain s1 where s1: "clear_from m (hd (as @ [m])) s = Some s1" "next_node s1 = next_node s"
      "\<And>x. nodes s1 x = (if x \<in> set as then None else nodes s x)"
    using clear_from_run [OF p(1) d] by blast
  obtain n where n: "nodes s m = Some n" using p(2) by (auto simp: getNext_def)
  let ?s = "s1\<lparr>nodes := (nodes s1)(m \<mapsto> n\<lparr>mpPrev := m, mpNext := m\<rparr>)\<rparr>"
  have "clear m s = Some ?s"
    using p(2) s1(1) n d by (simp add: clear_def setPrev_def setNext_def s1(3))
  moreover have "holds ?s m [] []"
    using holdsD(4) [OF h, of m] s1(2) by (simp add: holds_def getNext_def getPrev_def)
  moreover have "updates s ?s m as []"
    using d s1(2) by (auto simp: updates_def s1(3))
  ultimately show thesis using s1(2) by (intro that [of ?s]) simp_all
qed

lemma delete_List_holds:
  assumes h: "holds s m as xs"
  obtains s' where "delete_List m s = Some s'" "next_node s' = next_node s"
    "\<And>x. nodes s' x = (if x \<in> set (m # as) then None else nodes s x)"
proof -
  obtain s1 where s1: "clear m s = Some s1" "holds s1 m [] []" "updates s s1 m as []" "next_node s1 = next_node s"
    by (rule clear_holds [OF h]) (rule that)
  have "m \<in> dom (nodes s1)" using holds_dom [OF s1(2)] by simp
  then have run: "delete_List m s = Some (s1\<lparr>nodes := (nodes s1)(m := None)\<rparr>)"
    using s1(1) by (simp add: delete_List_def delete_node_def)
  show thesis
    by (rule that [OF run]) (use updatesD(2,3) [OF s1(3)] s1(4) in auto)
qed

lemma prep_holds:
  assumes "wf_memory s"
  obtains s' where "prep s = Some (next_node s, s')" "holds s' (next_node s) [] []" "wf_memory s'"
    "next_node s' = next_node s + 1" "\<And>x. x \<noteq> next_node s \<Longrightarrow> nodes s' x = nodes s x"
proof -
  let ?m = "next_node s"
  let ?s = "s\<lparr>nodes := (nodes s)(?m \<mapsto> \<lparr>mVal = None, mpPrev = ?m, mpNext = ?m\<rparr>), next_node := ?m + 1\<rparr>"
  have "prep s = Some (?m, ?s)" by (simp add: prep_def pointer_defs)
  moreover have "holds ?s ?m [] []" by (simp add: holds_def getNext_def getPrev_def)
  moreover have "wf_memory ?s" using assms by (auto simp: wf_memory_def less_Suc_eq)
  ultimately show thesis by (intro that [of ?s]) simp_all
qed

lemma setVal_holds:
  assumes h: "holds s m (as1 @ a # as2) (xs1 @ v # xs2)" and len: "length as1 = length xs1"
  obtains s' where "setVal a w s = Some s'" "holds s' m (as1 @ a # as2) (xs1 @ w # xs2)"
    "updates s s' m (as1 @ a # as2) (as1 @ a # as2)"
proof -
  obtain n where n: "nodes s a = Some n" using holds_dom [OF h, of a] by auto
  let ?s = "s\<lparr>nodes := (nodes s)(a \<mapsto> n\<lparr>mVal := Some w\<rparr>)\<rparr>"
  have same: "getNext ?s x = getNext s x" "getPrev ?s x = getPrev s x"
    "getRef ?s x = (if x = a then Some w else getRef s x)" for x
    using n by (simp_all add: getNext_def getPrev_def getRef_def)
  have "path ?s (m # (as1 @ a # as2) @ [m])"
    by (rule path_frame [OF holdsD(1) [OF h]]) (simp_all add: same)
  moreover have "map (getRef ?s) (as1 @ a # as2) = map Some (xs1 @ w # xs2)"
  proof -
    have "map (getRef ?s) as1 = map (getRef s) as1" "map (getRef ?s) as2 = map (getRef s) as2"
      using holdsD(2) [OF h] by (auto simp: same(3))
    moreover have "map (getRef s) as1 = map Some xs1" "map (getRef s) as2 = map Some xs2"
      using holdsD(3) [OF h] len by simp_all
    ultimately show ?thesis by (simp only: map_append list.map same(3) if_True refl)
  qed
  ultimately have "holds ?s m (as1 @ a # as2) (xs1 @ w # xs2)"
    using holdsD(2,4) [OF h] by (auto simp: holds_def)
  then show thesis
    using n by (intro that [of ?s]) (auto simp: setVal_def updates_def)
qed

lemma assign_loop_holds:
  assumes "holds s m (as1 @ as2) (xs1 @ xs2)" "length as1 = length xs1"
    and "holds s r (bs1 @ bs2) (ys1 @ ys2)" "length bs1 = length ys1"
    and "set (m # as1 @ as2) \<inter> set (r # bs1 @ bs2) = {}" "wf_memory s"
  shows "\<exists>s'. let k = min (length as2) (length bs2) in
    assign_loop (hd (as2 @ [m])) m (hd (bs2 @ [r])) r s = Some (hd (drop k as2 @ [m]), hd (drop k bs2 @ [r]), s') \<and>
    holds s' m (as1 @ as2) (xs1 @ take k ys2 @ drop k xs2) \<and> updates s s' m (as1 @ as2) (as1 @ as2)"
  using assms
proof (induction as2 arbitrary: s as1 xs1 xs2 bs1 bs2 ys1 ys2)
  case Nil
  then show ?case by (simp add: assign_loop.simps updates_refl)
next
  case (Cons a as2)
  show ?case
  proof (cases bs2)
    case Nil
    with Cons.prems(1) show ?thesis by (simp add: assign_loop.simps updates_refl)
  next
    case b: (Cons b bs)
    obtain x xs where xs: "xs2 = x # xs" using holdsD(5) [OF Cons.prems(1)] Cons.prems(2) by (cases xs2) auto
    obtain y ys where ys: "ys2 = y # ys" using holdsD(5) [OF Cons.prems(3)] Cons.prems(4) b by (cases ys2) auto
    note h1 = Cons.prems(1) [unfolded xs] and h2 = Cons.prems(3) [unfolded b ys] and dj = Cons.prems(5) [unfolded b]
    have ne: "a \<noteq> m" "b \<noteq> r" using holdsD(2) [OF h1] holdsD(2) [OF h2] by auto
    obtain s1 where s1: "setVal a y s = Some s1" "holds s1 m (as1 @ a # as2) (xs1 @ y # xs)"
        "updates s s1 m (as1 @ a # as2) (as1 @ a # as2)"
      by (rule setVal_holds [OF h1 Cons.prems(2), of y]) (rule that)
    note other = updates_other(1) [OF s1(3) h2 dj s1(2)]
    note wf1 = updates_wf [OF s1(3) Cons.prems(6) h1 s1(2)]
    have "holds s1 m ((as1 @ [a]) @ as2) ((xs1 @ [y]) @ xs)" using s1(2) by simp
    moreover have "holds s1 r ((bs1 @ [b]) @ bs) ((ys1 @ [y]) @ ys)" using other by simp
    ultimately obtain s' where s': "let k = min (length as2) (length bs) in
        assign_loop (hd (as2 @ [m])) m (hd (bs @ [r])) r s1 = Some (hd (drop k as2 @ [m]), hd (drop k bs @ [r]), s') \<and>
        holds s' m ((as1 @ [a]) @ as2) ((xs1 @ [y]) @ take k ys @ drop k xs) \<and>
        updates s1 s' m ((as1 @ [a]) @ as2) ((as1 @ [a]) @ as2)"
      using Cons.IH [of s1 "as1 @ [a]" "xs1 @ [y]" xs "bs1 @ [b]" bs "ys1 @ [y]" ys] wf1 dj Cons.prems(2,4)
      by auto
    have "assign_loop a m b r s = assign_loop (hd (as2 @ [m])) m (hd (bs @ [r])) r s1"
      using ne s1(1) ref_holds [OF h2 Cons.prems(4)] next_holds [OF s1(2)] next_holds [OF other]
      by (subst assign_loop.simps) simp
    moreover have "updates s s' m (as1 @ a # as2) (as1 @ a # as2)"
      using updates_trans [OF s1(3) _ Cons.prems(6)] s' holdsD(2) [OF h1] by (simp add: Let_def)
    ultimately show ?thesis
      using s' by (intro exI [of _ s']) (simp add: Let_def b xs ys)
  qed
qed

lemma assign_holds:
  assumes h1: "holds s m as xs" and h2: "holds s r bs ys" and dj: "set (m # as) \<inter> set (r # bs) = {}" and wf: "wf_memory s"
  obtains s' as' where "assign m r s = Some s'" "holds s' m as' ys" "updates s s' m as as'"
proof -
  let ?k = "min (length as) (length bs)"
  have ne: "m \<noteq> r" using dj by auto
  have h: "holds s m ([] @ as) ([] @ xs)" "holds s r ([] @ bs) ([] @ ys)" using h1 h2 by simp_all
  obtain s1 where s1: "assign_loop (hd (as @ [m])) m (hd (bs @ [r])) r s = Some (hd (drop ?k as @ [m]), hd (drop ?k bs @ [r]), s1)"
      "holds s1 m as (take ?k ys @ drop ?k xs)" "updates s s1 m as as"
    using assign_loop_holds [OF h(1) _ h(2) _ _ wf] dj by (auto simp: Let_def)
  note other = updates_other [OF s1(3) h2 dj s1(2)]
  note wf1 = updates_wf [OF s1(3) wf h1 s1(2)]
  have m: "m \<notin> set as" using holdsD(2) [OF h1] by simp
  note len = holdsD(5) [OF h1] holdsD(5) [OF h2]
  have start: "assign m r s = (if hd (drop ?k bs @ [r]) = r then erase_range (hd (drop ?k as @ [m])) m s1
      else insert_range m (hd (drop ?k bs @ [r])) r s1)"
    using ne s1(1) begin_holds [OF h1] begin_holds [OF h2] by (simp add: assign_def end_list_def)
  show thesis
  proof (cases "length bs \<le> length as")
    case True
    then have k: "?k = length bs" by simp
    have "holds s1 m (take ?k as @ drop ?k as) (take ?k ys @ drop ?k xs)" using s1(2) by simp
    then obtain s' where s': "erase_range (hd (drop ?k as @ [m])) m s1 = Some s'" "holds s' m (take ?k as) (take ?k ys)"
        "updates s1 s' m as (take ?k as)"
      using erase_range_holds [of s1 m "take ?k as" "drop ?k as" "take ?k ys" "drop ?k xs"] wf1 len k by auto
    show thesis
      using start s' k len updates_trans [OF s1(3) s'(3) wf m] by (intro that [of s' "take ?k as"]) simp_all
  next
    case False
    then have k: "?k = length as" by simp
    then have k2: "drop ?k bs \<noteq> []" using False by (simp only: k) simp
    have "hd (drop ?k bs @ [r]) = hd (drop ?k bs)" using k2 by (rule hd_append2)
    then have "hd (drop ?k bs @ [r]) \<in> set bs" using in_set_dropD [OF hd_in_set [OF k2]] by simp
    then have c: "hd (drop ?k bs @ [r]) \<noteq> r" using holdsD(2) [OF h2] by auto
    have a: "holds s1 m as (take ?k ys)" using s1(2) k len by simp
    have b: "holds s1 r (take ?k bs @ drop ?k bs) (take ?k ys @ drop ?k ys)" using other(1) by simp
    have d: "set (m # as) \<inter> set (r # take ?k bs @ drop ?k bs) = {}" using dj by simp
    have l: "length (take ?k bs) = length (take ?k ys)" using len by simp
    obtain s' as' where s': "insert_range m (hd (drop ?k bs @ [r])) r s1 = Some s'"
        "holds s' m as' (take ?k ys @ drop ?k ys)" "updates s1 s' m as as'"
      using insert_range_holds [OF a b l d wf1] by blast
    show thesis
      using start c s' updates_trans [OF s1(3) s'(3) wf m] by (intro that [of s' as']) simp_all
  qed
qed

lemma copy_List_holds:
  assumes h: "holds s r bs ys" and wf: "wf_memory s"
  obtains s' as' where "copy_List r s = Some (next_node s, s')" "holds s' (next_node s) as' ys"
    "holds s' r bs ys" "set (next_node s # as') \<inter> set (r # bs) = {}" "wf_memory s'"
proof -
  let ?m = "next_node s"
  obtain s1 where s1: "prep s = Some (?m, s1)" "holds s1 ?m [] []" "wf_memory s1"
      "next_node s1 = ?m + 1" "\<And>x. x \<noteq> ?m \<Longrightarrow> nodes s1 x = nodes s x"
    by (rule prep_holds [OF wf]) (rule that)
  have new: "?m \<notin> set (r # bs)" using holdsD(4) [OF h] by blast
  have h1: "holds s1 r ([] @ bs) ([] @ ys)"
    using s1(4) new by (simp, intro holds_frame [OF h]) (auto intro!: s1(5))
  obtain s' as' where s': "insert_range ?m (hd (bs @ [r])) r s1 = Some s'" "holds s' ?m as' ys" "updates s1 s' ?m [] as'"
    using insert_range_holds [OF s1(2) h1 _ _ s1(3)] new by auto
  have h2: "holds s1 r bs ys" using h1 by simp
  note other = updates_other [OF s'(3) h2 _ s'(2)]
  have "copy_List r s = Some (?m, s')"
    using s1(1) s'(1) begin_holds [OF s1(2)] begin_holds [OF h2] by (simp add: copy_List_def end_list_def)
  with other new s'(2) updates_wf [OF s'(3) s1(3,2) s'(2)] show thesis
    by (intro that [of s' as']) auto
qed

section \<open>Two lists in use\<close>

text \<open>
  What a client does with two lists, named by a truth value: an iterator is moved to a position from
  the beginning.  The specification is on lists of values.
\<close>

datatype 'a list_op = PushFront bool 'a | PushBack bool 'a | InsertAt bool nat 'a | EraseAt bool nat
  | Clear bool | Assign bool

primrec advance :: "nat \<Rightarrow> 'a node_memory \<Rightarrow> nat \<Rightarrow> nat option" where
  "advance 0 s p = Some p"
| "advance (Suc i) s p = Option.bind (getNext s p) (advance i s)"

definition at_position :: "nat \<Rightarrow> nat \<Rightarrow> 'a node_memory \<Rightarrow> nat option" where
  "at_position m i s = Option.bind (begin_list m s) (advance i s)"

fun list_do :: "(bool \<Rightarrow> nat) \<Rightarrow> 'a list_op \<Rightarrow> 'a node_memory \<Rightarrow> 'a node_memory option" where
  "list_do M (PushFront b v) s = push_front (M b) v s"
| "list_do M (PushBack b v) s = push_back (M b) v s"
| "list_do M (InsertAt b i v) s = do {
     n \<leftarrow> list_size (M b) s;
     if i \<le> n then do {
       p \<leftarrow> at_position (M b) i s;
       (_, s) \<leftarrow> insert_at p v s;
       Some s }
     else Some s }"
| "list_do M (EraseAt b i) s = do {
     n \<leftarrow> list_size (M b) s;
     if i < n then do {
       p \<leftarrow> at_position (M b) i s;
       (_, s) \<leftarrow> erase p s;
       Some s }
     else Some s }"
| "list_do M (Clear b) s = clear (M b) s"
| "list_do M (Assign b) s = assign (M b) (M (\<not> b)) s"

fun list_spec :: "'a list_op \<Rightarrow> (bool \<Rightarrow> 'a list) \<Rightarrow> (bool \<Rightarrow> 'a list)" where
  "list_spec (PushFront b v) F = F(b := v # F b)"
| "list_spec (PushBack b v) F = F(b := F b @ [v])"
| "list_spec (InsertAt b i v) F = (if i \<le> length (F b) then F(b := take i (F b) @ v # drop i (F b)) else F)"
| "list_spec (EraseAt b i) F = (if i < length (F b) then F(b := take i (F b) @ drop (Suc i) (F b)) else F)"
| "list_spec (Clear b) F = F(b := [])"
| "list_spec (Assign b) F = F(b := F (\<not> b))"

text \<open>The memory holds the two lists and nothing else.\<close>

definition two_lists :: "(bool \<Rightarrow> nat) \<Rightarrow> 'a node_memory \<Rightarrow> (bool \<Rightarrow> 'a list) \<Rightarrow> bool" where
  "two_lists M s F \<longleftrightarrow> (\<exists>A. (\<forall>b. holds s (M b) (A b) (F b)) \<and> (\<forall>b. set (M b # A b) \<inter> set (M (\<not> b) # A (\<not> b)) = {}) \<and>
     wf_memory s \<and> dom (nodes s) = (\<Union>b. set (M b # A b)))"

lemma advance_holds:
  assumes "holds s m as xs" "i \<le> length as"
  shows "at_position m i s = Some (hd (drop i as @ [m]))"
proof -
  have "advance i s (hd (as2 @ [m])) = Some (hd (drop i as2 @ [m]))"
    if "holds s m (as1 @ as2) xs" "i \<le> length as2" for as1 as2
    using that
  proof (induction i arbitrary: as1 as2)
    case (Suc i)
    then obtain a as where as: "as2 = a # as" by (cases as2) auto
    have "holds s m ((as1 @ [a]) @ as) xs" using Suc.prems(1) as by simp
    with Suc.IH [OF this] Suc.prems(2) next_holds [OF Suc.prems(1) [unfolded as]] show ?case by (simp add: as)
  qed simp
  from this [of "[]" as] assms begin_holds [OF assms(1)] show ?thesis by (simp add: at_position_def)
qed

lemma two_lists_step:
  assumes A: "\<And>b. holds s (M b) (A b) (F b)" "\<And>b. set (M b # A b) \<inter> set (M (\<not> b) # A (\<not> b)) = {}"
      "wf_memory s" "dom (nodes s) = (\<Union>b. set (M b # A b))"
    and s': "holds s' (M b) as' xs'" "updates s s' (M b) (A b) as'"
  shows "two_lists M s' (F(b := xs'))"
proof -
  let ?A = "A(b := as')"
  note other = updates_other [OF s'(2) A(1) A(2) s'(1)]
  have h: "holds s' (M c) (?A c) ((F(b := xs')) c)" for c
    using s'(1) other(1) by (cases "c = b") auto
  have dj: "set (M c # ?A c) \<inter> set (M (\<not> c) # ?A (\<not> c)) = {}" for c
    using other(2) by (cases "c = b") auto
  have "dom (nodes s') = (\<Union>c. set (M c # ?A c))"
  proof (intro equalityI subsetI)
    fix x assume "x \<in> (\<Union>c. set (M c # ?A c))"
    then show "x \<in> dom (nodes s')" using holds_dom [OF h] by blast
  next
    fix x assume x: "x \<in> dom (nodes s')"
    show "x \<in> (\<Union>c. set (M c # ?A c))"
    proof (rule ccontr)
      assume none: "x \<notin> (\<Union>c. set (M c # ?A c))"
      then have n: "x \<notin> set (M b # as')" "x \<notin> set (M (\<not> b) # A (\<not> b))" by (auto simp: UNIV_bool split: if_splits)
      show False
      proof (cases "x \<in> set (A b)")
        case True
        then show False using updatesD(3) [OF s'(2) True] n(1) x by auto
      next
        case False
        then have "nodes s' x = nodes s x" using updatesD(2) [OF s'(2), of x] n(1) by simp
        moreover have "x \<notin> dom (nodes s)"
        proof -
          have "x \<notin> set (M c # A c)" for c using n False by (cases "c = b") auto
          then show ?thesis unfolding A(4) by blast
        qed
        ultimately show False using x by (simp add: domIff)
      qed
    qed
  qed
  with h dj updates_wf [OF s'(2) A(3) A(1) s'(1)] show ?thesis
    unfolding two_lists_def by (intro exI [of _ ?A]) blast
qed

lemma list_do_spec:
  assumes "two_lists M s F"
  shows "\<exists>s'. list_do M op s = Some s' \<and> two_lists M s' (list_spec op F)"
proof -
  obtain A where A: "\<And>b. holds s (M b) (A b) (F b)" "\<And>b. set (M b # A b) \<inter> set (M (\<not> b) # A (\<not> b)) = {}"
      "wf_memory s" "dom (nodes s) = (\<Union>b. set (M b # A b))"
    using assms unfolding two_lists_def by blast
  note step = two_lists_step [where M = M and A = A, OF A]
  note len = holdsD(5) [OF A(1)] and sz = size_holds [OF A(1)]
  show ?thesis
  proof (cases op)
    case (PushFront b v)
    obtain s' as' where "push_front (M b) v s = Some s'" "holds s' (M b) as' (v # F b)" "updates s s' (M b) (A b) as'"
      by (rule push_front_holds [OF A(1), of b v]) (rule that)
    with step PushFront show ?thesis by auto
  next
    case (PushBack b v)
    obtain s' as' where "push_back (M b) v s = Some s'" "holds s' (M b) as' (F b @ [v])" "updates s s' (M b) (A b) as'"
      by (rule push_back_holds [OF A(1), of b v]) (rule that)
    with step PushBack show ?thesis by auto
  next
    case (InsertAt b i v)
    show ?thesis
    proof (cases "i \<le> length (F b)")
      case True
      have h: "holds s (M b) (take i (A b) @ drop i (A b)) (take i (F b) @ drop i (F b))" using A(1) by simp
      obtain s' where s': "insert_at (hd (drop i (A b) @ [M b])) v s = Some (next_node s, s')"
          "holds s' (M b) (take i (A b) @ next_node s # drop i (A b)) (take i (F b) @ v # drop i (F b))"
          "updates s s' (M b) (take i (A b) @ drop i (A b)) (take i (A b) @ next_node s # drop i (A b))"
        by (rule insert_at_updates [OF h _ refl, of v]) (use len in \<open>auto intro: that\<close>)
      have "list_do M op s = Some s'"
        using True s'(1) sz len advance_holds [OF A(1), of i b] by (simp add: InsertAt)
      with step [OF s'(2)] s'(3) True show ?thesis by (simp add: InsertAt)
    qed (use assms sz in \<open>simp add: InsertAt\<close>)
  next
    case (EraseAt b i)
    show ?thesis
    proof (cases "i < length (F b)")
      case True
      then have la: "i < length (A b)" using len by simp
      have h: "holds s (M b) (take i (A b) @ A b ! i # drop (Suc i) (A b)) (take i (F b) @ F b ! i # drop (Suc i) (F b))"
        using A(1) [of b] True la by (simp add: id_take_nth_drop [symmetric])
      obtain s' where s': "erase (A b ! i) s = Some (hd (drop (Suc i) (A b) @ [M b]), s')"
          "holds s' (M b) (take i (A b) @ drop (Suc i) (A b)) (take i (F b) @ drop (Suc i) (F b))"
          "updates s s' (M b) (take i (A b) @ A b ! i # drop (Suc i) (A b)) (take i (A b) @ drop (Suc i) (A b))"
        by (rule erase_updates [OF h]) (use len in \<open>auto intro: that\<close>)
      have "at_position (M b) i s = Some (A b ! i)"
        using advance_holds [OF A(1), of i b] la by (simp add: hd_append hd_drop_conv_nth)
      then have "list_do M op s = Some s'"
        using True s'(1) sz by (simp add: EraseAt)
      moreover have "updates s s' (M b) (A b) (take i (A b) @ drop (Suc i) (A b))"
        using s'(3) la by (simp add: id_take_nth_drop [symmetric])
      ultimately show ?thesis using step [OF s'(2)] True by (simp add: EraseAt)
    qed (use assms sz in \<open>simp add: EraseAt\<close>)
  next
    case (Clear b)
    obtain s' where "clear (M b) s = Some s'" "holds s' (M b) [] []" "updates s s' (M b) (A b) []"
      by (rule clear_holds [OF A(1), of b]) (rule that)
    with step Clear show ?thesis by auto
  next
    case (Assign b)
    obtain s' as' where "assign (M b) (M (\<not> b)) s = Some s'" "holds s' (M b) as' (F (\<not> b))" "updates s s' (M b) (A b) as'"
      by (rule assign_holds [OF A(1) A(1) A(2,3), of b]) (rule that)
    with step Assign show ?thesis by auto
  qed
qed

lemma list_run_spec:
  assumes "two_lists M s F"
  shows "\<exists>s'. run_events (list_do M) ops s = Some s' \<and> two_lists M s' (fold list_spec ops F)"
  using assms
proof (induction ops arbitrary: s F)
  case (Cons op ops)
  obtain s1 where s1: "list_do M op s = Some s1" "two_lists M s1 (list_spec op F)"
    using list_do_spec [OF Cons.prems] by blast
  from Cons.IH [OF s1(2)] s1(1) show ?case by simp
qed simp

text \<open>What a client sees that walks through a list.\<close>

partial_function (option) values_from :: "nat \<Rightarrow> nat \<Rightarrow> 'a node_memory \<Rightarrow> 'a list option" where
  "values_from first stop s = (if first \<noteq> stop then do {
       v \<leftarrow> getRef s first;
       p \<leftarrow> getNext s first;
       vs \<leftarrow> values_from p stop s;
       Some (v # vs) }
     else Some [])"

definition list_values :: "nat \<Rightarrow> 'a node_memory \<Rightarrow> 'a list option" where
  "list_values m s = Option.bind (begin_list m s) (\<lambda>p. values_from p (end_list m) s)"

lemma values_holds:
  assumes "holds s m as xs"
  shows "list_values m s = Some xs"
proof -
  have "values_from (hd (as2 @ [m])) m s = Some xs2"
    if "holds s m (as1 @ as2) (xs1 @ xs2)" "length as1 = length xs1" for as1 as2 xs1 xs2
    using that
  proof (induction as2 arbitrary: as1 xs1 xs2)
    case Nil
    then show ?case using holdsD(5) [OF Nil(1)] by (simp add: values_from.simps)
  next
    case (Cons a as2)
    obtain x xs where x: "xs2 = x # xs" using holdsD(5) [OF Cons.prems(1)] Cons.prems(2) by (cases xs2) auto
    note h = Cons.prems(1) [unfolded x]
    have "a \<noteq> m" using holdsD(2) [OF h] by auto
    moreover have "holds s m ((as1 @ [a]) @ as2) ((xs1 @ [x]) @ xs)" using h by simp
    ultimately show ?case
      using Cons.IH [of "as1 @ [a]" "xs1 @ [x]" xs] Cons.prems(2) ref_holds [OF h Cons.prems(2)] next_holds [OF h]
      by (simp add: values_from.simps [of a] x)
  qed
  from this [of "[]" as "[]" xs] assms begin_holds [OF assms] show ?thesis
    by (simp add: list_values_def end_list_def)
qed

definition make_two :: "((bool \<Rightarrow> nat) \<times> 'a node_memory) option" where
  "make_two = do {
     (m1, s) \<leftarrow> prep no_nodes;
     (m2, s) \<leftarrow> prep s;
     Some (\<lambda>b. if b then m1 else m2, s) }"

lemma make_two_lists: "\<exists>M s. make_two = Some (M, s) \<and> two_lists M (s :: 'a node_memory) (\<lambda>_. [])"
proof -
  have wf0: "wf_memory (no_nodes :: 'a node_memory)" by (simp add: wf_memory_def no_nodes_def)
  obtain s1 :: "'a node_memory" where s1: "prep no_nodes = Some (1, s1)" "holds s1 1 [] []" "wf_memory s1"
      "next_node s1 = 2" "\<And>x. x \<noteq> 1 \<Longrightarrow> nodes s1 x = None"
    by (rule prep_holds [OF wf0]) (auto simp: no_nodes_def intro: that)
  obtain s2 where s2: "prep s1 = Some (2, s2)" "holds s2 2 [] []" "wf_memory s2"
      "next_node s2 = 3" "\<And>x. x \<noteq> 2 \<Longrightarrow> nodes s2 x = nodes s1 x"
    by (rule prep_holds [OF s1(3)]) (auto simp: s1(4) intro: that)
  have h: "holds s2 1 [] []" by (rule holds_frame [OF s1(2)]) (simp_all add: s2(5) s1(4) s2(4))
  have "dom (nodes s2) = {1, 2}"
    using holds_dom [OF h, of 1] holds_dom [OF s2(2), of 2] s1(5) s2(5) by (auto simp: domIff) (metis option.distinct(1))
  then have "two_lists (\<lambda>b. if b then 1 else 2) s2 (\<lambda>_. [])"
    unfolding two_lists_def using h s2(2,3) by (intro exI [of _ "\<lambda>_. []"]) (auto simp: UNIV_bool)
  then show ?thesis using s1(1) s2(1)
    by (intro exI [of _ "\<lambda>b. if b then 1 else 2"] exI [of _ s2]) (auto simp: make_two_def)
qed

text \<open>The neighbours of a node in a ring, and its value.\<close>

lemma path_linked:
  "path s (zs @ [z]) \<Longrightarrow> x \<in> set zs \<Longrightarrow> Option.bind (getNext s x) (getPrev s) = Some x"
  "path s (z # zs) \<Longrightarrow> x \<in> set zs \<Longrightarrow> Option.bind (getPrev s x) (getNext s) = Some x"
proof -
  show "path s (zs @ [z]) \<Longrightarrow> x \<in> set zs \<Longrightarrow> Option.bind (getNext s x) (getPrev s) = Some x"
    by (induction zs) (auto simp: path_Cons)
  show "path s (z # zs) \<Longrightarrow> x \<in> set zs \<Longrightarrow> Option.bind (getPrev s x) (getNext s) = Some x"
    by (induction zs arbitrary: z) auto
qed

lemma ring_linked:
  assumes "holds s m as xs" "x \<in> set (m # as)"
  shows "Option.bind (getNext s x) (getPrev s) = Some x \<and> Option.bind (getPrev s x) (getNext s) = Some x"
  using path_linked(1) [of s "m # as" m x] path_linked(2) [of s m "as @ [m]" x] holdsD(1) [OF assms(1)] assms(2) by auto

lemma ring_values:
  assumes "holds s m as xs" "x \<in> set as"
  shows "getRef s x \<noteq> None"
proof -
  have "getRef s x \<in> set (map (getRef s) as)" using assms(2) by simp
  then show ?thesis unfolding holdsD(3) [OF assms(1)] by auto
qed

section \<open>Properties\<close>

text \<open>
  C12. The list class refines lists: two lists are made and any operations are done on them, insertion and
  removal at any position and assignment between them included.  No operation follows a pointer to a
  node that is not there, the iterators see the values of the specification, \<^verbatim>\<open>size\<close> counts them, and
  every node that left a list was freed: the memory holds one node per value and one per list.
\<close>

theorem list_class_refines:
  "\<exists>M s s'. make_two = Some (M, s) \<and> run_events (list_do M) ops s = Some s' \<and>
    (let F = fold list_spec ops (\<lambda>_. []) in
     list_values (M True) s' = Some (F True) \<and> list_values (M False) s' = Some (F False) \<and>
     list_size (M True) s' = Some (length (F True)) \<and> list_size (M False) s' = Some (length (F False)) \<and>
     card (dom (nodes s')) = 2 + length (F True) + length (F False))"
proof -
  let ?F = "fold list_spec ops (\<lambda>_. [])"
  obtain M and s :: "'a node_memory" where m: "make_two = Some (M, s)" "two_lists M s (\<lambda>_. [])"
    using make_two_lists by blast
  obtain s' where s': "run_events (list_do M) ops s = Some s'" "two_lists M s' ?F"
    using list_run_spec [OF m(2)] by blast
  then obtain A where A: "\<And>b. holds s' (M b) (A b) (?F b)" "\<And>b. set (M b # A b) \<inter> set (M (\<not> b) # A (\<not> b)) = {}"
      "dom (nodes s') = (\<Union>b. set (M b # A b))"
    unfolding two_lists_def by blast
  have c: "card (set (M b # A b)) = 1 + length (?F b)" for b
    using distinct_card [OF holdsD(2) [OF A(1)]] holdsD(5) [OF A(1)] by simp
  have "dom (nodes s') = set (M True # A True) \<union> set (M False # A False)" unfolding A(3) by (auto simp: UNIV_bool)
  then have "card (dom (nodes s')) = card (set (M True # A True)) + card (set (M False # A False))"
    using A(2) [of True] card_Un_disjoint [of "set (M True # A True)" "set (M False # A False)"] by simp
  then have "card (dom (nodes s')) = 2 + length (?F True) + length (?F False)" unfolding c by simp
  then show ?thesis
    using m(1) s'(1) values_holds [OF A(1)] size_holds [OF A(1)]
    by (intro exI [of _ M] exI [of _ s] exI [of _ s']) (simp add: Let_def)
qed

text \<open>
  C17. The pointers stay well formed: after any operations every allocated node is linked into a ring, its
  next node is allocated and leads back to it, and so does the one before it, and every node but the two
  middle ones holds a value.
\<close>

theorem list_links_typed:
  "\<exists>M s s'. make_two = Some (M, s) \<and> run_events (list_do M) ops s = Some s' \<and>
    (\<forall>x \<in> dom (nodes s'). Option.bind (getNext s' x) (getPrev s') = Some x \<and>
       Option.bind (getPrev s' x) (getNext s') = Some x \<and> (x \<noteq> M True \<and> x \<noteq> M False \<longrightarrow> getRef s' x \<noteq> None))"
proof -
  obtain M and s :: "'a node_memory" where m: "make_two = Some (M, s)" "two_lists M s (\<lambda>_. [])"
    using make_two_lists by blast
  obtain s' where s': "run_events (list_do M) ops s = Some s'" "two_lists M s' (fold list_spec ops (\<lambda>_. []))"
    using list_run_spec [OF m(2)] by blast
  then obtain A where A: "\<And>b. holds s' (M b) (A b) (fold list_spec ops (\<lambda>_. []) b)" "dom (nodes s') = (\<Union>b. set (M b # A b))"
    unfolding two_lists_def by blast
  have "Option.bind (getNext s' x) (getPrev s') = Some x \<and> Option.bind (getPrev s' x) (getNext s') = Some x \<and>
      (x \<noteq> M True \<and> x \<noteq> M False \<longrightarrow> getRef s' x \<noteq> None)" if x: "x \<in> dom (nodes s')" for x
  proof -
    obtain b where b: "x \<in> set (M b # A b)" using x A(2) by auto
    have "x \<noteq> M True \<and> x \<noteq> M False \<longrightarrow> x \<in> set (A b)" using b by (cases b) auto
    with ring_linked [OF A(1) b] ring_values [OF A(1)] show ?thesis by blast
  qed
  then show ?thesis using m(1) s'(1) by blast
qed

theorem list_links_typed_witness:
  "\<exists>M s s'. make_two = Some (M, s) \<and> run_events (list_do M) [PushBack True (5 :: nat), Assign False, EraseAt True 0] s = Some s' \<and>
    (\<forall>x \<in> dom (nodes s'). Option.bind (getNext s' x) (getPrev s') = Some x \<and>
       Option.bind (getPrev s' x) (getNext s') = Some x \<and> (x \<noteq> M True \<and> x \<noteq> M False \<longrightarrow> getRef s' x \<noteq> None))"
  by (rule list_links_typed)

text \<open>
  Copying and deleting: a copy has the values of the original, which stays as it is, and deleting the copy
  frees its nodes and no others.
\<close>

lemma list_copy_delete:
  assumes "holds s r bs ys" "wf_memory s"
  shows "\<exists>m s1 s2. copy_List r s = Some (m, s1) \<and> list_values m s1 = Some ys \<and> list_values r s1 = Some ys \<and>
    delete_List m s1 = Some s2 \<and> list_values r s2 = Some ys \<and> nodes s2 m = None"
proof -
  obtain s1 as where c: "copy_List r s = Some (next_node s, s1)" "holds s1 (next_node s) as ys"
      "holds s1 r bs ys" "set (next_node s # as) \<inter> set (r # bs) = {}" "wf_memory s1"
    by (rule copy_List_holds [OF assms]) (rule that)
  obtain s2 where d: "delete_List (next_node s) s1 = Some s2" "next_node s2 = next_node s1"
      "\<And>x. nodes s2 x = (if x \<in> set (next_node s # as) then None else nodes s1 x)"
    by (rule delete_List_holds [OF c(2)]) (rule that)
  have "holds s2 r bs ys"
    using c(4) d(2) by (intro holds_frame [OF c(3)]) (auto simp: d(3))
  then show ?thesis
    using c(1) d values_holds [OF c(2)] values_holds [OF c(3)] values_holds [of s2 r] by auto
qed

end
