(* ===== verification/Message_Queue.thy ===== *)
theory Message_Queue
  imports Linked_List
begin

text \<open>
  The message queue of the camera library, \<^verbatim>\<open>src/hal/include/MessageQueue.h\<close>, on the linked list: a
  message is pushed to the front and taken from the end.  The parts of a function that run under the
  mutex of the queue are one step; a wait for a message or for a reply is a value of the result.  The
  nodes of every queue are kept in a memory of their own.  An identifier is an \<open>int\<close>, with -1 for the
  default argument \<^verbatim>\<open>(MessageId) -1\<close>.
\<close>

section \<open>State\<close>

definition ERROR_NONE :: int where "ERROR_NONE = 0"
definition BAD_VALUE :: int where "BAD_VALUE = - 22"
definition INVALID_OPERATION :: int where "INVALID_OPERATION = - 38"
definition WOULD_BLOCK :: int where "WOULD_BLOCK = - 11"
definition UNKNOWN_ERROR :: int where "UNKNOWN_ERROR = - (2 ^ 31)"

lemmas status_codes = ERROR_NONE_def BAD_VALUE_def INVALID_OPERATION_def WOULD_BLOCK_def UNKNOWN_ERROR_def

text \<open>The list, its nodes, and the array of reply statuses; a status that was never set is \<open>None\<close>.\<close>

record 'm message_queue =
  mList :: nat
  list_nodes :: "'m node_memory"
  mNumReply :: int
  mReplyStatus :: "int option list"

definition MessageQueue :: "int \<Rightarrow> 'm message_queue option" where
  "MessageQueue numReply = do {
     (m, mem) \<leftarrow> prep no_nodes;
     Some \<lparr>mList = m, list_nodes = mem, mNumReply = numReply,
       mReplyStatus = (if 0 < numReply then replicate (nat numReply) None else [])\<rparr> }"

text \<open>The destructor leaves the nodes that are still allocated.\<close>

definition delete_MessageQueue :: "'m message_queue \<Rightarrow> 'm node_memory option" where
  "delete_MessageQueue q = delete_List (mList q) (list_nodes q)"

section \<open>Operations\<close>

text \<open>\<^verbatim>\<open>mList.size()\<close> returned as an \<^verbatim>\<open>int\<close>.\<close>

definition sizeLocked :: "'m message_queue \<Rightarrow> s32 option" where
  "sizeLocked q = map_option of_nat (list_size (mList q) (list_nodes q))"

definition isEmptyLocked :: "'m message_queue \<Rightarrow> bool option" where
  "isEmptyLocked q = map_option (\<lambda>n. n = 0) (sizeLocked q)"

definition set_status :: "int \<Rightarrow> int \<Rightarrow> 'm message_queue \<Rightarrow> 'm message_queue option" where
  "set_status i st q = (if 0 \<le> i \<and> nat i < length (mReplyStatus q)
     then Some (q\<lparr>mReplyStatus := (mReplyStatus q)[nat i := Some st]\<rparr>) else None)"

text \<open>
  The status \<^verbatim>\<open>send\<close> returns at once, or \<open>None\<close> when it goes on to wait for the reply.  The type of \<open>replyId\<close> is an
  enum whose enumerators are not negative: what its default \<^verbatim>\<open>(MessageId) -1\<close> is, and whether it counts as
  \<^verbatim>\<open>>= 0\<close>, is not fixed by the language.  The model reads it as the number -1, as the comment in the code does.
\<close>

definition send :: "'m \<Rightarrow> int \<Rightarrow> 'm message_queue \<Rightarrow> (int option \<times> 'm message_queue) option" where
  "send msg replyId q =
     (if replyId \<noteq> -1 \<and> mNumReply q = 0 then Some (Some BAD_VALUE, q)
      else do {
        mem \<leftarrow> push_front (mList q) msg (list_nodes q);
        let q = q\<lparr>list_nodes := mem\<rparr>;
        q \<leftarrow> (if replyId \<noteq> -1 then set_status replyId WOULD_BLOCK q else Some q);
        Some (if 0 \<le> replyId then None else Some ERROR_NONE, q) })"

text \<open>One look at the reply: \<open>Some None\<close> is a caller that stays blocked.\<close>

definition await :: "int \<Rightarrow> 'm message_queue \<Rightarrow> int option option" where
  "await replyId q = (if 0 \<le> replyId \<and> nat replyId < length (mReplyStatus q) then
     (case mReplyStatus q ! nat replyId of
        None \<Rightarrow> None
      | Some st \<Rightarrow> Some (if st = WOULD_BLOCK then None else Some st)) else None)"

definition reply :: "int \<Rightarrow> int \<Rightarrow> 'm message_queue \<Rightarrow> 'm message_queue option" where
  "reply = set_status"

text \<open>The message, or \<open>None\<close> when the caller waits because there is none.\<close>

definition receive :: "'m message_queue \<Rightarrow> ('m option \<times> 'm message_queue) option" where
  "receive q = do {
     none \<leftarrow> isEmptyLocked q;
     if none then Some (None, q)
     else do {
       p \<leftarrow> getPrev (list_nodes q) (end_list (mList q));
       msg \<leftarrow> getRef (list_nodes q) p;
       p \<leftarrow> getPrev (list_nodes q) (end_list (mList q));
       (_, mem) \<leftarrow> erase p (list_nodes q);
       Some (Some msg, q\<lparr>list_nodes := mem\<rparr>) } }"

text \<open>The loop of \<^verbatim>\<open>remove\<close>; the vector of removed messages grows at its end.\<close>

partial_function (option) remove_loop ::
    "('m \<Rightarrow> bool) \<Rightarrow> nat \<Rightarrow> nat \<Rightarrow> 'm list \<Rightarrow> 'm node_memory \<Rightarrow> ('m list \<times> 'm node_memory) option" where
  "remove_loop match it stop vect mem = (if it \<noteq> stop then do {
       msg \<leftarrow> getRef mem it;
       if match msg then do {
         (it, mem) \<leftarrow> erase it mem;
         remove_loop match it stop (vect @ [msg]) mem }
       else do {
         it \<leftarrow> getNext mem it;
         remove_loop match it stop vect mem } }
     else Some (vect, mem))"

definition remove :: "('m \<Rightarrow> int) \<Rightarrow> int \<Rightarrow> 'm message_queue \<Rightarrow> (int \<times> 'm list \<times> 'm message_queue) option" where
  "remove msg_id i q = do {
     none \<leftarrow> isEmptyLocked q;
     if none then Some (ERROR_NONE, [], q)
     else do {
       it \<leftarrow> begin_list (mList q) (list_nodes q);
       (vect, mem) \<leftarrow> remove_loop (\<lambda>m. msg_id m = i) it (end_list (mList q)) [] (list_nodes q);
       let q = q\<lparr>list_nodes := mem\<rparr>;
       q \<leftarrow> (if 0 < mNumReply q then reply i INVALID_OPERATION q else Some q);
       Some (ERROR_NONE, vect, q) } }"

section \<open>The interface of a queue\<close>

text \<open>
  What the threads of the library rely on.  \<open>contents\<close> is oldest first, \<open>room\<close> bounds the number of
  messages.
\<close>

locale fifo =
  fixes ok :: "'q \<Rightarrow> bool" and contents :: "'q \<Rightarrow> 'm list" and room :: nat
    and put :: "'m \<Rightarrow> 'q \<Rightarrow> 'q option" and get :: "'q \<Rightarrow> ('m option \<times> 'q) option"
  assumes put_ok: "ok q \<Longrightarrow> Suc (length (contents q)) < room \<Longrightarrow>
      \<exists>q'. put m q = Some q' \<and> ok q' \<and> contents q' = contents q @ [m]"
    and get_empty: "ok q \<Longrightarrow> contents q = [] \<Longrightarrow> get q = Some (None, q)"
    and get_first: "ok q \<Longrightarrow> contents q = m # ms \<Longrightarrow> Suc (length ms) < room \<Longrightarrow>
      \<exists>q'. get q = Some (Some m, q') \<and> ok q' \<and> contents q' = ms"
begin

text \<open>A schedule of a sender and a receiver: \<open>Some m\<close> is a send, \<open>None\<close> a receive, which waits if it must.\<close>

fun exchange :: "'m option list \<Rightarrow> 'q \<times> 'm list \<Rightarrow> ('q \<times> 'm list) option" where
  "exchange [] st = Some st"
| "exchange (Some m # es) (q, got) = Option.bind (put m q) (\<lambda>q. exchange es (q, got))"
| "exchange (None # es) (q, got) = Option.bind (get q) (\<lambda>(r, q).
     exchange es (q, case r of None \<Rightarrow> got | Some m \<Rightarrow> got @ [m]))"

lemma exchange_in_order:
  assumes "ok q" "length (contents q) + length es < room"
  shows "\<exists>q' got'. exchange es (q, got) = Some (q', got') \<and> ok q' \<and>
    got' @ contents q' = got @ contents q @ List.map_filter id es"
  using assms
proof (induction es arbitrary: q got)
  case (Cons e es)
  show ?case
  proof (cases e)
    case (Some m)
    obtain q1 where q1: "put m q = Some q1" "ok q1" "contents q1 = contents q @ [m]"
      using put_ok [of q m] Cons.prems by auto
    with Cons.IH [of q1 got] Cons.prems(2) show ?thesis by (simp add: Some List.map_filter_simps)
  next
    case None
    show ?thesis
    proof (cases "contents q")
      case Nil
      with Cons.IH [of q got] Cons.prems get_empty [OF Cons.prems(1) Nil] show ?thesis
        by (simp add: None List.map_filter_simps)
    next
      case c: (Cons m ms)
      obtain q1 where q1: "get q = Some (Some m, q1)" "ok q1" "contents q1 = ms"
        using get_first [OF Cons.prems(1) c] Cons.prems(2) c by auto
      with Cons.IH [of q1 "got @ [m]"] Cons.prems(2) c show ?thesis
        by (simp add: None List.map_filter_simps)
    qed
  qed
qed (simp add: List.map_filter_simps)

end

section \<open>The queue provides it\<close>

definition queue_holds :: "'m message_queue \<Rightarrow> 'm list \<Rightarrow> bool" where
  "queue_holds q ms \<longleftrightarrow> wf_memory (list_nodes q) \<and>
     (\<exists>as. holds (list_nodes q) (mList q) as (rev ms))"

definition queue_ok :: "'m message_queue \<Rightarrow> bool" where
  "queue_ok q \<longleftrightarrow> (\<exists>ms. queue_holds q ms)"

definition queue_contents :: "'m message_queue \<Rightarrow> 'm list" where
  "queue_contents q = rev (the (list_values (mList q) (list_nodes q)))"

lemma queue_holds_contents: "queue_holds q ms \<Longrightarrow> queue_contents q = ms"
  by (auto simp: queue_holds_def queue_contents_def dest: values_holds)

lemma queue_okI: "queue_holds q ms \<Longrightarrow> queue_ok q"
  by (auto simp: queue_ok_def)

lemma queue_okD: "queue_ok q \<Longrightarrow> queue_holds q (queue_contents q)"
  by (auto simp: queue_ok_def queue_holds_contents)

lemma new_queue_holds:
  obtains q where "MessageQueue n = Some q" "queue_holds q []" "mNumReply q = n"
    "mReplyStatus q = (if 0 < n then replicate (nat n) None else [])"
proof -
  have wf: "wf_memory (no_nodes :: 'a node_memory)" by (simp add: wf_memory_def no_nodes_def)
  obtain s where s: "prep (no_nodes :: 'a node_memory) = Some (next_node (no_nodes :: 'a node_memory), s)"
      "holds s (next_node (no_nodes :: 'a node_memory)) [] []" "wf_memory s"
    by (rule prep_holds [OF wf]) (rule that)
  let ?q = "\<lparr>mList = next_node (no_nodes :: 'a node_memory), list_nodes = s, mNumReply = n,
    mReplyStatus = (if 0 < n then replicate (nat n) None else [])\<rparr>"
  have run: "MessageQueue n = Some ?q" using s(1) by (simp add: MessageQueue_def)
  show thesis by (rule that [OF run]) (use s(2,3) in \<open>auto simp: queue_holds_def\<close>)
qed

lemma delete_queue_holds:
  assumes "queue_holds q ms"
  obtains mem where "delete_MessageQueue q = Some mem"
proof -
  obtain as where h: "holds (list_nodes q) (mList q) as (rev ms)"
    using assms by (auto simp: queue_holds_def)
  show thesis by (rule delete_List_holds [OF h]) (use that in \<open>simp add: delete_MessageQueue_def\<close>)
qed

lemma send_holds:
  assumes "queue_holds q ms"
  obtains q' where "send m (- 1) q = Some (Some ERROR_NONE, q')" "queue_holds q' (ms @ [m])"
    "mReplyStatus q' = mReplyStatus q" "mNumReply q' = mNumReply q"
proof -
  obtain as where h: "holds (list_nodes q) (mList q) as (rev ms)" "wf_memory (list_nodes q)"
    using assms by (auto simp: queue_holds_def)
  obtain mem as' where p: "push_front (mList q) m (list_nodes q) = Some mem" "holds mem (mList q) as' (m # rev ms)"
      "updates (list_nodes q) mem (mList q) as as'"
    by (rule push_front_holds [OF h(1), of m]) (rule that)
  note wf = updates_wf [OF p(3) h(2,1) p(2)]
  from p(1,2) wf show thesis
    by (intro that [of "q\<lparr>list_nodes := mem\<rparr>"]) (auto simp: send_def queue_holds_def)
qed

lemma isEmpty_holds:
  assumes "queue_holds q ms" "length ms < 2 ^ 32"
  shows "isEmptyLocked q = Some (ms = [])"
proof -
  have "list_size (mList q) (list_nodes q) = Some (length ms)"
    using assms(1) by (auto simp: queue_holds_def dest: size_holds)
  moreover have "(of_nat n = (0 :: s32)) \<longleftrightarrow> n = 0" if "n < 2 ^ 32" for n
    using that by (auto simp: word_of_nat_eq_0_iff dest: dvd_imp_le)
  ultimately show ?thesis using assms(2) by (simp add: isEmptyLocked_def sizeLocked_def)
qed

lemma receive_none: "queue_holds q [] \<Longrightarrow> receive q = Some (None, q)"
  using isEmpty_holds [of q "[]"] by (simp add: receive_def)

lemma receive_holds:
  assumes "queue_holds q (m # ms)" "Suc (length ms) < 2 ^ 32"
  obtains q' where "receive q = Some (Some m, q')" "queue_holds q' ms"
    "mReplyStatus q' = mReplyStatus q" "mNumReply q' = mNumReply q"
proof -
  obtain bs where bs: "holds (list_nodes q) (mList q) bs (rev (m # ms))" "wf_memory (list_nodes q)"
    using assms(1) by (auto simp: queue_holds_def)
  have "bs \<noteq> []" using holdsD(5) [OF bs(1)] by auto
  then obtain as a where as: "bs = as @ [a]" by (metis append_butlast_last_id)
  have h: "holds (list_nodes q) (mList q) (as @ a # []) (rev ms @ m # [])" using bs(1) as by simp
  have len: "length as = length (rev ms)" using holdsD(5) [OF bs(1)] as by simp
  have "path (list_nodes q) ((mList q # as) @ a # [mList q])" using holdsD(1) [OF h] by simp
  then have p: "getPrev (list_nodes q) (mList q) = Some a"
    by (simp add: path_append [of _ "mList q # as", simplified])
  obtain mem where e: "erase a (list_nodes q) = Some (hd ([] @ [mList q]), mem)"
      "holds mem (mList q) (as @ []) (rev ms @ [])" "updates (list_nodes q) mem (mList q) (as @ [a]) (as @ [])"
    by (rule erase_updates [OF h len]) (rule that)
  have "receive q = Some (Some m, q\<lparr>list_nodes := mem\<rparr>)"
    using isEmpty_holds [OF assms(1)] assms(2) p e(1) ref_holds [OF h len]
    by (simp add: receive_def end_list_def)
  then show thesis
    by (rule that) (use e(2) updates_wf [OF e(3) bs(2) h e(2)] in \<open>auto simp: queue_holds_def\<close>)
qed

definition put :: "'m \<Rightarrow> 'm message_queue \<Rightarrow> 'm message_queue option" where
  "put m q = map_option snd (send m (- 1) q)"

interpretation mq: fifo queue_ok queue_contents "2 ^ 32" put receive
proof (unfold_locales, goal_cases)
  case (1 q m)
  obtain q' where "send m (- 1) q = Some (Some ERROR_NONE, q')" "queue_holds q' (queue_contents q @ [m])"
    by (rule send_holds [OF queue_okD [OF 1(1)], of m]) (rule that)
  then show ?case by (auto simp: put_def queue_holds_contents intro: queue_okI)
next
  case (2 q)
  then show ?case using queue_okD [OF 2(1)] by (simp add: receive_none)
next
  case (3 q m ms)
  have h: "queue_holds q (m # ms)" using queue_okD [OF 3(1)] 3(2) by simp
  obtain q' where "receive q = Some (Some m, q')" "queue_holds q' ms"
    by (rule receive_holds [OF h 3(3)]) (rule that)
  then show ?case by (auto simp: queue_holds_contents intro: queue_okI)
qed

section \<open>Removing messages\<close>

lemma remove_loop_holds:
  assumes "holds mem m (as1 @ as2) (xs1 @ xs2)" "length as1 = length xs1" "wf_memory mem"
  shows "\<exists>mem' as'. remove_loop match (hd (as2 @ [m])) m vect mem = Some (vect @ filter match xs2, mem') \<and>
    holds mem' m as' (xs1 @ filter (\<lambda>x. \<not> match x) xs2) \<and> updates mem mem' m (as1 @ as2) as'"
  using assms
proof (induction as2 arbitrary: mem as1 xs1 xs2 vect)
  case Nil
  then have "xs2 = []" using holdsD(5) [OF Nil(1)] by simp
  with Nil show ?case by (simp add: remove_loop.simps) (metis updates_refl)
next
  case (Cons a as2)
  obtain x xs where xs: "xs2 = x # xs" using holdsD(5) [OF Cons.prems(1)] Cons.prems(2) by (cases xs2) auto
  note h = Cons.prems(1) [unfolded xs]
  have ne: "a \<noteq> m" and m: "m \<notin> set (as1 @ a # as2)" using holdsD(2) [OF h] by auto
  note ref = ref_holds [OF h Cons.prems(2)]
  show ?case
  proof (cases "match x")
    case True
    obtain s1 where s1: "erase a mem = Some (hd (as2 @ [m]), s1)" "holds s1 m (as1 @ as2) (xs1 @ xs)"
        "updates mem s1 m (as1 @ a # as2) (as1 @ as2)"
      by (rule erase_updates [OF h Cons.prems(2)]) (rule that)
    note wf1 = updates_wf [OF s1(3) Cons.prems(3) h s1(2)]
    from Cons.IH [OF s1(2) Cons.prems(2) wf1, of "vect @ [x]"] obtain mem' as' where
      r: "remove_loop match (hd (as2 @ [m])) m (vect @ [x]) s1 = Some ((vect @ [x]) @ filter match xs, mem')"
      "holds mem' m as' (xs1 @ filter (\<lambda>x. \<not> match x) xs)" "updates s1 mem' m (as1 @ as2) as'" by blast
    then show ?thesis
      using ne True ref s1(1) updates_trans [OF s1(3) r(3) Cons.prems(3) m]
      by (intro exI [of _ mem'] exI [of _ as']) (simp add: remove_loop.simps [of match a] xs)
  next
    case False
    have "holds mem m ((as1 @ [a]) @ as2) ((xs1 @ [x]) @ xs)" using h by simp
    from Cons.IH [OF this _ Cons.prems(3), of vect] Cons.prems(2) obtain mem' as' where
      "remove_loop match (hd (as2 @ [m])) m vect mem = Some (vect @ filter match xs, mem')"
      "holds mem' m as' ((xs1 @ [x]) @ filter (\<lambda>x. \<not> match x) xs)" "updates mem mem' m ((as1 @ [a]) @ as2) as'" by auto
    then show ?thesis
      using ne False ref next_holds [OF h]
      by (intro exI [of _ mem'] exI [of _ as']) (simp add: remove_loop.simps [of match a] xs)
  qed
qed

lemma remove_holds:
  assumes "queue_holds q ms" "ms \<noteq> []" "length ms < 2 ^ 32" "mNumReply q = 0 \<or> 0 \<le> i \<and> nat i < length (mReplyStatus q)"
  shows "\<exists>q'. remove msg_id i q = Some (ERROR_NONE, rev (filter (\<lambda>m. msg_id m = i) ms), q') \<and>
    queue_holds q' (filter (\<lambda>m. msg_id m \<noteq> i) ms) \<and> (0 < mNumReply q \<longrightarrow> await i q' = Some (Some INVALID_OPERATION))"
proof -
  obtain as where h: "holds (list_nodes q) (mList q) ([] @ as) ([] @ rev ms)" "wf_memory (list_nodes q)"
    using assms(1) by (auto simp: queue_holds_def)
  obtain mem as' where r: "remove_loop (\<lambda>m. msg_id m = i) (hd (as @ [mList q])) (mList q) [] (list_nodes q) =
      Some (filter (\<lambda>m. msg_id m = i) (rev ms), mem)"
      "holds mem (mList q) as' (filter (\<lambda>m. msg_id m \<noteq> i) (rev ms))" "updates (list_nodes q) mem (mList q) ([] @ as) as'"
    using remove_loop_holds [OF h(1) _ h(2), of "\<lambda>m. msg_id m = i" "[]"] by auto
  let ?q = "q\<lparr>list_nodes := mem\<rparr>"
  have e: "isEmptyLocked q = Some False" using isEmpty_holds [OF assms(1,3)] assms(2) by simp
  have b: "begin_list (mList q) (list_nodes q) = Some (hd (as @ [mList q]))" using begin_holds [OF h(1)] by simp
  have "queue_holds ?q (filter (\<lambda>m. msg_id m \<noteq> i) ms)"
    using r(2) updates_wf [OF r(3) h(2,1) r(2)] by (auto simp: queue_holds_def rev_filter)
  moreover have "\<exists>q'. (if 0 < mNumReply q then reply i INVALID_OPERATION ?q else Some ?q) = Some q' \<and>
      list_nodes q' = list_nodes ?q \<and> mList q' = mList ?q \<and>
      (0 < mNumReply q \<longrightarrow> await i q' = Some (Some INVALID_OPERATION))"
    using assms(4) by (auto simp: reply_def set_status_def await_def status_codes)
  ultimately show ?thesis
    using e b r(1) by (force simp: remove_def end_list_def queue_holds_def rev_filter)
qed

text \<open>The two halves of a synchronous message: its sender stays blocked until the reply comes, and gets that.\<close>

lemma send_reply:
  assumes "queue_holds q ms" "0 \<le> i" "nat i < length (mReplyStatus q)" "mNumReply q \<noteq> 0"
    and "status \<noteq> WOULD_BLOCK"
  shows "\<exists>q1 q2. send m i q = Some (None, q1) \<and> queue_holds q1 (ms @ [m]) \<and> await i q1 = Some None \<and>
    reply i status q1 = Some q2 \<and> await i q2 = Some (Some status)"
proof -
  obtain q' where s: "send m (- 1) q = Some (Some ERROR_NONE, q')" "queue_holds q' (ms @ [m])"
      "mReplyStatus q' = mReplyStatus q" "mNumReply q' = mNumReply q"
    by (rule send_holds [OF assms(1), of m]) (rule that)
  then obtain mem where mem: "push_front (mList q) m (list_nodes q) = Some mem" "q' = q\<lparr>list_nodes := mem\<rparr>"
    by (auto simp: send_def split: bind_splits)
  let ?q = "q'\<lparr>mReplyStatus := (mReplyStatus q)[nat i := Some WOULD_BLOCK]\<rparr>"
  have "send m i q = Some (None, ?q)"
    using assms(2-4) mem by (simp add: send_def set_status_def)
  moreover have "queue_holds ?q (ms @ [m])" using s(2) by (simp add: queue_holds_def)
  ultimately show ?thesis
    using assms(2,3,5) by (auto simp: await_def reply_def set_status_def)
qed

section \<open>Properties\<close>

text \<open>
  Messages arrive in the order in which they were sent: whatever sends and receives follow each other on a
  new queue, each succeeds, and what was received, followed by what is still in the queue, is what was
  sent.
\<close>

theorem queue_in_order:
  assumes "MessageQueue n = Some q" "length es < 2 ^ 32"
  shows "\<exists>q' got. mq.exchange es (q, []) = Some (q', got) \<and> got @ queue_contents q' = List.map_filter id es"
proof -
  obtain q0 :: "'a message_queue" where "MessageQueue n = Some q0" "queue_holds q0 []"
    by (rule new_queue_holds [of n]) (rule that)
  then have q: "queue_ok q" "queue_contents q = []"
    using assms(1) by (auto simp: queue_holds_contents intro: queue_okI)
  with mq.exchange_in_order [of q es "[]"] assms(2) show ?thesis by auto
qed

theorem queue_in_order_witness:
  "\<exists>q q' got. MessageQueue 2 = Some q \<and> mq.exchange [Some (1 :: int), None, Some 2, Some 3, None] (q, []) = Some (q', got) \<and>
    got @ queue_contents q' = [1, 2, 3]"
proof -
  obtain q :: "int message_queue" where q: "MessageQueue 2 = Some q" by (rule new_queue_holds [of 2]) (rule that)
  from queue_in_order [OF q, of "[Some 1, None, Some 2, Some 3, None]"] show ?thesis
    using q by (auto simp: List.map_filter_simps)
qed

text \<open>
  \<^verbatim>\<open>remove\<close> takes the messages with an identifier out of the queue, newest first into the vector, leaves the others
  in their order, and unblocks a sender that waits for a reply to such a message with
  \<^verbatim>\<open>INVALID_OPERATION\<close>; but on an empty queue it returns before the reply, and the sender stays blocked.
\<close>

theorem queue_remove:
  assumes "queue_holds q ms" "length ms < 2 ^ 32" "0 \<le> i" "nat i < length (mReplyStatus q)" "0 < mNumReply q"
    and "await i q = Some None"
  shows "\<exists>q'. remove msg_id i q = Some (ERROR_NONE, rev (filter (\<lambda>m. msg_id m = i) ms), q') \<and>
    queue_holds q' (filter (\<lambda>m. msg_id m \<noteq> i) ms) \<and>
    await i q' = Some (if ms = [] then None else Some INVALID_OPERATION)"
proof (cases "ms = []")
  case True
  with assms(1,6) isEmpty_holds [OF assms(1,2)] show ?thesis by (simp add: remove_def)
next
  case False
  with remove_holds [OF assms(1) False assms(2)] assms(3-5) show ?thesis by simp
qed

theorem queue_remove_witness:
  "\<exists>q q1 q'. MessageQueue 2 = Some q \<and> send (1 :: int) 1 q = Some (None, q1) \<and>
    remove (\<lambda>m. m) 1 q1 = Some (ERROR_NONE, [1], q') \<and> await 1 q' = Some (Some INVALID_OPERATION)"
proof -
  obtain q :: "int message_queue" where q: "MessageQueue 2 = Some q" "queue_holds q []" "mNumReply q = 2"
      "mReplyStatus q = (if (0 :: int) < 2 then replicate (nat 2) None else [])"
    by (rule new_queue_holds [of 2]) (rule that)
  have len: "length (mReplyStatus q) = 2" using q(4) by simp
  obtain q1 where q1: "send (1 :: int) 1 q = Some (None, q1)" "queue_holds q1 [1]" "await 1 q1 = Some None"
    using send_reply [OF q(2), of 1 0 1] len q(3) by (auto simp: status_codes)
  have "mNumReply q1 = 2" "length (mReplyStatus q1) = 2"
    using q1(1) q(3) len by (auto simp: send_def set_status_def split: bind_splits)
  with queue_remove [OF q1(2) _ _ _ _ q1(3), of "\<lambda>m. m"] q(1) q1(1) show ?thesis by auto
qed

end
