(* ===== verification/Camera_Hal.thy ===== *)
theory Camera_Hal
  imports Message_Queue System_Server
begin

text \<open>
  The camera library, \<^verbatim>\<open>src/hal/toy\<close>, with the thread class of \<^verbatim>\<open>src/hal/utils/Thread.cpp\<close>: the control thread takes
  requests from its message queue and hands their completion to the callback thread, which calls the
  client back.  Objects are records in a memory by address, 0 is the null pointer; a call through a
  pointer to no object is \<open>Bad_access\<close>, and waiting for a message that is not there is \<open>Hang\<close>.  One turn of
  the loop of a thread is one step.
\<close>

section \<open>Objects\<close>

record hal_message =
  hm_id :: int
  hm_data :: u64

text \<open>The message identifiers of the two threads.\<close>

definition MESSAGE_EXIT :: int where "MESSAGE_EXIT = 0"
definition MESSAGE_ID_TAKE_PICTURE :: int where "MESSAGE_ID_TAKE_PICTURE = 1"
definition CONTROL_MESSAGE_ID_MAX :: int where "CONTROL_MESSAGE_ID_MAX = 2"
definition MESSAGE_TAKE_PICTURE_DONE :: int where "MESSAGE_TAKE_PICTURE_DONE = 1"
definition CALLBACK_MESSAGE_ID_MAX :: int where "CALLBACK_MESSAGE_ID_MAX = 2"
definition CAMERA_TAKE_PICTURE_DONE :: s32 where "CAMERA_TAKE_PICTURE_DONE = 2"

definition message_of :: "int \<Rightarrow> hal_message" where
  "message_of i = \<lparr>hm_id = i, hm_data = 0\<rparr>"

datatype control_state = STATE_NONE | STATE_BUSY

record callbacks =
  mNotifyCB :: nat
  mDataCB :: nat

record callback_thread =
  cb_created :: bool
  cb_queue :: "hal_message message_queue"
  cb_callbacks :: nat

record control_thread =
  ct_created :: bool
  ct_queue :: "hal_message message_queue"
  mState :: control_state
  mCallbacks :: nat
  mCallbackThread :: nat

text \<open>
  The objects, the pointers of the two singletons and of the library, and the calls of the client's
  notify function: the function and its three arguments.
  Left out are the member \<^verbatim>\<open>mTid\<close>, which is only printed, and the list
  \<^verbatim>\<open>mPostponedMessages\<close>, which nothing uses.
\<close>

record hal_state = "ucall io" +
  callbacks_at :: "nat \<rightharpoonup> callbacks"
  callback_thread_at :: "nat \<rightharpoonup> callback_thread"
  control_thread_at :: "nat \<rightharpoonup> control_thread"
  next_object :: nat
  Callbacks_mInstance :: nat
  CallbackThread_mInstance :: nat
  the_control_thread :: nat
  notifications :: "(nat \<times> s32 \<times> s32 \<times> s32) list"

definition hal_initial :: hal_state where
  "hal_initial = \<lparr>trace = [], callbacks_at = Map.empty, callback_thread_at = Map.empty,
     control_thread_at = Map.empty, next_object = 1, Callbacks_mInstance = 0, CallbackThread_mInstance = 0,
     the_control_thread = 0, notifications = []\<rparr>"

type_synonym 'a hal_prog = "(hal_state, 'a outcome) state"

definition ret :: "'a \<Rightarrow> 'a hal_prog" where
  "ret x = State_Monad.return (Inr x)"

definition do_now :: "(hal_state \<Rightarrow> hal_state) \<Rightarrow> unit hal_prog" where
  "do_now f = State (\<lambda>s. (Inr (), f s))"

definition deref :: "(hal_state \<Rightarrow> nat \<rightharpoonup> 'a) \<Rightarrow> nat \<Rightarrow> 'a hal_prog" where
  "deref at p = State (\<lambda>s. (case at s p of None \<Rightarrow> Inl Bad_access | Some x \<Rightarrow> Inr x, s))"

definition new_object :: "nat hal_prog" where
  "new_object = State (\<lambda>s. (Inr (next_object s), s\<lparr>next_object := next_object s + 1\<rparr>))"

text \<open>A queue operation that cannot be done touches a node that is not there.\<close>

definition on_queue :: "'a option \<Rightarrow> 'a hal_prog" where
  "on_queue r = State_Monad.return (case r of None \<Rightarrow> Inl Bad_access | Some x \<Rightarrow> Inr x)"

definition set_callbacks_at :: "nat \<Rightarrow> callbacks \<Rightarrow> unit hal_prog" where
  "set_callbacks_at p c = do_now (\<lambda>s. s\<lparr>callbacks_at := (callbacks_at s)(p \<mapsto> c)\<rparr>)"

definition set_callback_thread_at :: "nat \<Rightarrow> callback_thread \<Rightarrow> unit hal_prog" where
  "set_callback_thread_at p t = do_now (\<lambda>s. s\<lparr>callback_thread_at := (callback_thread_at s)(p \<mapsto> t)\<rparr>)"

definition set_control_thread_at :: "nat \<Rightarrow> control_thread \<Rightarrow> unit hal_prog" where
  "set_control_thread_at p t = do_now (\<lambda>s. s\<lparr>control_thread_at := (control_thread_at s)(p \<mapsto> t)\<rparr>)"

section \<open>Callbacks\<close>

definition Callbacks_getInstance :: "nat hal_prog" where
  "Callbacks_getInstance = State_Monad.bind (gets Callbacks_mInstance) (\<lambda>i.
     if i = 0 then
       then_do new_object (\<lambda>p.
       then_do (set_callbacks_at p \<lparr>mNotifyCB = 0, mDataCB = 0\<rparr>) (\<lambda>_.
       then_do (do_now (\<lambda>s. s\<lparr>Callbacks_mInstance := p\<rparr>)) (\<lambda>_. ret p)))
     else ret i)"

definition delete_Callbacks :: "nat \<Rightarrow> unit hal_prog" where
  "delete_Callbacks p = then_do (deref callbacks_at p) (\<lambda>_.
     do_now (\<lambda>s. s\<lparr>Callbacks_mInstance := 0, callbacks_at := (callbacks_at s)(p := None)\<rparr>))"

definition Callbacks_setCallbacks :: "nat \<Rightarrow> nat \<Rightarrow> nat \<Rightarrow> unit hal_prog" where
  "Callbacks_setCallbacks p notify_cb data_cb = then_do (deref callbacks_at p) (\<lambda>_.
     set_callbacks_at p \<lparr>mNotifyCB = notify_cb, mDataCB = data_cb\<rparr>)"

definition Callbacks_takePictureDone :: "nat \<Rightarrow> unit hal_prog" where
  "Callbacks_takePictureDone p = then_do (deref callbacks_at p) (\<lambda>c.
     if mNotifyCB c \<noteq> 0 then
       do_now (\<lambda>s. s\<lparr>notifications := notifications s @ [(mNotifyCB c, CAMERA_TAKE_PICTURE_DONE, 1, 0)]\<rparr>)
     else ret ())"

section \<open>Threads\<close>

text \<open>
  \<^verbatim>\<open>Thread::Start\<close> and \<^verbatim>\<open>Thread::Join\<close> on the flag \<^verbatim>\<open>created\<close>: the return code and the new flag.  The threads of
  this library never leave their loop, so joining one that runs does not return.
\<close>

definition Thread_Start :: "uenv \<Rightarrow> string \<Rightarrow> bool \<Rightarrow> (int \<times> bool) hal_prog" where
  "Thread_Start E name created =
     (if created then ret (0, True)
      else State_Monad.bind (invoke E (Process (PthreadCreate name))) (\<lambda>r. ret (r, r = 0)))"

definition Thread_Join :: "bool \<Rightarrow> int hal_prog" where
  "Thread_Join created = (if created then State_Monad.return (Inl Hang) else ret 0)"

section \<open>The callback thread\<close>

definition CallbackThread_getInstance :: "nat hal_prog" where
  "CallbackThread_getInstance = State_Monad.bind (gets CallbackThread_mInstance) (\<lambda>i.
     if i = 0 then
       then_do new_object (\<lambda>p.
       then_do (on_queue (MessageQueue CALLBACK_MESSAGE_ID_MAX)) (\<lambda>q.
       then_do Callbacks_getInstance (\<lambda>c.
       then_do (set_callback_thread_at p \<lparr>cb_created = False, cb_queue = q, cb_callbacks = c\<rparr>) (\<lambda>_.
       then_do (do_now (\<lambda>s. s\<lparr>CallbackThread_mInstance := p\<rparr>)) (\<lambda>_. ret p)))))
     else ret i)"

text \<open>The destructor, the queue, and then the base class, which joins the thread.\<close>

definition delete_CallbackThread :: "nat \<Rightarrow> unit hal_prog" where
  "delete_CallbackThread p = then_do (deref callback_thread_at p) (\<lambda>t.
     then_do (do_now (\<lambda>s. s\<lparr>CallbackThread_mInstance := 0\<rparr>)) (\<lambda>_.
     then_do (on_queue (delete_MessageQueue (cb_queue t))) (\<lambda>_.
     then_do (Thread_Join (cb_created t)) (\<lambda>_.
     do_now (\<lambda>s. s\<lparr>callback_thread_at := (callback_thread_at s)(p := None)\<rparr>)))))"

definition CallbackThread_send :: "nat \<Rightarrow> int \<Rightarrow> int hal_prog" where
  "CallbackThread_send p i = then_do (deref callback_thread_at p) (\<lambda>t.
     then_do (on_queue (send (message_of i) (- 1) (cb_queue t))) (\<lambda>(st, q).
     then_do (set_callback_thread_at p (t\<lparr>cb_queue := q\<rparr>)) (\<lambda>_.
     case st of None \<Rightarrow> State_Monad.return (Inl Hang) | Some r \<Rightarrow> ret r)))"

definition CallbackThread_takePictureDone :: "nat \<Rightarrow> int hal_prog" where
  "CallbackThread_takePictureDone p = CallbackThread_send p MESSAGE_TAKE_PICTURE_DONE"

definition CallbackThread_requestExitAndWait :: "nat \<Rightarrow> int hal_prog" where
  "CallbackThread_requestExitAndWait p = then_do (CallbackThread_send p MESSAGE_EXIT) (\<lambda>_. ret ERROR_NONE)"

definition CallbackThread_handleTakePictureDone :: "nat \<Rightarrow> unit hal_prog" where
  "CallbackThread_handleTakePictureDone p = then_do (deref callback_thread_at p) (\<lambda>t.
     Callbacks_takePictureDone (cb_callbacks t))"

definition CallbackThread_waitForAndExecuteMessage :: "nat \<Rightarrow> int hal_prog" where
  "CallbackThread_waitForAndExecuteMessage p = then_do (deref callback_thread_at p) (\<lambda>t.
     then_do (on_queue (receive (cb_queue t))) (\<lambda>(m, q).
     case m of
       None \<Rightarrow> State_Monad.return (Inl Hang)
     | Some msg \<Rightarrow>
         then_do (set_callback_thread_at p (t\<lparr>cb_queue := q\<rparr>)) (\<lambda>_.
         if hm_id msg = MESSAGE_TAKE_PICTURE_DONE then
           then_do (CallbackThread_handleTakePictureDone p) (\<lambda>_. ret ERROR_NONE)
         else ret BAD_VALUE)))"

section \<open>The control thread\<close>

text \<open>The constructor leaves the two pointers unset; \<^verbatim>\<open>init\<close> sets them before it reads them.\<close>

definition new_ControlThread :: "nat hal_prog" where
  "new_ControlThread = then_do new_object (\<lambda>p.
     then_do (on_queue (MessageQueue CONTROL_MESSAGE_ID_MAX)) (\<lambda>q.
     then_do (set_control_thread_at p \<lparr>ct_created = False, ct_queue = q, mState = STATE_NONE,
        mCallbacks = 0, mCallbackThread = 0\<rparr>) (\<lambda>_. ret p)))"

definition ControlThread_deinit :: "nat \<Rightarrow> unit hal_prog" where
  "ControlThread_deinit p = then_do (deref control_thread_at p) (\<lambda>c.
     then_do (if mCallbackThread c \<noteq> 0 then
         then_do (CallbackThread_requestExitAndWait (mCallbackThread c)) (\<lambda>_.
         delete_CallbackThread (mCallbackThread c))
       else ret ()) (\<lambda>_.
     if mCallbacks c \<noteq> 0 then delete_Callbacks (mCallbacks c) else ret ()))"

definition bail :: "nat \<Rightarrow> int \<Rightarrow> int hal_prog" where
  "bail p status = then_do (ControlThread_deinit p) (\<lambda>_. ret status)"

definition ControlThread_init :: "uenv \<Rightarrow> nat \<Rightarrow> int hal_prog" where
  "ControlThread_init E p =
     then_do Callbacks_getInstance (\<lambda>cb.
     then_do (deref control_thread_at p) (\<lambda>c.
     then_do (set_control_thread_at p (c\<lparr>mCallbacks := cb\<rparr>)) (\<lambda>_.
     if cb = 0 then bail p UNKNOWN_ERROR
     else
       then_do CallbackThread_getInstance (\<lambda>th.
       then_do (deref control_thread_at p) (\<lambda>c.
       then_do (set_control_thread_at p (c\<lparr>mCallbackThread := th\<rparr>)) (\<lambda>_.
       if th = 0 then bail p UNKNOWN_ERROR
       else
         then_do (deref callback_thread_at th) (\<lambda>t.
         then_do (Thread_Start E ''CallbackThread'' (cb_created t)) (\<lambda>(status, created).
         then_do (set_callback_thread_at th (t\<lparr>cb_created := created\<rparr>)) (\<lambda>_.
         if status \<noteq> ERROR_NONE then bail p status else ret ERROR_NONE)))))))))"

definition ControlThread_setCallbacks :: "nat \<Rightarrow> nat \<Rightarrow> nat \<Rightarrow> unit hal_prog" where
  "ControlThread_setCallbacks p notify_cb data_cb = then_do (deref control_thread_at p) (\<lambda>c.
     Callbacks_setCallbacks (mCallbacks c) notify_cb data_cb)"

definition ControlThread_send :: "nat \<Rightarrow> int \<Rightarrow> int hal_prog" where
  "ControlThread_send p i = then_do (deref control_thread_at p) (\<lambda>c.
     then_do (on_queue (send (message_of i) (- 1) (ct_queue c))) (\<lambda>(st, q).
     then_do (set_control_thread_at p (c\<lparr>ct_queue := q\<rparr>)) (\<lambda>_.
     case st of None \<Rightarrow> State_Monad.return (Inl Hang) | Some r \<Rightarrow> ret r)))"

definition ControlThread_takePicture :: "nat \<Rightarrow> int hal_prog" where
  "ControlThread_takePicture p = ControlThread_send p MESSAGE_ID_TAKE_PICTURE"

definition ControlThread_requestExitAndWait :: "nat \<Rightarrow> int hal_prog" where
  "ControlThread_requestExitAndWait p = then_do (ControlThread_send p MESSAGE_EXIT) (\<lambda>_. ret ERROR_NONE)"

definition ControlThread_handleMessageTakePicture :: "nat \<Rightarrow> int hal_prog" where
  "ControlThread_handleMessageTakePicture p = then_do (deref control_thread_at p) (\<lambda>c.
     CallbackThread_takePictureDone (mCallbackThread c))"

definition ControlThread_waitForAndExecuteMessage :: "nat \<Rightarrow> int hal_prog" where
  "ControlThread_waitForAndExecuteMessage p = then_do (deref control_thread_at p) (\<lambda>c.
     then_do (on_queue (receive (ct_queue c))) (\<lambda>(m, q).
     case m of
       None \<Rightarrow> State_Monad.return (Inl Hang)
     | Some msg \<Rightarrow>
         then_do (set_control_thread_at p (c\<lparr>ct_queue := q\<rparr>)) (\<lambda>_.
         if hm_id msg = MESSAGE_ID_TAKE_PICTURE then ControlThread_handleMessageTakePicture p
         else ret BAD_VALUE)))"

text \<open>One turn of \<^verbatim>\<open>while (1)\<close>; in any other state than \<^verbatim>\<open>STATE_NONE\<close> the thread spins.\<close>

definition ControlThread_threadLoop :: "nat \<Rightarrow> unit hal_prog" where
  "ControlThread_threadLoop p = then_do (deref control_thread_at p) (\<lambda>c.
     case mState c of
       STATE_NONE \<Rightarrow> then_do (ControlThread_waitForAndExecuteMessage p) (\<lambda>_. ret ())
     | _ \<Rightarrow> ret ())"

definition CallbackThread_threadLoop :: "nat \<Rightarrow> unit hal_prog" where
  "CallbackThread_threadLoop p = then_do (CallbackThread_waitForAndExecuteMessage p) (\<lambda>_. ret ())"

section \<open>The module\<close>

definition ENOMEM :: int where "ENOMEM = 12"

definition toy_camera_open :: "uenv \<Rightarrow> int hal_prog" where
  "toy_camera_open E =
     then_do new_ControlThread (\<lambda>p.
     then_do (do_now (\<lambda>s. s\<lparr>the_control_thread := p\<rparr>)) (\<lambda>_.
     if p = 0 then ret (- ENOMEM)
     else
       then_do (ControlThread_init E p) (\<lambda>status.
       if status \<noteq> ERROR_NONE then ret (- 1)
       else
         then_do (deref control_thread_at p) (\<lambda>c.
         then_do (Thread_Start E ''ControlThread'' (ct_created c)) (\<lambda>(_, created).
         then_do (deref control_thread_at p) (\<lambda>c.
         then_do (set_control_thread_at p (c\<lparr>ct_created := created\<rparr>)) (\<lambda>_. ret 0)))))))"

text \<open>\<^verbatim>\<open>ControlThread::dump\<close> prints and touches no member.\<close>

definition toy_camera_dump :: "int hal_prog" where
  "toy_camera_dump = ret 0"

definition toy_camera_take_picture :: "int hal_prog" where
  "toy_camera_take_picture = State_Monad.bind (gets the_control_thread) ControlThread_takePicture"

definition toy_camera_set_callbacks :: "nat \<Rightarrow> nat \<Rightarrow> int hal_prog" where
  "toy_camera_set_callbacks notify_cb data_cb = State_Monad.bind (gets the_control_thread) (\<lambda>p.
     if p = 0 then ret BAD_VALUE
     else then_do (ControlThread_setCallbacks p notify_cb data_cb) (\<lambda>_. ret 0))"

text \<open>
  \<^verbatim>\<open>hw_module_t\<close> of \<^verbatim>\<open>src/hal/hardware.h\<close>: the function table a library exports; the table of this library,
  and the call of one of the functions without arguments by its name.
\<close>

record 's hw_module_t =
  hw_tag :: u32
  hw_id :: string
  hw_name :: string
  hw_open :: "('s, int outcome) state"
  hw_take_picture :: "('s, int outcome) state"
  hw_dump :: "('s, int outcome) state"
  hw_set_callbacks :: "(nat \<Rightarrow> nat \<Rightarrow> ('s, int outcome) state) option"

definition MAKE_TAG_CONSTANT :: "u32 \<Rightarrow> u32 \<Rightarrow> u32 \<Rightarrow> u32 \<Rightarrow> u32" where
  "MAKE_TAG_CONSTANT a b c d = push_bit 24 a OR push_bit 16 b OR push_bit 8 c OR d"

definition HARDWARE_MODULE_TAG :: u32 where
  "HARDWARE_MODULE_TAG = MAKE_TAG_CONSTANT (of_char CHR ''H'') (of_char CHR ''W'') (of_char CHR ''M'') (of_char CHR ''T'')"

definition CAMERA_HARDWARE_MODULE_ID :: string where
  "CAMERA_HARDWARE_MODULE_ID = ''camera''"

definition HAL_MODULE_INFO_SYM :: "uenv \<Rightarrow> hal_state hw_module_t" where
  "HAL_MODULE_INFO_SYM E =
     \<lparr>hw_tag = HARDWARE_MODULE_TAG, hw_id = CAMERA_HARDWARE_MODULE_ID, hw_name = ''Toy Camera Hardware Module'',
      hw_open = toy_camera_open E, hw_take_picture = toy_camera_take_picture, hw_dump = toy_camera_dump,
      hw_set_callbacks = Some toy_camera_set_callbacks\<rparr>"

definition call_module :: "'s hw_module_t \<Rightarrow> string \<Rightarrow> ('s, int outcome) state" where
  "call_module M name =
     (if name = ''open'' then hw_open M
      else if name = ''take_picture'' then hw_take_picture M
      else if name = ''dump'' then hw_dump M
      else State_Monad.return (Inl Bad_access))"

definition set_callbacks :: "'s hw_module_t \<Rightarrow> nat \<Rightarrow> nat \<Rightarrow> ('s, int outcome) state" where
  "set_callbacks M notify_cb data_cb =
     (case hw_set_callbacks M of None \<Rightarrow> State_Monad.return (Inl Bad_access) | Some f \<Rightarrow> f notify_cb data_cb)"

section \<open>Executing the programs\<close>

lemma run_ret [exec_simps]: "run_state (ret x) s = (Inr x, s)"
  by (simp add: ret_def)

lemma run_do_now [exec_simps]: "run_state (do_now f) s = (Inr (), f s)"
  by (simp add: do_now_def)

lemma run_deref [exec_simps]: "run_state (deref at p) s = (case at s p of None \<Rightarrow> Inl Bad_access | Some x \<Rightarrow> Inr x, s)"
  by (simp add: deref_def)

lemma run_new_object [exec_simps]: "run_state new_object s = (Inr (next_object s), s\<lparr>next_object := next_object s + 1\<rparr>)"
  by (simp add: new_object_def)

lemma run_on_queue [exec_simps]: "run_state (on_queue r) s = (case r of None \<Rightarrow> Inl Bad_access | Some x \<Rightarrow> Inr x, s)"
  by (simp add: on_queue_def)

lemmas hal_sets [exec_simps] = set_callbacks_at_def set_callback_thread_at_def set_control_thread_at_def

text \<open>
  The library in service: the control thread waits for requests, the callback thread knows the client,
  \<open>a\<close> requests are in the first queue and \<open>d\<close> completed pictures in the second.
\<close>

definition serving :: "hal_state \<Rightarrow> nat \<Rightarrow> nat \<Rightarrow> nat \<Rightarrow> bool" where
  "serving s n a d \<longleftrightarrow> (\<exists>ct th cb. control_thread_at s (the_control_thread s) = Some ct \<and> mState ct = STATE_NONE \<and>
     callback_thread_at s (mCallbackThread ct) = Some th \<and> CallbackThread_mInstance s = mCallbackThread ct \<and>
     callbacks_at s (cb_callbacks th) = Some cb \<and> mNotifyCB cb = n \<and>
     queue_holds (ct_queue ct) (replicate a (message_of MESSAGE_ID_TAKE_PICTURE)) \<and>
     queue_holds (cb_queue th) (replicate d (message_of MESSAGE_TAKE_PICTURE_DONE)) \<and> mCallbacks ct = cb_callbacks th)"

lemma servingE:
  assumes "serving s n a d"
  obtains ct th cb where "control_thread_at s (the_control_thread s) = Some ct" "mState ct = STATE_NONE"
    "callback_thread_at s (mCallbackThread ct) = Some th" "CallbackThread_mInstance s = mCallbackThread ct"
    "callbacks_at s (cb_callbacks th) = Some cb" "mNotifyCB cb = n"
    "queue_holds (ct_queue ct) (replicate a (message_of MESSAGE_ID_TAKE_PICTURE))"
    "queue_holds (cb_queue th) (replicate d (message_of MESSAGE_TAKE_PICTURE_DONE))" "mCallbacks ct = cb_callbacks th"
  using assms unfolding serving_def by blast

lemma take_serving:
  assumes "serving s n a d"
  obtains s' where "run_state toy_camera_take_picture s = (Inr ERROR_NONE, s')" "serving s' n (Suc a) d"
    "notifications s' = notifications s"
proof -
  obtain ct th cb where c: "control_thread_at s (the_control_thread s) = Some ct" "mState ct = STATE_NONE"
    "callback_thread_at s (mCallbackThread ct) = Some th" "CallbackThread_mInstance s = mCallbackThread ct"
    "callbacks_at s (cb_callbacks th) = Some cb" "mNotifyCB cb = n"
    "queue_holds (ct_queue ct) (replicate a (message_of MESSAGE_ID_TAKE_PICTURE))"
    "queue_holds (cb_queue th) (replicate d (message_of MESSAGE_TAKE_PICTURE_DONE))" "mCallbacks ct = cb_callbacks th"
    by (rule servingE [OF assms]) (rule that)
  obtain q where q: "send (message_of MESSAGE_ID_TAKE_PICTURE) (- 1) (ct_queue ct) = Some (Some ERROR_NONE, q)"
      "queue_holds q (replicate a (message_of MESSAGE_ID_TAKE_PICTURE) @ [message_of MESSAGE_ID_TAKE_PICTURE])"
    by (rule send_holds [OF c(7), of "message_of MESSAGE_ID_TAKE_PICTURE"]) (rule that)
  let ?s = "s\<lparr>control_thread_at := (control_thread_at s)(the_control_thread s \<mapsto> ct\<lparr>ct_queue := q\<rparr>)\<rparr>"
  have "run_state toy_camera_take_picture s = (Inr ERROR_NONE, ?s)"
    using c(1) q(1) by (simp add: toy_camera_take_picture_def ControlThread_takePicture_def ControlThread_send_def exec_simps)
  moreover have "serving ?s n (Suc a) d"
    using c q(2) by (simp add: serving_def replicate_append_same)
  ultimately show thesis by (intro that [of ?s]) simp_all
qed

lemma control_serving:
  assumes "serving s n (Suc a) d" "Suc a < 2 ^ 32"
  obtains s' where "run_state (ControlThread_threadLoop (the_control_thread s)) s = (Inr (), s')" "serving s' n a (Suc d)"
    "notifications s' = notifications s"
proof -
  obtain ct th cb where c: "control_thread_at s (the_control_thread s) = Some ct" "mState ct = STATE_NONE"
    "callback_thread_at s (mCallbackThread ct) = Some th" "CallbackThread_mInstance s = mCallbackThread ct"
    "callbacks_at s (cb_callbacks th) = Some cb" "mNotifyCB cb = n"
    "queue_holds (ct_queue ct) (replicate (Suc a) (message_of MESSAGE_ID_TAKE_PICTURE))"
    "queue_holds (cb_queue th) (replicate d (message_of MESSAGE_TAKE_PICTURE_DONE))" "mCallbacks ct = cb_callbacks th"
    by (rule servingE [OF assms(1)]) (rule that)
  have h: "queue_holds (ct_queue ct) (message_of MESSAGE_ID_TAKE_PICTURE # replicate a (message_of MESSAGE_ID_TAKE_PICTURE))"
    using c(7) by simp
  obtain q where q: "receive (ct_queue ct) = Some (Some (message_of MESSAGE_ID_TAKE_PICTURE), q)"
      "queue_holds q (replicate a (message_of MESSAGE_ID_TAKE_PICTURE))"
    by (rule receive_holds [OF h]) (use assms(2) that in auto)
  obtain r where r: "send (message_of MESSAGE_TAKE_PICTURE_DONE) (- 1) (cb_queue th) = Some (Some ERROR_NONE, r)"
      "queue_holds r (replicate d (message_of MESSAGE_TAKE_PICTURE_DONE) @ [message_of MESSAGE_TAKE_PICTURE_DONE])"
    by (rule send_holds [OF c(8), of "message_of MESSAGE_TAKE_PICTURE_DONE"]) (rule that)
  let ?s = "s\<lparr>control_thread_at := (control_thread_at s)(the_control_thread s \<mapsto> ct\<lparr>ct_queue := q\<rparr>),
    callback_thread_at := (callback_thread_at s)(mCallbackThread ct \<mapsto> th\<lparr>cb_queue := r\<rparr>)\<rparr>"
  have "run_state (ControlThread_threadLoop (the_control_thread s)) s = (Inr (), ?s)"
    using c(1-3) q(1) r(1)
    by (simp add: ControlThread_threadLoop_def ControlThread_waitForAndExecuteMessage_def message_of_def
      ControlThread_handleMessageTakePicture_def CallbackThread_takePictureDone_def CallbackThread_send_def exec_simps)
  moreover have "serving ?s n a (Suc d)"
    using c q(2) r(2) by (simp add: serving_def replicate_append_same)
  ultimately show thesis by (intro that [of ?s]) simp_all
qed

lemma callback_serving:
  assumes "serving s n a (Suc d)" "Suc d < 2 ^ 32" "n \<noteq> 0"
  obtains s' where "run_state (CallbackThread_threadLoop (CallbackThread_mInstance s)) s = (Inr (), s')" "serving s' n a d"
    "notifications s' = notifications s @ [(n, CAMERA_TAKE_PICTURE_DONE, 1, 0)]"
proof -
  obtain ct th cb where c: "control_thread_at s (the_control_thread s) = Some ct" "mState ct = STATE_NONE"
    "callback_thread_at s (mCallbackThread ct) = Some th" "CallbackThread_mInstance s = mCallbackThread ct"
    "callbacks_at s (cb_callbacks th) = Some cb" "mNotifyCB cb = n"
    "queue_holds (ct_queue ct) (replicate a (message_of MESSAGE_ID_TAKE_PICTURE))"
    "queue_holds (cb_queue th) (replicate (Suc d) (message_of MESSAGE_TAKE_PICTURE_DONE))" "mCallbacks ct = cb_callbacks th"
    by (rule servingE [OF assms(1)]) (rule that)
  have h: "queue_holds (cb_queue th) (message_of MESSAGE_TAKE_PICTURE_DONE # replicate d (message_of MESSAGE_TAKE_PICTURE_DONE))"
    using c(8) by simp
  obtain q where q: "receive (cb_queue th) = Some (Some (message_of MESSAGE_TAKE_PICTURE_DONE), q)"
      "queue_holds q (replicate d (message_of MESSAGE_TAKE_PICTURE_DONE))"
    by (rule receive_holds [OF h]) (use assms(2) that in auto)
  let ?s = "s\<lparr>callback_thread_at := (callback_thread_at s)(mCallbackThread ct \<mapsto> th\<lparr>cb_queue := q\<rparr>),
    notifications := notifications s @ [(n, CAMERA_TAKE_PICTURE_DONE, 1, 0)]\<rparr>"
  have "run_state (CallbackThread_threadLoop (CallbackThread_mInstance s)) s = (Inr (), ?s)"
    using c(3-6) q(1) assms(3)
    by (simp add: CallbackThread_threadLoop_def CallbackThread_waitForAndExecuteMessage_def message_of_def
      CallbackThread_handleTakePictureDone_def Callbacks_takePictureDone_def exec_simps)
  moreover have "serving ?s n a d"
    using c q(2) by (simp add: serving_def)
  ultimately show thesis by (intro that [of ?s]) simp_all
qed

lemma idle_serving:
  "serving s n 0 d \<Longrightarrow> result (ControlThread_threadLoop (the_control_thread s)) s = Inl Hang"
  "serving s n a 0 \<Longrightarrow> result (CallbackThread_threadLoop (CallbackThread_mInstance s)) s = Inl Hang"
  by (auto simp: serving_def receive_none ControlThread_threadLoop_def ControlThread_waitForAndExecuteMessage_def
      CallbackThread_threadLoop_def CallbackThread_waitForAndExecuteMessage_def exec_simps)

section \<open>The library in service\<close>

text \<open>The threads can be created.\<close>

definition creating :: "uenv \<Rightarrow> bool" where
  "creating E \<longleftrightarrow> (\<forall>h name. E h (Process (PthreadCreate name)) = 0)"

text \<open>A client opens the module and registers its functions.\<close>

definition open_camera :: "uenv \<Rightarrow> nat \<Rightarrow> nat \<Rightarrow> int hal_prog" where
  "open_camera E notify_cb data_cb = then_do (call_module (HAL_MODULE_INFO_SYM E) ''open'') (\<lambda>_.
     set_callbacks (HAL_MODULE_INFO_SYM E) notify_cb data_cb)"

lemma toy_open_serving:
  assumes "creating E"
  shows "\<exists>s. run_state (toy_camera_open E) hal_initial = (Inr 0, s) \<and> serving s 0 0 0 \<and> notifications s = [] \<and> the_control_thread s \<noteq> 0"
proof -
  obtain cq :: "hal_message message_queue" where cq: "MessageQueue CONTROL_MESSAGE_ID_MAX = Some cq" "queue_holds cq []"
    by (rule new_queue_holds [of CONTROL_MESSAGE_ID_MAX])
  obtain bq :: "hal_message message_queue" where bq: "MessageQueue CALLBACK_MESSAGE_ID_MAX = Some bq" "queue_holds bq []"
    by (rule new_queue_holds [of CALLBACK_MESSAGE_ID_MAX])
  have ok: "E h (Process (PthreadCreate name)) = 0" for h name
    using assms by (simp add: creating_def)
  show ?thesis
    using cq(2) bq(2)
    by (simp add: serving_def toy_camera_open_def new_ControlThread_def ControlThread_init_def Callbacks_getInstance_def
      CallbackThread_getInstance_def Thread_Start_def hal_initial_def exec_simps cq(1) bq(1) ok ERROR_NONE_def)
qed

lemma set_callbacks_serving:
  assumes "serving s m a k" "the_control_thread s \<noteq> 0"
  shows "\<exists>s'. run_state (toy_camera_set_callbacks n d) s = (Inr 0, s') \<and> serving s' n a k \<and>
    notifications s' = notifications s"
  using assms
  by (auto simp: serving_def toy_camera_set_callbacks_def ControlThread_setCallbacks_def Callbacks_setCallbacks_def exec_simps)

lemma open_serving:
  assumes "creating E"
  obtains s where "run_state (open_camera E n d) hal_initial = (Inr 0, s)" "serving s n 0 0" "notifications s = []"
proof -
  obtain t where t: "run_state (toy_camera_open E) hal_initial = (Inr 0, t)" "serving t 0 0 0" "notifications t = []"
      "the_control_thread t \<noteq> 0"
    using toy_open_serving [OF assms] by blast
  with set_callbacks_serving [OF t(2,4), of n d] that show thesis
    by (auto simp: open_camera_def call_module_def set_callbacks_def HAL_MODULE_INFO_SYM_def run_then_do)
qed

text \<open>
  What happens next, in any order: a client asks for a picture, or one of the threads does a turn of its
  loop.  A turn of a thread that waits for a message, or a call that fails, is no step.
\<close>

datatype hal_event = Take_picture | Control_turn | Callback_turn

definition step_of :: "'a hal_prog \<Rightarrow> hal_state \<Rightarrow> hal_state option" where
  "step_of m s = (case run_state m s of (Inl _, _) \<Rightarrow> None | (Inr _, s') \<Rightarrow> Some s')"

primrec hal_step :: "hal_event \<Rightarrow> hal_state \<Rightarrow> hal_state option" where
  "hal_step Take_picture s = step_of toy_camera_take_picture s"
| "hal_step Control_turn s = step_of (ControlThread_threadLoop (the_control_thread s)) s"
| "hal_step Callback_turn s = step_of (CallbackThread_threadLoop (CallbackThread_mInstance s)) s"

lemma hal_step_serving:
  assumes "serving s n a d" "n \<noteq> 0" "a + d < 2 ^ 32" "hal_step e s = Some s'"
  shows "\<exists>a' d'. serving s' n a' d' \<and>
    a' + count_list [e] Control_turn = a + count_list [e] Take_picture \<and>
    d' + count_list [e] Callback_turn = d + count_list [e] Control_turn \<and>
    notifications s' = notifications s @ replicate (count_list [e] Callback_turn) (n, CAMERA_TAKE_PICTURE_DONE, 1, 0)"
proof (cases e)
  case Take_picture
  obtain t where "run_state toy_camera_take_picture s = (Inr ERROR_NONE, t)" "serving t n (Suc a) d"
    "notifications t = notifications s" by (rule take_serving [OF assms(1)])
  with Take_picture assms(4) show ?thesis by (auto simp: step_of_def)
next
  case Control_turn
  with assms(1,4) idle_serving(1) [of s n d] obtain b where b: "a = Suc b"
    by (cases a) (auto simp: step_of_def split: prod.splits sum.splits)
  obtain t where "run_state (ControlThread_threadLoop (the_control_thread s)) s = (Inr (), t)" "serving t n b (Suc d)"
    "notifications t = notifications s"
    by (rule control_serving [of s n b d]) (use assms b in auto)
  with Control_turn assms(4) b show ?thesis by (auto simp: step_of_def)
next
  case Callback_turn
  with assms(1,4) idle_serving(2) [of s n a] obtain b where b: "d = Suc b"
    by (cases d) (auto simp: step_of_def split: prod.splits sum.splits)
  obtain t where "run_state (CallbackThread_threadLoop (CallbackThread_mInstance s)) s = (Inr (), t)" "serving t n a b"
    "notifications t = notifications s @ [(n, CAMERA_TAKE_PICTURE_DONE, 1, 0)]"
    by (rule callback_serving [of s n a b]) (use assms b in auto)
  with Callback_turn assms(4) b show ?thesis by (auto simp: step_of_def)
qed

lemma run_serving:
  "\<lbrakk>serving s n a d; n \<noteq> 0; a + d + length es < 2 ^ 32; run_events hal_step es s = Some s'\<rbrakk> \<Longrightarrow>
    \<exists>a' d'. serving s' n a' d' \<and>
      a' + count_list es Control_turn = a + count_list es Take_picture \<and>
      d' + count_list es Callback_turn = d + count_list es Control_turn \<and>
      notifications s' = notifications s @ replicate (count_list es Callback_turn) (n, CAMERA_TAKE_PICTURE_DONE, 1, 0)"
proof (induction es arbitrary: s a d)
  case Nil
  then show ?case by auto
next
  case (Cons e es)
  then obtain t where t: "hal_step e s = Some t" "run_events hal_step es t = Some s'"
    by (auto split: option.splits)
  obtain b c where b: "serving t n b c"
      "b + count_list [e] Control_turn = a + count_list [e] Take_picture"
      "c + count_list [e] Callback_turn = d + count_list [e] Control_turn"
      "notifications t = notifications s @ replicate (count_list [e] Callback_turn) (n, CAMERA_TAKE_PICTURE_DONE, 1, 0)"
    using hal_step_serving [OF Cons.prems(1,2) _ t(1)] Cons.prems(3) by auto
  have "b + c + length es < 2 ^ 32" using b(2,3) Cons.prems(3) by (cases e) auto
  from Cons.IH [OF b(1) Cons.prems(2) this t(2)] obtain a' d' where "serving s' n a' d'"
      "a' + count_list es Control_turn = b + count_list es Take_picture"
      "d' + count_list es Callback_turn = c + count_list es Control_turn"
      "notifications s' = notifications t @ replicate (count_list es Callback_turn) (n, CAMERA_TAKE_PICTURE_DONE, 1, 0)"
    by blast
  with b show ?case
    by (intro exI [of _ a'] exI [of _ d']) (auto simp: replicate_add split: if_splits)
qed

text \<open>The turns that are left bring every request to its notification.\<close>

lemma control_drains:
  "serving s n a d \<Longrightarrow> a + d < 2 ^ 32 \<Longrightarrow> \<exists>s'. run_events hal_step (replicate a Control_turn) s = Some s' \<and>
    serving s' n 0 (a + d) \<and> notifications s' = notifications s"
proof (induction a arbitrary: s d)
  case 0
  then show ?case by simp
next
  case (Suc a)
  obtain t where t: "run_state (ControlThread_threadLoop (the_control_thread s)) s = (Inr (), t)" "serving t n a (Suc d)"
    "notifications t = notifications s" by (rule control_serving [OF Suc.prems(1)]) (use Suc.prems(2) in auto)
  with Suc.IH [OF t(2)] Suc.prems(2) show ?case by (simp add: step_of_def)
qed

lemma callback_drains:
  "serving s n a d \<Longrightarrow> d < 2 ^ 32 \<Longrightarrow> n \<noteq> 0 \<Longrightarrow> \<exists>s'. run_events hal_step (replicate d Callback_turn) s = Some s' \<and>
    serving s' n a 0 \<and> notifications s' = notifications s @ replicate d (n, CAMERA_TAKE_PICTURE_DONE, 1, 0)"
proof (induction d arbitrary: s)
  case 0
  then show ?case by simp
next
  case (Suc d)
  obtain t where t: "run_state (CallbackThread_threadLoop (CallbackThread_mInstance s)) s = (Inr (), t)" "serving t n a d"
    "notifications t = notifications s @ [(n, CAMERA_TAKE_PICTURE_DONE, 1, 0)]"
    by (rule callback_serving [OF Suc.prems(1,2,3)])
  with Suc.IH [OF t(2)] Suc.prems(2,3) show ?case by (auto simp: step_of_def)
qed

text \<open>
  C11.  After the module was opened and the client registered its notify function, every picture asked for
  is reported to it exactly once, whatever the order of the requests and of the turns of the two
  threads: at every moment as many notifications were made as the callback thread did turns, never more
  than pictures were asked for, and the turns the threads have left can be done and bring the number of
  notifications to the number of requests.
\<close>

theorem camera_pictures_reported:
  assumes "creating E" "n \<noteq> 0" "length es < 2 ^ 32"
    "run_events hal_step es (exec (open_camera E n d) hal_initial) = Some s"
  shows "result (open_camera E n d) hal_initial = Inr 0 \<and>
    notifications s = replicate (count_list es Callback_turn) (n, CAMERA_TAKE_PICTURE_DONE, 1, 0) \<and>
    count_list es Callback_turn \<le> count_list es Control_turn \<and>
    count_list es Control_turn \<le> count_list es Take_picture \<and>
    (\<exists>s'. run_events hal_step
        (replicate (count_list es Take_picture - count_list es Control_turn) Control_turn @
         replicate (count_list es Take_picture - count_list es Callback_turn) Callback_turn) s = Some s' \<and>
      notifications s' = replicate (count_list es Take_picture) (n, CAMERA_TAKE_PICTURE_DONE, 1, 0))"
proof -
  obtain s0 where s0: "run_state (open_camera E n d) hal_initial = (Inr 0, s0)" "serving s0 n 0 0" "notifications s0 = []"
    by (rule open_serving [OF assms(1)])
  have run: "run_events hal_step es s0 = Some s" using assms(4) s0(1) by simp
  obtain a b where a: "serving s n a b" "a + count_list es Control_turn = count_list es Take_picture"
      "b + count_list es Callback_turn = count_list es Control_turn"
      "notifications s = replicate (count_list es Callback_turn) (n, CAMERA_TAKE_PICTURE_DONE, 1, 0)"
    using run_serving [OF s0(2) assms(2) _ run] assms(3) s0(3) by auto
  have "a + b \<le> length es"
    using a(2,3) count_le_length [of es Take_picture] by linarith
  then have small: "a + b < 2 ^ 32" using assms(3) by linarith
  obtain t where t: "run_events hal_step (replicate a Control_turn) s = Some t" "serving t n 0 (a + b)"
      "notifications t = notifications s"
    using control_drains [OF a(1) small] by blast
  obtain u where u: "run_events hal_step (replicate (a + b) Callback_turn) t = Some u"
      "notifications u = notifications t @ replicate (a + b) (n, CAMERA_TAKE_PICTURE_DONE, 1, 0)"
    using callback_drains [OF t(2) small assms(2)] by blast
  have "count_list es Take_picture - count_list es Control_turn = a"
    "count_list es Take_picture - count_list es Callback_turn = a + b"
    "count_list es Take_picture = count_list es Callback_turn + (a + b)"
    using a(2,3) by auto
  with s0(1) a t u show ?thesis
    by (auto simp: run_events_append replicate_add)
qed

theorem camera_pictures_reported_witness:
  "\<exists>s s'. run_events hal_step [Take_picture, Take_picture, Control_turn, Callback_turn]
      (exec (open_camera (\<lambda>_ _. 0) 7 8) hal_initial) = Some s \<and>
    notifications s = [(7, 2, 1, 0)] \<and>
    run_events hal_step [Control_turn, Callback_turn] s = Some s' \<and>
    notifications s' = [(7, 2, 1, 0), (7, 2, 1, 0)]"
proof -
  let ?es = "[Take_picture, Take_picture, Control_turn, Callback_turn]"
  have cr: "creating (\<lambda>_ _. 0)" by (simp add: creating_def)
  obtain s0 where 0: "run_state (open_camera (\<lambda>_ _. 0) 7 8) hal_initial = (Inr 0, s0)" "serving s0 7 0 0"
    by (rule open_serving [OF cr, of 7 8])
  obtain s1 where 1: "run_state toy_camera_take_picture s0 = (Inr ERROR_NONE, s1)" "serving s1 7 1 0"
    by (rule take_serving [OF 0(2)]) simp
  obtain s2 where 2: "run_state toy_camera_take_picture s1 = (Inr ERROR_NONE, s2)" "serving s2 7 (Suc 1) 0"
    by (rule take_serving [OF 1(2)])
  obtain s3 where 3: "run_state (ControlThread_threadLoop (the_control_thread s2)) s2 = (Inr (), s3)" "serving s3 7 1 (Suc 0)"
    by (rule control_serving [OF 2(2)]) simp_all
  obtain s4 where 4: "run_state (CallbackThread_threadLoop (CallbackThread_mInstance s3)) s3 = (Inr (), s4)"
    by (rule callback_serving [OF 3(2)]) simp_all
  have run: "run_events hal_step ?es (exec (open_camera (\<lambda>_ _. 0) 7 8) hal_initial) = Some s4"
    using 0(1) 1(1) 2(1) 3(1) 4 by (simp add: step_of_def)
  have "(7 :: nat) \<noteq> 0" "length ?es < 2 ^ 32" by simp_all
  from camera_pictures_reported [OF cr this run] run show ?thesis
    by (auto simp: CAMERA_TAKE_PICTURE_DONE_def simp del: run_events.simps)
qed

section \<open>What the system server does with the module\<close>

text \<open>The calls of the module in a trace, and what they do, one after the other.\<close>

fun camera_calls :: "(ucall \<times> int) list \<Rightarrow> string list" where
  "camera_calls [] = []"
| "camera_calls ((Process (Camera name), r) # h) = name # camera_calls h"
| "camera_calls (_ # h) = camera_calls h"

lemma camera_calls_append [simp]: "camera_calls (g @ h) = camera_calls g @ camera_calls h"
  by (induction g rule: camera_calls.induct) simp_all

primrec module_calls :: "'s hw_module_t \<Rightarrow> string list \<Rightarrow> ('s, unit outcome) state" where
  "module_calls M [] = State_Monad.return (Inr ())"
| "module_calls M (name # names) = then_do (call_module M name) (\<lambda>_. module_calls M names)"

text \<open>The call a message makes, if any.\<close>

definition camera_request :: "toy_msg_t \<Rightarrow> string option" where
  "camera_request msg =
     (if msg_type msg = CAMERA_TAKE_PICTURE then Some ''take_picture''
      else if msg_type msg = DUMP_STATE then Some ''dump'' else None)"

lemma receive_camera_calls:
  assumes "receiving E"
  shows "camera_calls (trace (exec (receive_loop E camera_queue (serve_camera E) msgs) s)) =
    camera_calls (trace s) @ List.map_filter camera_request msgs"
proof (induction msgs arbitrary: s)
  case Nil
  then show ?case by (simp add: map_filter_simps)
next
  case (Cons msg msgs)
  have "0 \<le> E h (Queue (MqReceive q))" for h q using assms by (simp add: receiving_def)
  then show ?case
    using Cons.IH by (simp add: exec_simps serve_camera_def camera_request_def perform_def map_filter_simps)
qed

lemma service_camera_calls:
  assumes "receiving E" "\<And>h. E h (Process (Dlopen ''./libcamera.so'')) \<noteq> 0" "\<And>h. E h (Process (Dlsym ''HMI'')) \<noteq> 0"
  shows "camera_calls (trace (exec (camera_service_thread E msgs) system_initial)) = List.map_filter camera_request msgs"
  using assms(2,3) receive_camera_calls [OF assms(1), of msgs]
  by (simp add: camera_service_thread_def hw_get_camera_module_def load_def exec_simps system_initial_def)

lemma unopened_module:
  "run_state (module_calls (HAL_MODULE_INFO_SYM E) (List.map_filter camera_request msgs)) hal_initial =
    (if \<exists>msg \<in> set msgs. msg_type msg = CAMERA_TAKE_PICTURE then Inl Bad_access else Inr (), hal_initial)"
proof (induction msgs)
  case Nil
  then show ?case by (simp add: map_filter_simps exec_simps)
next
  case (Cons msg msgs)
  then show ?case
    by (simp add: map_filter_simps camera_request_def call_module_def HAL_MODULE_INFO_SYM_def toy_camera_dump_def
      toy_camera_take_picture_def ControlThread_takePicture_def ControlThread_send_def exec_simps hal_initial_def)
qed

text \<open>
  C15.  The camera thread of the system server loads the module and never opens it: the calls it makes are
  requests for pictures and for the dump, one per message and in order, and run on the library as it was
  loaded they go through the null pointer \<^verbatim>\<open>control_thread\<close> as soon as one message asks for a picture.
  Messages that ask for the dump only, or for nothing, do no harm.
\<close>

theorem camera_never_opened:
  assumes "receiving E" "\<And>h. E h (Process (Dlopen ''./libcamera.so'')) \<noteq> 0" "\<And>h. E h (Process (Dlsym ''HMI'')) \<noteq> 0"
  shows "let calls = camera_calls (trace (exec (camera_service_thread E msgs) system_initial)) in
    calls = List.map_filter camera_request msgs \<and>
    result (module_calls (HAL_MODULE_INFO_SYM E) calls) hal_initial =
      (if list_ex (\<lambda>msg. msg_type msg = CAMERA_TAKE_PICTURE) msgs then Inl Bad_access else Inr ())"
  by (simp add: service_camera_calls [OF assms] unopened_module list_ex_iff)

theorem camera_never_opened_witness:
  "let msgs = [\<lparr>msg_type = DUMP_STATE, param1 = 0, param2 = 0\<rparr>,
        \<lparr>msg_type = CAMERA_TAKE_PICTURE, param1 = 0, param2 = 0\<rparr>];
       calls = camera_calls (trace (exec (camera_service_thread (\<lambda>_ _. 1) msgs) system_initial)) in
    calls = [''dump'', ''take_picture''] \<and> result (module_calls (HAL_MODULE_INFO_SYM (\<lambda>_ _. 1)) calls) hal_initial = Inl Bad_access"
  using camera_never_opened [of "\<lambda>_ _. 1" "[\<lparr>msg_type = DUMP_STATE, param1 = 0, param2 = 0\<rparr>,
        \<lparr>msg_type = CAMERA_TAKE_PICTURE, param1 = 0, param2 = 0\<rparr>]"]
  by (auto simp: receiving_def map_filter_simps camera_request_def DUMP_STATE_def CAMERA_TAKE_PICTURE_def Let_def
    simp del: module_calls.simps)

section \<open>The end of the threads\<close>

text \<open>
  The message that asks a thread to end is none its loop knows: the loop rejects it and goes on, so
  \<^verbatim>\<open>requestExitAndWait\<close> ends nothing.
\<close>

theorem exit_rejected:
  assumes "callback_thread_at s p = Some t" "queue_holds (cb_queue t) []"
  obtains s' q where "run_state (then_do (CallbackThread_requestExitAndWait p) (\<lambda>_. CallbackThread_waitForAndExecuteMessage p)) s =
      (Inr BAD_VALUE, s')" "callback_thread_at s' p = Some (t\<lparr>cb_queue := q\<rparr>)" "queue_holds q []"
proof -
  obtain q where q: "send (message_of MESSAGE_EXIT) (- 1) (cb_queue t) = Some (Some ERROR_NONE, q)"
      "queue_holds q [message_of MESSAGE_EXIT]"
    by (rule send_holds [OF assms(2), of "message_of MESSAGE_EXIT"]) (use that in auto)
  obtain r where r: "receive q = Some (Some (message_of MESSAGE_EXIT), r)" "queue_holds r []"
    by (rule receive_holds [OF q(2)]) (use that in auto)
  let ?s = "s\<lparr>callback_thread_at := (callback_thread_at s)(p \<mapsto> t\<lparr>cb_queue := r\<rparr>)\<rparr>"
  show thesis
    by (rule that [of ?s r]) (use assms(1) q(1) r in
      \<open>simp_all add: CallbackThread_requestExitAndWait_def CallbackThread_send_def message_of_def MESSAGE_EXIT_def
        CallbackThread_waitForAndExecuteMessage_def MESSAGE_TAKE_PICTURE_DONE_def exec_simps\<close>)
qed

text \<open>
  Opening the module when the callback thread cannot be started: the status is \<open>-1\<close>, both objects are
  deleted and the singletons forgotten, but \<^verbatim>\<open>control_thread\<close> still points to a control thread whose own
  pointers are dangling, so registering callbacks afterwards, which only tests \<^verbatim>\<open>control_thread\<close>, uses a
  deleted object.
\<close>

theorem camera_open_failed:
  assumes "\<And>h. E h (Process (PthreadCreate ''CallbackThread'')) \<noteq> 0"
  shows "\<exists>s. run_state (toy_camera_open E) hal_initial = (Inr (- 1), s) \<and>
    callbacks_at s = Map.empty \<and> callback_thread_at s = Map.empty \<and>
    Callbacks_mInstance s = 0 \<and> CallbackThread_mInstance s = 0 \<and> the_control_thread s \<noteq> 0 \<and>
    result (toy_camera_set_callbacks n d) s = Inl Bad_access"
proof -
  obtain cq :: "hal_message message_queue" where cq: "MessageQueue CONTROL_MESSAGE_ID_MAX = Some cq"
    by (rule new_queue_holds [of CONTROL_MESSAGE_ID_MAX])
  obtain bq :: "hal_message message_queue" where bq: "MessageQueue CALLBACK_MESSAGE_ID_MAX = Some bq" "queue_holds bq []"
    by (rule new_queue_holds [of CALLBACK_MESSAGE_ID_MAX])
  obtain q where q: "send (message_of MESSAGE_EXIT) (- 1) bq = Some (Some ERROR_NONE, q)"
      "queue_holds q [message_of MESSAGE_EXIT]"
    by (rule send_holds [OF bq(2), of "message_of MESSAGE_EXIT"]) (use that in auto)
  obtain r where r: "delete_MessageQueue q = Some r"
    by (rule delete_queue_holds [OF q(2)])
  note run = toy_camera_open_def new_ControlThread_def ControlThread_init_def Callbacks_getInstance_def
    CallbackThread_getInstance_def Thread_Start_def bail_def ControlThread_deinit_def CallbackThread_requestExitAndWait_def
    CallbackThread_send_def delete_CallbackThread_def Thread_Join_def delete_Callbacks_def
    toy_camera_set_callbacks_def ControlThread_setCallbacks_def
    Callbacks_setCallbacks_def hal_initial_def exec_simps cq bq(1) q(1) r ERROR_NONE_def
  show ?thesis
    using assms by (simp add: run)
qed

theorem camera_open_failed_witness:
  "\<exists>s. run_state (toy_camera_open (\<lambda>_ _. 11)) hal_initial = (Inr (- 1), s) \<and> the_control_thread s \<noteq> 0 \<and>
    result (toy_camera_set_callbacks 7 8) s = Inl Bad_access"
  using camera_open_failed [of "\<lambda>_ _. 11" 7 8] by auto

text \<open>Taking the library down while the callback thread runs waits for that thread for ever.\<close>

theorem deinit_hangs:
  assumes "control_thread_at s p = Some c" "mCallbackThread c \<noteq> 0" "callback_thread_at s (mCallbackThread c) = Some t"
    "cb_created t" "queue_holds (cb_queue t) ms"
  shows "result (ControlThread_deinit p) s = Inl Hang"
proof -
  obtain q where q: "send (message_of MESSAGE_EXIT) (- 1) (cb_queue t) = Some (Some ERROR_NONE, q)"
      "queue_holds q (ms @ [message_of MESSAGE_EXIT])"
    by (rule send_holds [OF assms(5), of "message_of MESSAGE_EXIT"])
  obtain r where "delete_MessageQueue q = Some r"
    by (rule delete_queue_holds [OF q(2)])
  with assms q(1) show ?thesis
    by (simp add: ControlThread_deinit_def CallbackThread_requestExitAndWait_def CallbackThread_send_def
      delete_CallbackThread_def Thread_Join_def exec_simps)
qed

end
