(* ===== verification/Camera_Vendors.thy ===== *)
theory Camera_Vendors
  imports Camera_Hal
begin

text \<open>
  The other camera libraries, \<^verbatim>\<open>src/hal/oem\<close> and \<^verbatim>\<open>src/hal/old\<close>, and the contract all libraries share.  The control
  thread of these two is an object without members, so what they do is what they print: the lines are
  kept in \<open>cout\<close>.  The older library exports the functions but no module table.
\<close>

section \<open>The libraries\<close>

record vendor_state =
  cout :: "string list"
  next_thread :: nat
  vendor_control_thread :: nat

definition vendor_initial :: vendor_state where
  "vendor_initial = \<lparr>cout = [], next_thread = 1, vendor_control_thread = 0\<rparr>"

type_synonym 'a vendor_prog = "(vendor_state, 'a outcome) state"

definition print :: "string \<Rightarrow> unit vendor_prog" where
  "print line = State (\<lambda>s. (Inr (), s\<lparr>cout := cout s @ [line]\<rparr>))"

definition answer :: "'a \<Rightarrow> 'a vendor_prog" where
  "answer x = State_Monad.return (Inr x)"

definition new_thread :: "nat vendor_prog" where
  "new_thread = State (\<lambda>s. (Inr (next_thread s), s\<lparr>next_thread := next_thread s + 1\<rparr>))"

definition set_thread :: "nat \<Rightarrow> unit vendor_prog" where
  "set_thread p = State (\<lambda>s. (Inr (), s\<lparr>vendor_control_thread := p\<rparr>))"

text \<open>\<^verbatim>\<open>src/hal/oem\<close>.\<close>

definition oem_ControlThread :: "nat vendor_prog" where
  "oem_ControlThread = then_do new_thread (\<lambda>p. then_do (print ''OEM: C++ AREA'') (\<lambda>_. answer p))"

definition oem_takePicture :: "int vendor_prog" where
  "oem_takePicture = then_do (print ''OEM: Taking picture'') (\<lambda>_. answer 0)"

definition oem_dump :: "int vendor_prog" where
  "oem_dump = then_do (print ''OEM: Camera Dump'') (\<lambda>_. answer 0)"

definition oem_camera_open :: "int vendor_prog" where
  "oem_camera_open = then_do (print ''toy_camera_open'') (\<lambda>_.
     then_do oem_ControlThread (\<lambda>p.
     then_do (set_thread p) (\<lambda>_.
     if p = 0 then then_do (print ''Memory allocation error! '') (\<lambda>_. answer (- ENOMEM))
     else answer 0)))"

text \<open>The methods are not virtual and touch no member, so they do not look at the pointer.\<close>

definition oem_camera_take_picture :: "int vendor_prog" where
  "oem_camera_take_picture = oem_takePicture"

definition oem_camera_dump :: "int vendor_prog" where
  "oem_camera_dump = oem_dump"

definition OEM_MODULE_INFO_SYM :: "vendor_state hw_module_t" where
  "OEM_MODULE_INFO_SYM =
     \<lparr>hw_tag = HARDWARE_MODULE_TAG, hw_id = CAMERA_HARDWARE_MODULE_ID, hw_name = ''OEM Camera Hardware Module'',
      hw_open = oem_camera_open, hw_take_picture = oem_camera_take_picture, hw_dump = oem_camera_dump,
      hw_set_callbacks = None\<rparr>"

text \<open>\<^verbatim>\<open>src/hal/old\<close>.\<close>

definition old_ControlThread :: "nat vendor_prog" where
  "old_ControlThread = then_do new_thread (\<lambda>p. then_do (print ''C++ constuctor'') (\<lambda>_. answer p))"

definition old_takePicture :: "int vendor_prog" where
  "old_takePicture = then_do (print ''c++ takePicture()'') (\<lambda>_. answer 0)"

definition old_dump :: "int vendor_prog" where
  "old_dump = then_do (print ''C++ connection : camera dump'') (\<lambda>_. answer 0)"

definition old_camera_open :: "int vendor_prog" where
  "old_camera_open = then_do (print ''toy_camera_open'') (\<lambda>_.
     then_do old_ControlThread (\<lambda>p.
     then_do (set_thread p) (\<lambda>_.
     if p = 0 then then_do (print ''Memory allocation error!'') (\<lambda>_. answer (- ENOMEM))
     else answer 0)))"

definition old_camera_take_picture :: "int vendor_prog" where
  "old_camera_take_picture = old_takePicture"

definition old_camera_dump :: "int vendor_prog" where
  "old_camera_dump = old_dump"

lemma run_vendor [exec_simps]:
  "run_state (print line) s = (Inr (), s\<lparr>cout := cout s @ [line]\<rparr>)"
  "run_state (answer x) s = (Inr x, s)"
  "run_state new_thread s = (Inr (next_thread s), s\<lparr>next_thread := next_thread s + 1\<rparr>)"
  "run_state (set_thread p) s = (Inr (), s\<lparr>vendor_control_thread := p\<rparr>)"
  by (simp_all add: print_def answer_def new_thread_def set_thread_def)

lemmas oem_defs = oem_ControlThread_def oem_takePicture_def oem_dump_def oem_camera_open_def
  oem_camera_take_picture_def oem_camera_dump_def OEM_MODULE_INFO_SYM_def

lemmas old_defs = old_ControlThread_def old_takePicture_def old_dump_def old_camera_open_def
  old_camera_take_picture_def old_camera_dump_def

section \<open>The contract of a camera module\<close>

text \<open>
  A module can be opened, and from then on accepts requests for pictures and for the dump; \<open>accepted\<close>
  counts the pictures asked for.
\<close>

locale camera_module =
  fixes M :: "'s hw_module_t" and initial :: 's and accepted :: "'s \<Rightarrow> nat \<Rightarrow> bool"
  assumes opens: "\<exists>s. run_state (call_module M ''open'') initial = (Inr 0, s) \<and> accepted s 0"
    and takes: "accepted s k \<Longrightarrow> \<exists>s'. run_state (call_module M ''take_picture'') s = (Inr 0, s') \<and> accepted s' (Suc k)"
    and dumps: "accepted s k \<Longrightarrow> \<exists>s'. run_state (call_module M ''dump'') s = (Inr 0, s') \<and> accepted s' k"
begin

lemma calls_accepted:
  "accepted s k \<Longrightarrow> set names \<subseteq> {''take_picture'', ''dump''} \<Longrightarrow>
    \<exists>s'. run_state (module_calls M names) s = (Inr (), s') \<and> accepted s' (k + count_list names ''take_picture'')"
proof (induction names arbitrary: s k)
  case Nil
  then show ?case by simp
next
  case (Cons name names)
  consider "name = ''take_picture''" | "name = ''dump''" using Cons.prems(2) by auto
  then show ?case
  proof cases
    case 1
    obtain t where t: "run_state (call_module M ''take_picture'') s = (Inr 0, t)" "accepted t (Suc k)"
      using takes [OF Cons.prems(1)] by blast
    with Cons.IH [OF t(2)] Cons.prems(2) 1 show ?thesis by (simp add: run_then_do)
  next
    case 2
    obtain t where t: "run_state (call_module M ''dump'') s = (Inr 0, t)" "accepted t k"
      using dumps [OF Cons.prems(1)] by blast
    with Cons.IH [OF t(2)] Cons.prems(2) 2 show ?thesis by (simp add: run_then_do)
  qed
qed

lemma session_accepted:
  assumes "set names \<subseteq> {''take_picture'', ''dump''}"
  shows "\<exists>s. run_state (module_calls M (''open'' # names)) initial = (Inr (), s) \<and>
    accepted s (count_list names ''take_picture'')"
proof -
  obtain s where s: "run_state (call_module M ''open'') initial = (Inr 0, s)" "accepted s 0"
    using opens by blast
  from calls_accepted [OF s(2) assms] s(1) show ?thesis by (auto simp: run_then_do)
qed

end

definition oem_accepted :: "vendor_state \<Rightarrow> nat \<Rightarrow> bool" where
  "oem_accepted s k \<longleftrightarrow> count_list (cout s) ''OEM: Taking picture'' = k"

interpretation oem: camera_module OEM_MODULE_INFO_SYM vendor_initial oem_accepted
  by unfold_locales
    (simp_all add: call_module_def oem_defs oem_accepted_def vendor_initial_def exec_simps)

text \<open>The library with threads keeps the contract wherever its threads can be created.\<close>

locale camera_threads =
  fixes E :: uenv
  assumes creating: "creating E"

definition toy_accepted :: "hal_state \<Rightarrow> nat \<Rightarrow> bool" where
  "toy_accepted s k \<longleftrightarrow> serving s 0 k 0"

sublocale camera_threads \<subseteq> toy: camera_module "HAL_MODULE_INFO_SYM E" hal_initial toy_accepted
proof
  show "\<exists>s. run_state (call_module (HAL_MODULE_INFO_SYM E) ''open'') hal_initial = (Inr 0, s) \<and> toy_accepted s 0"
    using toy_open_serving [OF creating] by (auto simp: call_module_def HAL_MODULE_INFO_SYM_def toy_accepted_def)
  show "\<exists>s'. run_state (call_module (HAL_MODULE_INFO_SYM E) ''take_picture'') s = (Inr 0, s') \<and> toy_accepted s' (Suc k)"
    if "toy_accepted s k" for s k
    by (rule take_serving [of s 0 k 0])
      (use that in \<open>auto simp: call_module_def HAL_MODULE_INFO_SYM_def toy_accepted_def ERROR_NONE_def\<close>)
  show "\<exists>s'. run_state (call_module (HAL_MODULE_INFO_SYM E) ''dump'') s = (Inr 0, s') \<and> toy_accepted s' k"
    if "toy_accepted s k" for s k
    using that by (simp add: call_module_def HAL_MODULE_INFO_SYM_def toy_camera_dump_def exec_simps)
qed

context camera_threads
begin

lemma toy_session:
  assumes "set names \<subseteq> {''take_picture'', ''dump''}"
  shows "\<exists>s ct. run_state (module_calls (HAL_MODULE_INFO_SYM E) (''open'' # names)) hal_initial = (Inr (), s) \<and>
      control_thread_at s (the_control_thread s) = Some ct \<and>
      queue_contents (ct_queue ct) = replicate (count_list names ''take_picture'') (message_of MESSAGE_ID_TAKE_PICTURE)"
  using toy.session_accepted [OF assms] by (auto simp: toy_accepted_def serving_def queue_holds_contents)

end

interpretation threads: camera_threads "\<lambda>_ _. 0"
  by unfold_locales (simp add: creating_def)

section \<open>Sessions\<close>

text \<open>
  C16.  What the module interface promises holds of both libraries: a client that opens the module can ask
  for pictures and dumps in any order, every call succeeds, and no request is lost: the library with
  threads has one message per picture in the queue of its control thread, the other one has printed a
  line for each.
\<close>

theorem camera_sessions:
  assumes "creating E" "set names \<subseteq> {''take_picture'', ''dump''}"
  shows "(\<exists>s ct. run_state (module_calls (HAL_MODULE_INFO_SYM E) (''open'' # names)) hal_initial = (Inr (), s) \<and>
      control_thread_at s (the_control_thread s) = Some ct \<and>
      queue_contents (ct_queue ct) = replicate (count_list names ''take_picture'') (message_of MESSAGE_ID_TAKE_PICTURE)) \<and>
    (\<exists>s. run_state (module_calls OEM_MODULE_INFO_SYM (''open'' # names)) vendor_initial = (Inr (), s) \<and>
      count_list (cout s) ''OEM: Taking picture'' = count_list names ''take_picture'')"
proof
  have c: "camera_threads E" using assms(1) by unfold_locales
  show "\<exists>s ct. run_state (module_calls (HAL_MODULE_INFO_SYM E) (''open'' # names)) hal_initial = (Inr (), s) \<and>
      control_thread_at s (the_control_thread s) = Some ct \<and>
      queue_contents (ct_queue ct) = replicate (count_list names ''take_picture'') (message_of MESSAGE_ID_TAKE_PICTURE)"
    by (rule camera_threads.toy_session [OF c assms(2)])
  show "\<exists>s. run_state (module_calls OEM_MODULE_INFO_SYM (''open'' # names)) vendor_initial = (Inr (), s) \<and>
      count_list (cout s) ''OEM: Taking picture'' = count_list names ''take_picture''"
    using oem.session_accepted [OF assms(2)] by (simp add: oem_accepted_def)
qed

theorem camera_sessions_witness:
  "(\<exists>s ct. run_state (module_calls (HAL_MODULE_INFO_SYM (\<lambda>_ _. 0)) [''open'', ''take_picture'', ''dump'', ''take_picture''])
      hal_initial = (Inr (), s) \<and> control_thread_at s (the_control_thread s) = Some ct \<and>
      queue_contents (ct_queue ct) = [message_of 1, message_of 1]) \<and>
    (\<exists>s. run_state (module_calls OEM_MODULE_INFO_SYM [''open'', ''take_picture'', ''dump'', ''take_picture'']) vendor_initial =
      (Inr (), s) \<and> count_list (cout s) ''OEM: Taking picture'' = 2)"
  using camera_sessions [of "\<lambda>_ _. 0" "[''take_picture'', ''dump'', ''take_picture'']"]
  by (simp add: creating_def MESSAGE_ID_TAKE_PICTURE_def numeral_2_eq_2 del: module_calls.simps)

text \<open>What a message to the camera thread makes this library print.\<close>

definition oem_line :: "toy_msg_t \<Rightarrow> string option" where
  "oem_line msg =
     (if msg_type msg = CAMERA_TAKE_PICTURE then Some ''OEM: Taking picture''
      else if msg_type msg = DUMP_STATE then Some ''OEM: Camera Dump'' else None)"

lemma oem_requests:
  "run_state (module_calls OEM_MODULE_INFO_SYM (List.map_filter camera_request msgs)) s =
    (Inr (), s\<lparr>cout := cout s @ List.map_filter oem_line msgs\<rparr>)"
  by (induction msgs arbitrary: s)
    (simp_all add: map_filter_simps camera_request_def oem_line_def call_module_def oem_defs exec_simps)

lemma oem_callbacks: "result (set_callbacks OEM_MODULE_INFO_SYM n d) s = Inl Bad_access"
  by (simp add: set_callbacks_def OEM_MODULE_INFO_SYM_def)

text \<open>
  With the library of the other vendor the camera thread of the system server works although it never
  opens the module: whatever messages arrive, every call succeeds and prints its line, in the order of
  the messages.  Registering callbacks at that module would call a function that is not there.
\<close>

theorem camera_oem_serves:
  assumes "receiving E" "\<And>h. E h (Process (Dlopen ''./libcamera.so'')) \<noteq> 0" "\<And>h. E h (Process (Dlsym ''HMI'')) \<noteq> 0"
  shows "run_state (module_calls OEM_MODULE_INFO_SYM
      (camera_calls (trace (exec (camera_service_thread E msgs) system_initial)))) vendor_initial =
        (Inr (), vendor_initial\<lparr>cout := List.map_filter oem_line msgs\<rparr>) \<and>
    result (set_callbacks OEM_MODULE_INFO_SYM n d) s = Inl Bad_access"
  by (simp add: service_camera_calls [OF assms] oem_requests oem_callbacks vendor_initial_def)

theorem camera_oem_serves_witness:
  "run_state (module_calls OEM_MODULE_INFO_SYM (camera_calls (trace (exec (camera_service_thread (\<lambda>_ _. 1)
      [\<lparr>msg_type = CAMERA_TAKE_PICTURE, param1 = 0, param2 = 0\<rparr>]) system_initial)))) vendor_initial =
    (Inr (), vendor_initial\<lparr>cout := [''OEM: Taking picture'']\<rparr>)"
  using camera_oem_serves [of "\<lambda>_ _. 1" "[\<lparr>msg_type = CAMERA_TAKE_PICTURE, param1 = 0, param2 = 0\<rparr>]"]
  by (simp add: receiving_def map_filter_simps oem_line_def)

section \<open>The older library\<close>

text \<open>It does what the library of the other vendor does, with lines of its own.\<close>

definition old_line :: "string \<Rightarrow> string" where
  "old_line line =
     (if line = ''OEM: C++ AREA'' then ''C++ constuctor''
      else if line = ''OEM: Taking picture'' then ''c++ takePicture()''
      else if line = ''OEM: Camera Dump'' then ''C++ connection : camera dump''
      else if line = ''Memory allocation error! '' then ''Memory allocation error!''
      else line)"

definition old_view :: "vendor_state \<Rightarrow> vendor_state" where
  "old_view s = s\<lparr>cout := map old_line (cout s)\<rparr>"

lemma old_simulates:
  "run_state old_camera_open (old_view s) = map_prod id old_view (run_state oem_camera_open s)"
  "run_state old_camera_take_picture (old_view s) = map_prod id old_view (run_state oem_camera_take_picture s)"
  "run_state old_camera_dump (old_view s) = map_prod id old_view (run_state oem_camera_dump s)"
  by (simp_all add: old_defs oem_defs old_view_def old_line_def exec_simps)

end
