(* ===== verification/Queue_Threads.thy ===== *)
theory Queue_Threads
  imports Message_Queue "HOL-Library.Multiset"
begin

text \<open>
  The message queue under threads.  \<open>Message_Queue\<close> takes what \<^verbatim>\<open>send\<close> and \<^verbatim>\<open>receive\<close> of \<^verbatim>\<open>src/hal/include/MessageQueue.h\<close> do
  under the mutex as one step; here any number of senders and receivers run statement by statement, with
  the mutex and the condition variable of \<^verbatim>\<open>Mutex.h\<close> and \<^verbatim>\<open>Condition.h\<close> between them.  A thread is where it is
  in the function it calls; the two logs say what was put into the queue and taken out of it.
\<close>

section \<open>Threads\<close>

datatype 'm pc =
    Send_lock 'm | Send_push 'm | Send_signal | Send_unlock | Sent
  | Recv_lock | Recv_check | Recv_waiting | Recv_woken | Recv_take | Recv_unlock 'm | Received 'm
  | Crashed

record 'm queue_threads =
  the_queue :: "'m message_queue"
  mQueueMutex :: "nat option"
  threads :: "'m pc list"
  sent_log :: "'m list"
  taken_log :: "'m list"

definition goto :: "nat \<Rightarrow> 'm pc \<Rightarrow> 'm queue_threads \<Rightarrow> 'm queue_threads" where
  "goto t p s = s\<lparr>threads := (threads s)[t := p]\<rparr>"

text \<open>The mutex; a thread that cannot lock it does no step.\<close>

definition Mutex_lock :: "nat \<Rightarrow> 'm queue_threads \<Rightarrow> 'm queue_threads list" where
  "Mutex_lock t s = (case mQueueMutex s of None \<Rightarrow> [s\<lparr>mQueueMutex := Some t\<rparr>] | Some _ \<Rightarrow> [])"

definition Mutex_unlock :: "'m queue_threads \<Rightarrow> 'm queue_threads" where
  "Mutex_unlock s = s\<lparr>mQueueMutex := None\<rparr>"

text \<open>
  The condition variable: waiting releases the mutex in the same step; a signal wakes one of the threads
  that wait, if there are any, and the woken thread has to lock the mutex again.
\<close>

primrec waits :: "'m pc \<Rightarrow> bool" where
  "waits (Send_lock m) = False" | "waits (Send_push m) = False" | "waits Send_signal = False"
| "waits Send_unlock = False" | "waits Sent = False" | "waits Recv_lock = False" | "waits Recv_check = False"
| "waits Recv_waiting = True" | "waits Recv_woken = False" | "waits Recv_take = False"
| "waits (Recv_unlock m) = False" | "waits (Received m) = False" | "waits Crashed = False"

definition Condition_wait :: "nat \<Rightarrow> 'm queue_threads \<Rightarrow> 'm queue_threads" where
  "Condition_wait t s = goto t Recv_waiting (Mutex_unlock s)"

definition Condition_signal :: "'m queue_threads \<Rightarrow> 'm queue_threads list" where
  "Condition_signal s = (case filter (\<lambda>w. waits (threads s ! w)) [0..<length (threads s)] of
     [] \<Rightarrow> [s] | ws \<Rightarrow> map (\<lambda>w. goto w Recv_woken s) ws)"

text \<open>
  What a thread does next: every state it can bring about.  An operation on the list that touches a node
  that is not there is a crash.
\<close>

fun step_at :: "nat \<Rightarrow> 'm pc \<Rightarrow> 'm queue_threads \<Rightarrow> 'm queue_threads list" where
  "step_at t (Send_lock m) s = map (goto t (Send_push m)) (Mutex_lock t s)"
| "step_at t (Send_push m) s = (case send m (- 1) (the_queue s) of
     Some (Some st, q) \<Rightarrow> [goto t Send_signal (s\<lparr>the_queue := q, sent_log := sent_log s @ [m]\<rparr>)]
   | _ \<Rightarrow> [goto t Crashed s])"
| "step_at t Send_signal s = map (goto t Send_unlock) (Condition_signal s)"
| "step_at t Send_unlock s = [goto t Sent (Mutex_unlock s)]"
| "step_at t Sent s = []"
| "step_at t Recv_lock s = map (goto t Recv_check) (Mutex_lock t s)"
| "step_at t Recv_check s = (case isEmptyLocked (the_queue s) of
     None \<Rightarrow> [goto t Crashed s]
   | Some e \<Rightarrow> [if e then Condition_wait t s else goto t Recv_take s])"
| "step_at t Recv_waiting s = []"
| "step_at t Recv_woken s = map (goto t Recv_check) (Mutex_lock t s)"
| "step_at t Recv_take s = (case receive (the_queue s) of
     Some (Some m, q) \<Rightarrow> [goto t (Recv_unlock m) (s\<lparr>the_queue := q, taken_log := taken_log s @ [m]\<rparr>)]
   | _ \<Rightarrow> [goto t Crashed s])"
| "step_at t (Recv_unlock m) s = [goto t (Received m) (Mutex_unlock s)]"
| "step_at t (Received m) s = []"
| "step_at t Crashed s = []"

definition successors :: "'m queue_threads \<Rightarrow> 'm queue_threads list" where
  "successors s = concat (map (\<lambda>t. step_at t (threads s ! t) s) [0..<length (threads s)])"

text \<open>The calls the threads make, \<open>Some m\<close> for a \<^verbatim>\<open>send\<close>; a waiting thread may also wake up without a signal.\<close>

definition calling :: "'m message_queue \<Rightarrow> 'm option list \<Rightarrow> 'm queue_threads" where
  "calling q ops = \<lparr>the_queue = q, mQueueMutex = None,
     threads = map (\<lambda>op. case op of None \<Rightarrow> Recv_lock | Some m \<Rightarrow> Send_lock m) ops, sent_log = [], taken_log = []\<rparr>"

inductive thread_step :: "'m queue_threads \<Rightarrow> 'm queue_threads \<Rightarrow> bool" where
  program: "t < length (threads s) \<Longrightarrow> s' \<in> set (step_at t (threads s ! t) s) \<Longrightarrow> thread_step s s'"

inductive reached :: "'m queue_threads \<Rightarrow> 'm queue_threads \<Rightarrow> bool" for s0 where
  starting: "reached s0 s0"
| go: "reached s0 s \<Longrightarrow> thread_step s s' \<Longrightarrow> reached s0 s'"
| spurious: "reached s0 s \<Longrightarrow> t < length (threads s) \<Longrightarrow> threads s ! t = Recv_waiting \<Longrightarrow>
    reached s0 (goto t Recv_woken s)"

section \<open>Counting threads\<close>

lemma sum_list_map_update:
  fixes f :: "'a \<Rightarrow> 'b :: cancel_comm_monoid_add"
  shows "i < length xs \<Longrightarrow> sum_list (map f (xs[i := y])) + f (xs ! i) = sum_list (map f xs) + f y"
proof (induction xs arbitrary: i)
  case (Cons x xs)
  show ?case
  proof (cases i)
    case 0
    then show ?thesis by (simp add: ac_simps)
  next
    case (Suc j)
    with Cons show ?thesis by (simp add: add.assoc)
  qed
qed simp

definition total :: "('m pc \<Rightarrow> 'b :: comm_monoid_add) \<Rightarrow> 'm queue_threads \<Rightarrow> 'b" where
  "total f s = sum_list (map f (threads s))"

lemma total_goto:
  fixes f :: "'m pc \<Rightarrow> 'b :: cancel_comm_monoid_add"
  assumes "t < length (threads s)"
  shows "total f (goto t p s) + f (threads s ! t) = total f s + f p"
  using sum_list_map_update [OF assms, of f p] by (simp add: total_def goto_def)

lemma total_frame [simp]:
  "total f (s\<lparr>the_queue := q, sent_log := l\<rparr>) = total f s" "total f (s\<lparr>the_queue := q, taken_log := l\<rparr>) = total f s"
  "total f (s\<lparr>mQueueMutex := l'\<rparr>) = total f s" "total f (Mutex_unlock s) = total f s"
  by (simp_all add: total_def Mutex_unlock_def)

lemma goto_simps [simp]:
  "the_queue (goto t p s) = the_queue s" "mQueueMutex (goto t p s) = mQueueMutex s"
  "sent_log (goto t p s) = sent_log s" "taken_log (goto t p s) = taken_log s"
  "length (threads (goto t p s)) = length (threads s)"
  "t < length (threads s) \<Longrightarrow> threads (goto t p s) ! t = p"
  "t \<noteq> u \<Longrightarrow> threads (goto t p s) ! u = threads s ! u"
  by (simp_all add: goto_def)

lemma unlock_simps [simp]:
  "the_queue (Mutex_unlock s) = the_queue s" "mQueueMutex (Mutex_unlock s) = None" "threads (Mutex_unlock s) = threads s"
  "sent_log (Mutex_unlock s) = sent_log s" "taken_log (Mutex_unlock s) = taken_log s"
  by (simp_all add: Mutex_unlock_def)

text \<open>The threads that hold the mutex, have put or taken a message, wait, will look at the queue, or will signal.\<close>

definition inside :: "'m pc \<Rightarrow> nat" where
  "inside p = (case p of Send_push m \<Rightarrow> 1 | Send_signal \<Rightarrow> 1 | Send_unlock \<Rightarrow> 1 | Recv_check \<Rightarrow> 1
     | Recv_take \<Rightarrow> 1 | Recv_unlock m \<Rightarrow> 1 | _ \<Rightarrow> 0)"

definition has_put :: "'m pc \<Rightarrow> nat" where
  "has_put p = (case p of Send_signal \<Rightarrow> 1 | Send_unlock \<Rightarrow> 1 | Sent \<Rightarrow> 1 | _ \<Rightarrow> 0)"

definition waiting :: "'m pc \<Rightarrow> nat" where
  "waiting p = (case p of Recv_waiting \<Rightarrow> 1 | _ \<Rightarrow> 0)"

definition will_look :: "'m pc \<Rightarrow> nat" where
  "will_look p = (case p of Recv_lock \<Rightarrow> 1 | Recv_check \<Rightarrow> 1 | Recv_woken \<Rightarrow> 1 | Recv_take \<Rightarrow> 1 | _ \<Rightarrow> 0)"

definition will_signal :: "'m pc \<Rightarrow> nat" where
  "will_signal p = (case p of Send_signal \<Rightarrow> 1 | _ \<Rightarrow> 0)"

definition taking :: "'m pc \<Rightarrow> nat" where
  "taking p = (case p of Recv_take \<Rightarrow> 1 | _ \<Rightarrow> 0)"

definition crashes :: "'m pc \<Rightarrow> nat" where
  "crashes p = (case p of Crashed \<Rightarrow> 1 | _ \<Rightarrow> 0)"

text \<open>The message a thread still has to put, and the one it has taken.\<close>

definition to_put :: "'m pc \<Rightarrow> 'm multiset" where
  "to_put p = (case p of Send_lock m \<Rightarrow> {#m#} | Send_push m \<Rightarrow> {#m#} | _ \<Rightarrow> {#})"

definition obtained :: "'m pc \<Rightarrow> 'm multiset" where
  "obtained p = (case p of Recv_unlock m \<Rightarrow> {#m#} | Received m \<Rightarrow> {#m#} | _ \<Rightarrow> {#})"

lemmas weights = inside_def has_put_def waiting_def will_look_def will_signal_def taking_def crashes_def
  to_put_def obtained_def

text \<open>
  The invariant: the mutex is held by the one thread inside, the queue has what was put and not yet taken,
  and while a thread waits, every message in the queue is one that another thread is going to look for
  or to signal.
\<close>

definition queue_at :: "'m multiset \<Rightarrow> 'm list \<Rightarrow> 'm queue_threads \<Rightarrow> bool" where
  "queue_at K ms s \<longleftrightarrow> length (threads s) < 2 ^ 32 \<and>
     total inside s = (case mQueueMutex s of None \<Rightarrow> 0 | Some _ \<Rightarrow> 1) \<and>
     queue_holds (the_queue s) ms \<and> sent_log s = taken_log s @ ms \<and>
     (0 < total waiting s \<longrightarrow> length ms \<le> total will_look s + total will_signal s) \<and>
     (0 < total taking s \<longrightarrow> ms \<noteq> []) \<and>
     total has_put s = length (sent_log s) \<and> total crashes s = 0 \<and> total obtained s = mset (taken_log s) \<and>
     total to_put s + mset (sent_log s) = K"

definition queue_inv :: "'m multiset \<Rightarrow> 'm queue_threads \<Rightarrow> bool" where
  "queue_inv K s \<longleftrightarrow> (\<exists>ms. queue_at K ms s)"

lemma total_le: "(\<And>p. f p \<le> g p) \<Longrightarrow> total f s \<le> (total g s :: nat)"
  by (simp add: total_def sum_list_mono)

lemma total_le_length: "(\<And>p. f p \<le> 1) \<Longrightarrow> total f s \<le> length (threads s)"
  using sum_list_mono [of "threads s" f "\<lambda>_. 1"] by (simp add: total_def sum_list_triv)

lemma total_eq_0: "total f s = 0 \<longleftrightarrow> (\<forall>t < length (threads s). f (threads s ! t) = (0 :: nat))"
  by (simp add: total_def sum_list_eq_0_iff all_set_conv_all_nth)

text \<open>What the counters are after one thread moved on.\<close>

lemma totals:
  assumes "t < length (threads s)" "threads s ! t = p"
  shows "total inside (goto t p' s) + inside p = total inside s + inside p'"
    "total has_put (goto t p' s) + has_put p = total has_put s + has_put p'"
    "total waiting (goto t p' s) + waiting p = total waiting s + waiting p'"
    "total will_look (goto t p' s) + will_look p = total will_look s + will_look p'"
    "total will_signal (goto t p' s) + will_signal p = total will_signal s + will_signal p'"
    "total taking (goto t p' s) + taking p = total taking s + taking p'"
    "total crashes (goto t p' s) + crashes p = total crashes s + crashes p'"
    "total obtained (goto t p' s) + obtained p = total obtained s + obtained p'"
    "total to_put (goto t p' s) + to_put p = total to_put s + to_put p'"
  using total_goto [OF assms(1), of _ p'] unfolding assms(2) by blast+

lemma inside_bounds: "total taking s \<le> total inside s" "total will_signal s \<le> total inside s"
  by (intro total_le, simp add: weights split: pc.split)+

lemma queue_atD:
  assumes "queue_at K ms s"
  shows "length (threads s) < 2 ^ 32" "total inside s = (case mQueueMutex s of None \<Rightarrow> 0 | Some _ \<Rightarrow> 1)"
    "queue_holds (the_queue s) ms" "sent_log s = taken_log s @ ms"
    "0 < total waiting s \<Longrightarrow> length ms \<le> total will_look s + total will_signal s"
    "0 < total taking s \<Longrightarrow> ms \<noteq> []" "total has_put s = length (sent_log s)" "total crashes s = 0"
    "total obtained s = mset (taken_log s)" "length ms < 2 ^ 32" "total to_put s + mset (sent_log s) = K"
proof -
  have "total has_put s \<le> length (threads s)"
    by (intro total_le_length) (simp add: weights split: pc.split)
  then show "length ms < 2 ^ 32" using assms by (simp add: queue_at_def)
qed (use assms in \<open>unfold queue_at_def, blast+\<close>)

lemma queue_invD:
  assumes "queue_inv K s"
  shows "total inside s = (case mQueueMutex s of None \<Rightarrow> 0 | Some _ \<Rightarrow> 1)" "total crashes s = 0"
    "sent_log s = taken_log s @ queue_contents (the_queue s)" "total has_put s = length (sent_log s)"
    "0 < total waiting s \<Longrightarrow> length (queue_contents (the_queue s)) \<le> total will_look s + total will_signal s"
    "total obtained s = mset (taken_log s)" "total to_put s + mset (sent_log s) = K"
proof -
  obtain ms where "queue_at K ms s" using assms by (auto simp: queue_inv_def)
  note I = queue_atD [OF this]
  show "sent_log s = taken_log s @ queue_contents (the_queue s)"
    "0 < total waiting s \<Longrightarrow> length (queue_contents (the_queue s)) \<le> total will_look s + total will_signal s"
    using I(4,5) queue_holds_contents [OF I(3)] by simp_all
qed (use assms in \<open>unfold queue_inv_def queue_at_def, blast+\<close>)

text \<open>A thread that goes on without touching the queue keeps the invariant when it keeps what is counted.\<close>

lemma move_inv:
  assumes "queue_inv K s" "t < length (threads s)" "threads s ! t = p"
    "inside p' + (case mQueueMutex s of None \<Rightarrow> 0 | Some _ \<Rightarrow> 1) = inside p + (case mu of None \<Rightarrow> 0 | Some _ \<Rightarrow> 1)"
    "has_put p' = has_put p" "crashes p' = 0" "obtained p' = obtained p \<and> to_put p' = to_put p" "taking p' = 0 \<or> queue_contents (the_queue s) \<noteq> []"
    "waiting p' \<le> waiting p" "will_look p + will_signal p \<le> will_look p' + will_signal p'"
  shows "queue_inv K (goto t p' (s\<lparr>mQueueMutex := mu\<rparr>))"
proof -
  obtain ms where "queue_at K ms s" using assms(1) by (auto simp: queue_inv_def)
  note I = queue_atD [OF this]
  let ?s = "s\<lparr>mQueueMutex := mu\<rparr>"
  have tp: "t < length (threads ?s)" "threads ?s ! t = p" using assms(2,3) by simp_all
  note T = totals [OF tp, of p', unfolded total_frame]
  have ne: "ms \<noteq> []" if "0 < total taking s + taking p'"
    using that assms(8) I(6) queue_holds_contents [OF I(3)] by auto
  show "queue_inv K (goto t p' ?s)"
    unfolding queue_inv_def queue_at_def
  proof (intro exI [of _ ms] conjI impI)
    show "total inside (goto t p' ?s) = (case mQueueMutex (goto t p' ?s) of None \<Rightarrow> 0 | Some _ \<Rightarrow> 1)"
      using T(1) assms(4) I(2) by simp
    show "length ms \<le> total will_look (goto t p' ?s) + total will_signal (goto t p' ?s)"
      if "0 < total waiting (goto t p' ?s)"
      using that T(3,4,5) assms(9,10) I(5) by linarith
    show "ms \<noteq> []" if "0 < total taking (goto t p' ?s)" using that T(6) ne by linarith
  qed (use I T assms in simp_all)
qed

lemma unlock_as_update: "Mutex_unlock s = s\<lparr>mQueueMutex := None\<rparr>"
  by (simp add: Mutex_unlock_def)

lemma push_inv:
  assumes "queue_inv K s" "t < length (threads s)" "threads s ! t = Send_push m" "s' \<in> set (step_at t (Send_push m) s)"
  shows "queue_inv K s'"
proof -
  obtain ms where "queue_at K ms s" using assms(1) by (auto simp: queue_inv_def)
  note I = queue_atD [OF this]
  obtain q where q: "send m (- 1) (the_queue s) = Some (Some ERROR_NONE, q)" "queue_holds q (ms @ [m])"
    by (rule send_holds [OF I(3), of m])
  let ?s = "s\<lparr>the_queue := q, sent_log := sent_log s @ [m]\<rparr>"
  have s': "s' = goto t Send_signal ?s" using assms(4) q(1) by simp
  have tp: "t < length (threads ?s)" "threads ?s ! t = Send_push m" using assms(2,3) by simp_all
  note T = totals [OF tp, of Send_signal, unfolded total_frame, simplified weights, simplified]
  show "queue_inv K s'"
    unfolding queue_inv_def queue_at_def s'
  proof (intro exI [of _ "ms @ [m]"] conjI impI)
    show "length (ms @ [m]) \<le> total will_look (goto t Send_signal ?s) + total will_signal (goto t Send_signal ?s)"
      if "0 < total waiting (goto t Send_signal ?s)"
      using that T(3,4,5) I(5) by simp
  qed (use I T q(2) in \<open>auto simp: weights\<close>)
qed

lemma take_inv:
  assumes "queue_inv K s" "t < length (threads s)" "threads s ! t = Recv_take" "s' \<in> set (step_at t Recv_take s)"
  shows "queue_inv K s'"
proof -
  obtain ms where "queue_at K ms s" using assms(1) by (auto simp: queue_inv_def)
  note I = queue_atD [OF this]
  have "total taking s \<noteq> 0" using assms(2,3) total_eq_0 [of taking s] by (force simp: weights)
  then obtain m ms' where ms: "ms = m # ms'" using I(6) by (cases ms) auto
  obtain q where q: "receive (the_queue s) = Some (Some m, q)" "queue_holds q ms'"
    by (rule receive_holds [of "the_queue s" m ms']) (use I(3,10) ms in auto)
  let ?s = "s\<lparr>the_queue := q, taken_log := taken_log s @ [m]\<rparr>"
  have s': "s' = goto t (Recv_unlock m) ?s" using assms(4) q(1) by simp
  have tp: "t < length (threads ?s)" "threads ?s ! t = Recv_take" using assms(2,3) by simp_all
  note T = totals [OF tp, of "Recv_unlock m", unfolded total_frame, simplified weights, simplified]
  have one: "total taking s \<le> 1" using inside_bounds(1) [of s] I(2) by (simp split: option.splits)
  show "queue_inv K s'"
    unfolding queue_inv_def queue_at_def s'
  proof (intro exI [of _ ms'] conjI impI)
    show "length ms' \<le> total will_look (goto t (Recv_unlock m) ?s) + total will_signal (goto t (Recv_unlock m) ?s)"
      if "0 < total waiting (goto t (Recv_unlock m) ?s)"
      using that T(3,4,5) I(5) ms by simp
    show "ms' \<noteq> []" if "0 < total taking (goto t (Recv_unlock m) ?s)"
      using that T(6) one by simp
  qed (use I T q(2) ms in \<open>auto simp: weights\<close>)
qed

lemma wait_inv:
  assumes "queue_inv K s" "t < length (threads s)" "threads s ! t = Recv_check" "queue_contents (the_queue s) = []"
  shows "queue_inv K (Condition_wait t s)"
proof -
  obtain ms where "queue_at K ms s" using assms(1) by (auto simp: queue_inv_def)
  note I = queue_atD [OF this]
  have ms: "ms = []" using queue_holds_contents [OF I(3)] assms(4) by simp
  have tp: "t < length (threads (Mutex_unlock s))" "threads (Mutex_unlock s) ! t = Recv_check" using assms(2,3) by simp_all
  note T = totals [OF tp, of Recv_waiting, unfolded total_frame, simplified weights, simplified]
  show "queue_inv K (Condition_wait t s)"
    unfolding queue_inv_def queue_at_def Condition_wait_def
  proof (intro exI [of _ "[] :: 'a list"] conjI impI)
    show "total inside (goto t Recv_waiting (Mutex_unlock s)) =
        (case mQueueMutex (goto t Recv_waiting (Mutex_unlock s)) of None \<Rightarrow> 0 | Some _ \<Rightarrow> 1)"
      using T(1) I(2) by (simp split: option.splits)
    show "[] \<noteq> []" if "0 < total taking (goto t Recv_waiting (Mutex_unlock s))"
      using that T(6) I(6) ms by simp
  qed (use I T ms in \<open>auto simp: weights\<close>)
qed

lemma waits_iff: "waits p \<longleftrightarrow> p = Recv_waiting" "waiting p = of_bool (p = Recv_waiting)"
  by (cases p; simp add: weights)+

lemma nobody_signalled: "total waiting s = 0 \<Longrightarrow> Condition_signal s = [s]"
  by (simp add: Condition_signal_def total_eq_0 waits_iff filter_empty_conv)

lemma waiters_signalled:
  assumes "total waiting s \<noteq> 0"
  shows "set (Condition_signal s) = {goto w Recv_woken s | w. w < length (threads s) \<and> threads s ! w = Recv_waiting}"
proof -
  let ?ws = "filter (\<lambda>w. waits (threads s ! w)) [0..<length (threads s)]"
  have "?ws \<noteq> []" using assms by (auto simp: total_eq_0 waits_iff filter_empty_conv)
  then have "Condition_signal s = map (\<lambda>w. goto w Recv_woken s) ?ws"
    by (auto simp: Condition_signal_def split: list.splits)
  then show ?thesis by (auto simp: waits_iff)
qed

lemma signal_inv:
  assumes "queue_inv K s" "t < length (threads s)" "threads s ! t = Send_signal" "s' \<in> set (step_at t Send_signal s)"
  shows "queue_inv K s'"
proof (cases "total waiting s = 0")
  case True
  then have s': "s' = goto t Send_unlock s" using assms(4) nobody_signalled [OF True] by simp
  note T = totals [OF assms(2,3), of Send_unlock, simplified weights, simplified]
  show ?thesis using assms(1) T True unfolding queue_inv_def queue_at_def s' by (auto simp: weights)
next
  case False
  obtain w where w: "w < length (threads s)" "threads s ! w = Recv_waiting" "s' = goto t Send_unlock (goto w Recv_woken s)"
    using assms(4) waiters_signalled [OF False] by auto
  have tw: "t < length (threads (goto w Recv_woken s))" "threads (goto w Recv_woken s) ! t = Send_signal"
    using assms(2,3) w(2) by (simp, cases "w = t") simp_all
  note W = totals [OF w(1,2), of Recv_woken, simplified weights, simplified]
  note T = totals [OF tw, of Send_unlock, simplified weights, simplified]
  show ?thesis using assms(1) T W unfolding queue_inv_def queue_at_def w(3) by (auto simp: weights)
qed

lemma check_inv:
  assumes "queue_inv K s" "t < length (threads s)" "threads s ! t = Recv_check" "s' \<in> set (step_at t Recv_check s)"
  shows "queue_inv K s'"
proof -
  obtain ms where "queue_at K ms s" using assms(1) by (auto simp: queue_inv_def)
  note I = queue_atD(3,10) [OF this]
  have e: "isEmptyLocked (the_queue s) = Some (queue_contents (the_queue s) = [])"
    using isEmpty_holds [OF I] queue_holds_contents [OF I(1)] by simp
  show "queue_inv K s'"
  proof (cases "queue_contents (the_queue s) = []")
    case True
    with wait_inv [OF assms(1-3)] assms(4) e show ?thesis by simp
  next
    case False
    with move_inv [OF assms(1-3), of Recv_take "mQueueMutex s"] assms(4) e show ?thesis by (simp add: weights)
  qed
qed

lemma lock_inv:
  assumes "queue_inv K s" "t < length (threads s)" "threads s ! t = p" "s' \<in> set (map (goto t p') (Mutex_lock t s))"
    "inside p = 0" "inside p' = 1" "has_put p' = has_put p" "crashes p' = 0" "obtained p' = obtained p \<and> to_put p' = to_put p"
    "taking p' = 0" "waiting p' \<le> waiting p" "will_look p + will_signal p \<le> will_look p' + will_signal p'"
  shows "queue_inv K s'"
  using move_inv [OF assms(1-3), of p' "Some t"] assms(4-) by (auto simp: Mutex_lock_def split: option.splits)

lemma release_inv:
  assumes "queue_inv K s" "t < length (threads s)" "threads s ! t = p" "inside p = 1" "inside p' = 0"
    "has_put p' = has_put p" "crashes p' = 0" "obtained p' = obtained p \<and> to_put p' = to_put p"
    "taking p' = 0" "waiting p' \<le> waiting p" "will_look p + will_signal p \<le> will_look p' + will_signal p'"
  shows "queue_inv K (goto t p' (Mutex_unlock s))"
proof -
  have "total inside s \<noteq> 0" using total_eq_0 [of inside s] assms(2-4) by auto
  then obtain u where "mQueueMutex s = Some u" using queue_invD(1) [OF assms(1)] by (cases "mQueueMutex s") auto
  with move_inv [OF assms(1-3), of p' None] assms(4-) show ?thesis by (simp add: unlock_as_update)
qed

lemma step_inv:
  assumes "thread_step s s'" "queue_inv K s"
  shows "queue_inv K s'"
  using assms(1)
proof cases
  case (program t)
  note tp = assms(2) program(1)
  show ?thesis
  proof (cases "threads s ! t")
    case (Send_lock m)
    then show ?thesis using program(2) by (intro lock_inv [OF tp Send_lock, of s' "Send_push m"]) (simp_all add: weights)
  next
    case (Send_push m)
    then show ?thesis using program(2) push_inv [OF tp] by simp
  next
    case Send_signal
    then show ?thesis using program(2) signal_inv [OF tp] by simp
  next
    case Send_unlock
    then show ?thesis using program(2) release_inv [OF tp Send_unlock, of Sent] by (simp add: weights)
  next
    case Recv_lock
    then show ?thesis using program(2) by (intro lock_inv [OF tp Recv_lock, of s' Recv_check]) (simp_all add: weights)
  next
    case Recv_check
    then show ?thesis using program(2) check_inv [OF tp] by simp
  next
    case Recv_woken
    then show ?thesis using program(2) by (intro lock_inv [OF tp Recv_woken, of s' Recv_check]) (simp_all add: weights)
  next
    case Recv_take
    then show ?thesis using program(2) take_inv [OF tp] by simp
  next
    case (Recv_unlock m)
    then show ?thesis using program(2) release_inv [OF tp Recv_unlock, of "Received m"] by (simp add: weights)
  qed (use program(2) in simp_all)
qed

lemma wake_inv:
  assumes "queue_inv K s" "t < length (threads s)" "threads s ! t = Recv_waiting"
  shows "queue_inv K (goto t Recv_woken s)"
  using move_inv [OF assms, of Recv_woken "mQueueMutex s"] by (simp add: weights)


section \<open>Progress\<close>

text \<open>Every step of the program uses up effort; a signal passes some of it on to the thread it wakes.\<close>

definition effort :: "'m pc \<Rightarrow> nat" where
  "effort p = (case p of Send_lock m \<Rightarrow> 6 | Send_push m \<Rightarrow> 5 | Send_signal \<Rightarrow> 4 | Send_unlock \<Rightarrow> 1 | Sent \<Rightarrow> 0
     | Recv_lock \<Rightarrow> 5 | Recv_check \<Rightarrow> 4 | Recv_waiting \<Rightarrow> 3 | Recv_woken \<Rightarrow> 5 | Recv_take \<Rightarrow> 2 | Recv_unlock m \<Rightarrow> 1
     | Received m \<Rightarrow> 0 | Crashed \<Rightarrow> 0)"

lemma effort_goto:
  "t < length (threads s) \<Longrightarrow> threads s ! t = p \<Longrightarrow> effort p' < effort p \<Longrightarrow> total effort (goto t p' s) < total effort s"
  using total_goto [of t s effort p'] by simp

lemma signal_effort:
  assumes "t < length (threads s)" "threads s ! t = Send_signal" "s' \<in> set (step_at t Send_signal s)"
  shows "total effort s' < total effort s"
proof (cases "total waiting s = 0")
  case True
  then show ?thesis using assms nobody_signalled [OF True] by (auto intro: effort_goto simp: effort_def)
next
  case False
  then obtain w where w: "w < length (threads s)" "threads s ! w = Recv_waiting" "s' = goto t Send_unlock (goto w Recv_woken s)"
    using assms(3) waiters_signalled [OF False] by auto
  have "t \<noteq> w" using assms(2) w(2) by auto
  then show ?thesis
    using total_goto [OF w(1), of effort Recv_woken] total_goto [of t "goto w Recv_woken s" effort Send_unlock] assms w
    by (simp add: effort_def)
qed

lemma step_effort:
  assumes "thread_step s s'"
  shows "total effort s' < total effort s"
  using assms
proof cases
  case (program t)
  have eff: "total effort (s\<lparr>mQueueMutex := mu\<rparr>) = total effort s" for mu by simp
  have g: "total effort (goto t p' r) < total effort s"
    if "threads r = threads s" "effort p' < effort (threads s ! t)" for p' r
    using effort_goto [of t r "threads s ! t" p'] that program(1) by (simp add: total_def)
  show ?thesis
  proof (cases "threads s ! t")
    case Send_signal
    then show ?thesis using signal_effort [OF program(1)] program(2) by simp
  qed (use program(2) in \<open>auto intro!: g simp: effort_def Mutex_lock_def Condition_wait_def
      split: option.splits prod.splits\<close>)
qed

text \<open>When no thread can go on, all are done, or wait for messages that nobody sends.\<close>

primrec at_rest :: "'m pc \<Rightarrow> bool" where
  "at_rest (Send_lock m) = False" | "at_rest (Send_push m) = False" | "at_rest Send_signal = False"
| "at_rest Send_unlock = False" | "at_rest Sent = True" | "at_rest Recv_lock = False" | "at_rest Recv_check = False"
| "at_rest Recv_waiting = True" | "at_rest Recv_woken = False" | "at_rest Recv_take = False"
| "at_rest (Recv_unlock m) = False" | "at_rest (Received m) = True" | "at_rest Crashed = False"

lemma length_step_at: "s' \<in> set (step_at t p s) \<Longrightarrow> length (threads s') = length (threads s)"
  by (cases p) (auto simp: Mutex_lock_def Condition_signal_def Condition_wait_def split: option.splits prod.splits list.splits)

lemma step_at_inside: "inside p = 1 \<Longrightarrow> step_at t p s \<noteq> []"
  by (cases p) (auto simp: weights Condition_signal_def split: option.splits prod.splits list.splits)

lemma successors_empty: "successors s = [] \<longleftrightarrow> (\<forall>t < length (threads s). step_at t (threads s ! t) s = [])"
  by (auto simp: successors_def)

lemma stuck_at_rest:
  assumes "queue_inv K s" "successors s = []"
  shows "list_all at_rest (threads s)"
proof -
  have i: "inside (threads s ! t) = 0" if "t < length (threads s)" for t
    using step_at_inside [of "threads s ! t" t s] assms(2) that
    by (cases "threads s ! t") (auto simp: successors_empty weights)
  then have "mQueueMutex s = None"
    using queue_invD(1) [OF assms(1)] total_eq_0 [of inside s] by (auto split: option.splits)
  moreover have c: "crashes (threads s ! t) = 0" if "t < length (threads s)" for t
    using queue_invD(2) [OF assms(1)] that total_eq_0 [of crashes s] by simp
  ultimately have "at_rest (threads s ! t)" if "t < length (threads s)" for t
    using i [OF that] c [OF that] assms(2) that
    by (cases "threads s ! t") (auto simp: successors_empty weights Mutex_lock_def)
  then show ?thesis by (simp add: list_all_length)
qed

lemma rest_counts:
  assumes "list_all at_rest ps"
  shows "length ps = sum_list (map has_put ps) + size (sum_list (map obtained ps)) + sum_list (map waiting ps) \<and>
    sum_list (map to_put ps) = {#} \<and> sum_list (map will_look ps) = 0 \<and> sum_list (map will_signal ps) = 0"
  using assms
proof (induction ps)
  case (Cons p ps)
  then show ?case by (cases p) (simp_all add: weights)
qed simp

lemma calling_inv:
  assumes "MessageQueue n = Some q" "length ops < 2 ^ 32"
  shows "queue_inv (mset (List.map_filter id ops)) (calling q ops)"
proof -
  let ?pc = "\<lambda>op. case op of None \<Rightarrow> Recv_lock | Some m \<Rightarrow> Send_lock (m :: 'a)"
  obtain q0 :: "'a message_queue" where "MessageQueue n = Some q0" "queue_holds q0 []"
    by (rule new_queue_holds [of n])
  then have q: "queue_holds q []" using assms(1) by simp
  have z: "sum_list (map f (map ?pc ops)) = 0" if "\<And>m. f (Send_lock m) = 0" "f Recv_lock = 0"
    for f :: "'a pc \<Rightarrow> 'b :: comm_monoid_add"
    using that by (induction ops) (simp_all split: option.split)
  have p: "sum_list (map to_put (map ?pc ops)) = mset (List.map_filter id ops)"
    by (induction ops) (simp_all add: weights List.map_filter_simps split: option.split)
  show ?thesis
    using assms(2) q z [of inside] z [of waiting] z [of taking] z [of has_put] z [of crashes] z [of obtained] p
    by (simp add: queue_inv_def queue_at_def calling_def total_def weights)
qed

lemma reached_inv:
  "reached s0 s \<Longrightarrow> queue_inv K s0 \<Longrightarrow> queue_inv K s \<and> length (threads s) = length (threads s0)"
proof (induction rule: reached.induct)
  case (go s s')
  then have "length (threads s') = length (threads s)"
    by (auto elim!: thread_step.cases simp: length_step_at)
  with go show ?case using step_inv by metis
next
  case (spurious s t)
  then show ?case using wake_inv [of K s t] by simp
qed simp

lemma reached_steps: "(thread_step ^^ k) s s' \<Longrightarrow> reached s0 s \<Longrightarrow> reached s0 s' \<and> total effort s' + k \<le> total effort s"
proof (induction k arbitrary: s')
  case (Suc k)
  then obtain r where r: "(thread_step ^^ k) s r" "thread_step r s'" by auto
  with Suc.IH [OF r(1) Suc.prems(2)] step_effort [OF r(2)] show ?case by (auto intro: reached.go)
qed simp

lemma rest_reachable: "\<exists>k s'. (thread_step ^^ k) s s' \<and> successors s' = []"
proof (induction "total effort s" arbitrary: s rule: less_induct)
  case less
  show ?case
  proof (cases "successors s = []")
    case False
    then obtain t where "t < length (threads s)" "step_at t (threads s ! t) s \<noteq> []" by (auto simp: successors_empty)
    then obtain s1 where s1: "thread_step s s1" using thread_step.program hd_in_set by metis
    obtain k s' where "(thread_step ^^ k) s1 s'" "successors s' = []" using less [OF step_effort [OF s1]] by blast
    then have "(thread_step ^^ Suc k) s s'" "successors s' = []" using s1 relpowp_Suc_I2 [of thread_step s s1 k s'] by auto
    then show ?thesis by blast
  qed (auto intro: exI [of _ 0])
qed

section \<open>Properties\<close>

text \<open>
  C14.  Under any number of concurrent calls of \<^verbatim>\<open>send\<close> and \<^verbatim>\<open>receive\<close>, at every moment and whatever the schedule, wake ups
  without a signal included: at most one thread is between lock and unlock, no thread touches a node that is not
  there, the messages taken so far are the oldest of those put into the queue, in their order, each was
  handed to exactly one receiver, and nothing was put that no sender sent.
\<close>

theorem queue_threads_safe:
  assumes "MessageQueue n = Some q" "length ops < 2 ^ 32" "reached (calling q ops) s"
  shows "total inside s \<le> 1 \<and> Crashed \<notin> set (threads s) \<and> taken_log s @ queue_contents (the_queue s) = sent_log s \<and>
    total obtained s = mset (taken_log s) \<and> mset (sent_log s) \<subseteq># mset (List.map_filter id ops)"
proof -
  have I: "queue_inv (mset (List.map_filter id ops)) s"
    using reached_inv [OF assms(3) calling_inv [OF assms(1,2)]] by simp
  have "Crashed \<notin> set (threads s)"
    using queue_invD(2) [OF I] total_eq_0 [of crashes s] by (force simp: weights in_set_conv_nth)
  moreover have "mset (sent_log s) \<subseteq># mset (List.map_filter id ops)"
    using queue_invD(7) [OF I] by (metis mset_subset_eq_add_right)
  ultimately show ?thesis
    using queue_invD [OF I] by (simp split: option.splits)
qed

theorem queue_threads_safe_witness:
  "\<exists>q s k. MessageQueue 0 = Some q \<and> (thread_step ^^ k) (calling q [None, Some (5 :: nat)]) s \<and> successors s = [] \<and>
    total inside s \<le> 1 \<and> Crashed \<notin> set (threads s) \<and> taken_log s @ queue_contents (the_queue s) = sent_log s \<and>
    mset (sent_log s) \<subseteq># {#5#}"
proof -
  obtain q :: "nat message_queue" where q: "MessageQueue 0 = Some q" by (rule new_queue_holds [of 0])
  obtain k s where s: "(thread_step ^^ k) (calling q [None, Some 5]) s" "successors s = []"
    using rest_reachable by blast
  have "length [None, Some (5 :: nat)] < 2 ^ 32" by simp
  from queue_threads_safe [OF q this] reached_steps [OF s(1) reached.starting] q s show ?thesis
    by (auto simp: List.map_filter_simps)
qed

text \<open>
  C13.  No wake up is lost and no thread starves: from every reachable state the threads do at most six
  steps per call before all of them rest, unless one wakes up without a signal, and then every \<^verbatim>\<open>send\<close> has returned, and as
  many receivers have returned as there are messages or receivers, whichever is less, with the oldest
  messages; the others wait, and only if the queue is empty.
\<close>

theorem queue_threads_served:
  assumes "MessageQueue n = Some q" "length ops < 2 ^ 32" "reached (calling q ops) s" "(thread_step ^^ k) s s'"
  shows "k \<le> 6 * length ops \<and>
    (successors s' = [] \<longrightarrow> (let sends = List.map_filter id ops in
       list_all at_rest (threads s') \<and> mset (sent_log s') = mset sends \<and>
       taken_log s' = take (length ops - length sends) (sent_log s') \<and> total obtained s' = mset (taken_log s') \<and>
       total waiting s' = (length ops - length sends) - length sends))"
proof (intro conjI impI)
  note R = reached_steps [OF assms(4,3)]
  let ?sends = "List.map_filter id ops"
  have I: "queue_inv (mset ?sends) s'" "length (threads s') = length ops" "length (threads s) = length ops"
    using reached_inv [OF conjunct1 [OF R] calling_inv [OF assms(1,2)]] reached_inv [OF assms(3) calling_inv [OF assms(1,2)]]
    by (simp_all add: calling_def)
  have "effort p \<le> 6" for p :: "'a pc" by (cases p) (simp_all add: effort_def)
  then have "total effort s \<le> 6 * length (threads s)"
    using sum_list_mono [of "threads s" effort "\<lambda>_. 6"] by (simp add: total_def sum_list_triv mult.commute)
  then show "k \<le> 6 * length ops" using R I(3) by simp
  assume stuck: "successors s' = []"
  have rest: "list_all at_rest (threads s')" by (rule stuck_at_rest [OF I(1) stuck])
  note C = rest_counts [OF rest, folded total_def]
  have sent: "mset (sent_log s') = mset ?sends" using C queue_invD(7) [OF I(1)] by simp
  then have len: "length (sent_log s') = length ?sends" by (metis size_mset)
  have ob: "total obtained s' = mset (taken_log s')" by (rule queue_invD(6) [OF I(1)])
  obtain ms where ms: "sent_log s' = taken_log s' @ ms" "0 < total waiting s' \<longrightarrow> ms = []"
    using queue_invD(3,5) [OF I(1)] C by auto
  have n: "length ops = length ?sends + length (taken_log s') + total waiting s'"
    using C I(2) len queue_invD(4) [OF I(1)] ob by simp
  have "total waiting s' = (length ops - length ?sends) - length ?sends"
    using n ms len by (cases "total waiting s' = 0") auto
  moreover have "taken_log s' = take (length ops - length ?sends) (sent_log s')"
    using n ms len by (cases "total waiting s' = 0") auto
  ultimately show "let sends = ?sends in
       list_all at_rest (threads s') \<and> mset (sent_log s') = mset sends \<and>
       taken_log s' = take (length ops - length sends) (sent_log s') \<and> total obtained s' = mset (taken_log s') \<and>
       total waiting s' = (length ops - length sends) - length sends"
    using rest sent ob by (simp add: Let_def)
qed

theorem queue_threads_served_witness:
  "\<exists>q s k. MessageQueue 0 = Some q \<and> (thread_step ^^ k) (calling q [None, Some (5 :: nat), None]) s \<and> successors s = [] \<and>
    taken_log s = [5] \<and> total obtained s = {#5#} \<and> total waiting s = 1"
proof -
  obtain q :: "nat message_queue" where q: "MessageQueue 0 = Some q" by (rule new_queue_holds [of 0])
  obtain k s where s: "(thread_step ^^ k) (calling q [None, Some 5, None]) s" "successors s = []"
    using rest_reachable by blast
  have "length [None, Some (5 :: nat), None] < 2 ^ 32" by simp
  from queue_threads_served [OF q this reached.starting s(1)] s(2)
  have "mset (sent_log s) = {#5#}" "taken_log s = take 2 (sent_log s)" "total obtained s = mset (taken_log s)" "total waiting s = 1"
    by (simp_all add: Let_def List.map_filter_simps)
  moreover from this(1) have "sent_log s = [5]" by simp
  ultimately show ?thesis using q s by auto
qed

end
