(* ===== verification/Type_Helpers.thy ===== *)
theory Type_Helpers
  imports Toy_Prelude
begin

text \<open>
  \<^verbatim>\<open>src/hal/include/TypeHelpers.h\<close>: what the vector class needs to know about the type of its items, and how it
  constructs, copies, moves and destroys them, with the functions of \<^verbatim>\<open>Vector.h\<close> that call these.  Storage is a list of
  places, each raw or with a live object; a pointer is an index.  An operation is \<open>None\<close> where the code
  leaves its storage, reads or destroys an object that is not alive, or builds an object over a live one that has a destructor to run.
\<close>

section \<open>Traits\<close>

record traits =
  is_pointer :: bool
  has_trivial_ctor :: bool
  has_trivial_dtor :: bool
  has_trivial_copy :: bool
  has_trivial_move :: bool

text \<open>The traits of a type from its specialisations, the basic types, and a pair.\<close>

definition traits_of :: "bool \<Rightarrow> bool \<Rightarrow> bool \<Rightarrow> bool \<Rightarrow> bool \<Rightarrow> traits" where
  "traits_of pointer ctor dtor cpy mov =
     \<lparr>is_pointer = pointer, has_trivial_ctor = pointer \<or> ctor, has_trivial_dtor = pointer \<or> dtor,
      has_trivial_copy = pointer \<or> cpy, has_trivial_move = pointer \<or> mov\<rparr>"

definition ANDROID_BASIC_TYPES_TRAITS :: traits where
  "ANDROID_BASIC_TYPES_TRAITS = traits_of False True True True True"

definition aggregate_traits :: "traits \<Rightarrow> traits \<Rightarrow> traits" where
  "aggregate_traits T U =
     \<lparr>is_pointer = False,
      has_trivial_ctor = (has_trivial_ctor T \<and> has_trivial_ctor U),
      has_trivial_dtor = (has_trivial_dtor T \<and> has_trivial_dtor U),
      has_trivial_copy = (has_trivial_copy T \<and> has_trivial_copy U),
      has_trivial_move = (has_trivial_move T \<and> has_trivial_move U)\<rparr>"

section \<open>Comparing and hashing\<close>

definition strictly_order_type :: "('a :: linorder) \<Rightarrow> 'a \<Rightarrow> int" where
  "strictly_order_type lhs rhs = (if lhs < rhs then 1 else 0)"

definition compare_type :: "('a :: linorder) \<Rightarrow> 'a \<Rightarrow> int" where
  "compare_type lhs rhs = strictly_order_type rhs lhs - strictly_order_type lhs rhs"

record ('k, 'v) key_value_pair_t =
  key :: 'k
  kv_value :: 'v

definition key_value_less :: "('k :: linorder, 'v) key_value_pair_t \<Rightarrow> ('k, 'v) key_value_pair_t \<Rightarrow> bool" where
  "key_value_less p r \<longleftrightarrow> strictly_order_type (key p) (key r) \<noteq> 0"

text \<open>The hash of a 64 bit number; the shift of a signed one keeps the sign.\<close>

definition ANDROID_INT32_HASH :: "u32 \<Rightarrow> u32" where
  "ANDROID_INT32_HASH v = v"

definition ANDROID_INT64_HASH :: "u64 \<Rightarrow> u32" where
  "ANDROID_INT64_HASH v = ucast (drop_bit 32 v XOR v)"

definition ANDROID_SINT64_HASH :: "u64 \<Rightarrow> u32" where
  "ANDROID_SINT64_HASH v = ucast (signed_drop_bit 32 v XOR v)"

section \<open>Objects in storage\<close>

type_synonym 'a storage = "'a option list"

definition read_at :: "nat \<Rightarrow> 'a storage \<Rightarrow> 'a option" where
  "read_at p xs = (if p < length xs then xs ! p else None)"

definition new_at :: "traits \<Rightarrow> nat \<Rightarrow> 'a \<Rightarrow> 'a storage \<Rightarrow> 'a storage option" where
  "new_at T p v xs =
     (if p < length xs \<and> (has_trivial_dtor T \<or> xs ! p = None) then Some (xs[p := Some v]) else None)"

definition assign_at :: "nat \<Rightarrow> 'a \<Rightarrow> 'a storage \<Rightarrow> 'a storage option" where
  "assign_at p v xs = (if p < length xs then Some (xs[p := Some v]) else None)"

definition destroy_at :: "nat \<Rightarrow> 'a storage \<Rightarrow> 'a storage option" where
  "destroy_at p xs = (if p < length xs \<and> xs ! p \<noteq> None then Some (xs[p := None]) else None)"

text \<open>The C library: \<^verbatim>\<open>memmove\<close> copies bytes as if through a buffer, \<^verbatim>\<open>memcpy\<close> must not overlap.\<close>

definition memmove :: "nat \<Rightarrow> nat \<Rightarrow> nat \<Rightarrow> 'a storage \<Rightarrow> 'a storage option" where
  "memmove d s n xs = (if d + n \<le> length xs \<and> s + n \<le> length xs
     then Some (take d xs @ take n (drop s xs) @ drop (d + n) xs) else None)"

definition memcpy_items :: "nat \<Rightarrow> nat \<Rightarrow> nat \<Rightarrow> 'a storage \<Rightarrow> 'a storage option" where
  "memcpy_items d s n xs = (if d + n \<le> s \<or> s + n \<le> d then memmove d s n xs else None)"

text \<open>The loops; \<open>v0\<close> is what the default constructor makes.\<close>

primrec construct_loop :: "traits \<Rightarrow> 'a \<Rightarrow> nat \<Rightarrow> nat \<Rightarrow> 'a storage \<Rightarrow> 'a storage option" where
  "construct_loop T v0 p 0 xs = Some xs"
| "construct_loop T v0 p (Suc n) xs = Option.bind (new_at T p v0 xs) (construct_loop T v0 (p + 1) n)"

definition construct_type :: "traits \<Rightarrow> 'a \<Rightarrow> nat \<Rightarrow> nat \<Rightarrow> 'a storage \<Rightarrow> 'a storage option" where
  "construct_type T v0 p n xs = (if \<not> has_trivial_ctor T then construct_loop T v0 p n xs else Some xs)"

primrec destroy_loop :: "nat \<Rightarrow> nat \<Rightarrow> 'a storage \<Rightarrow> 'a storage option" where
  "destroy_loop p 0 xs = Some xs"
| "destroy_loop p (Suc n) xs = Option.bind (destroy_at p xs) (destroy_loop (p + 1) n)"

definition destroy_type :: "traits \<Rightarrow> nat \<Rightarrow> nat \<Rightarrow> 'a storage \<Rightarrow> 'a storage option" where
  "destroy_type T p n xs = (if \<not> has_trivial_dtor T then destroy_loop p n xs else Some xs)"

primrec copy_loop :: "traits \<Rightarrow> nat \<Rightarrow> nat \<Rightarrow> nat \<Rightarrow> 'a storage \<Rightarrow> 'a storage option" where
  "copy_loop T d s 0 xs = Some xs"
| "copy_loop T d s (Suc n) xs = do {
     v \<leftarrow> read_at s xs;
     xs \<leftarrow> new_at T d v xs;
     copy_loop T (d + 1) (s + 1) n xs }"

definition copy_type :: "traits \<Rightarrow> nat \<Rightarrow> nat \<Rightarrow> nat \<Rightarrow> 'a storage \<Rightarrow> 'a storage option" where
  "copy_type T d s n xs = (if \<not> has_trivial_copy T then copy_loop T d s n xs else memcpy_items d s n xs)"

text \<open>\<^verbatim>\<open>splat_type\<close> reads the same item every time; it is outside of the storage, where nothing changes it.\<close>

primrec splat_loop :: "traits \<Rightarrow> nat \<Rightarrow> 'a \<Rightarrow> nat \<Rightarrow> 'a storage \<Rightarrow> 'a storage option" where
  "splat_loop T p what 0 xs = Some xs"
| "splat_loop T p what (Suc n) xs =
     Option.bind (if \<not> has_trivial_copy T then new_at T p what xs else assign_at p what xs) (splat_loop T (p + 1) what n)"

definition splat_type :: "traits \<Rightarrow> nat \<Rightarrow> 'a \<Rightarrow> nat \<Rightarrow> 'a storage \<Rightarrow> 'a storage option" where
  "splat_type = splat_loop"

text \<open>Moving one item, and the two loops: from the last item down, and from the first item up.\<close>

definition moves_bytes :: "traits \<Rightarrow> bool" where
  "moves_bytes T \<longleftrightarrow> (has_trivial_dtor T \<and> has_trivial_copy T) \<or> has_trivial_move T"

definition move_item :: "traits \<Rightarrow> nat \<Rightarrow> nat \<Rightarrow> 'a storage \<Rightarrow> 'a storage option" where
  "move_item T d s xs = do {
     v \<leftarrow> read_at s xs;
     xs \<leftarrow> (if \<not> has_trivial_copy T then new_at T d v xs else assign_at d v xs);
     if \<not> has_trivial_dtor T then destroy_at s xs else Some xs }"

primrec move_down :: "traits \<Rightarrow> nat \<Rightarrow> nat \<Rightarrow> nat \<Rightarrow> 'a storage \<Rightarrow> 'a storage option" where
  "move_down T d s 0 xs = Some xs"
| "move_down T d s (Suc n) xs = Option.bind (move_item T (d + n) (s + n) xs) (move_down T d s n)"

definition move_forward_type :: "traits \<Rightarrow> nat \<Rightarrow> nat \<Rightarrow> nat \<Rightarrow> 'a storage \<Rightarrow> 'a storage option" where
  "move_forward_type T d s n xs = (if moves_bytes T then memmove d s n xs else move_down T d s n xs)"

primrec move_up :: "traits \<Rightarrow> nat \<Rightarrow> nat \<Rightarrow> nat \<Rightarrow> 'a storage \<Rightarrow> 'a storage option" where
  "move_up T d s 0 xs = Some xs"
| "move_up T d s (Suc n) xs = Option.bind (move_item T d s xs) (move_up T (d + 1) (s + 1) n)"

definition move_backward_type :: "traits \<Rightarrow> nat \<Rightarrow> nat \<Rightarrow> nat \<Rightarrow> 'a storage \<Rightarrow> 'a storage option" where
  "move_backward_type T d s n xs = (if moves_bytes T then memmove d s n xs else move_up T d s n xs)"

text \<open>The functions of \<^verbatim>\<open>Vector\<close> its base class calls, and the flags it hands to it.\<close>

definition vector_flags :: "traits \<Rightarrow> u32" where
  "vector_flags T = (if has_trivial_ctor T then 1 else 0) OR (if has_trivial_dtor T then 2 else 0)
     OR (if has_trivial_copy T then 4 else 0)"

definition do_construct :: "traits \<Rightarrow> 'a \<Rightarrow> nat \<Rightarrow> nat \<Rightarrow> 'a storage \<Rightarrow> 'a storage option" where
  "do_construct = construct_type"

definition do_destroy :: "traits \<Rightarrow> nat \<Rightarrow> nat \<Rightarrow> 'a storage \<Rightarrow> 'a storage option" where
  "do_destroy = destroy_type"

definition do_copy :: "traits \<Rightarrow> nat \<Rightarrow> nat \<Rightarrow> nat \<Rightarrow> 'a storage \<Rightarrow> 'a storage option" where
  "do_copy = copy_type"

definition do_splat :: "traits \<Rightarrow> nat \<Rightarrow> 'a \<Rightarrow> nat \<Rightarrow> 'a storage \<Rightarrow> 'a storage option" where
  "do_splat = splat_type"

definition do_move_forward :: "traits \<Rightarrow> nat \<Rightarrow> nat \<Rightarrow> nat \<Rightarrow> 'a storage \<Rightarrow> 'a storage option" where
  "do_move_forward = move_forward_type"

definition do_move_backward :: "traits \<Rightarrow> nat \<Rightarrow> nat \<Rightarrow> nat \<Rightarrow> 'a storage \<Rightarrow> 'a storage option" where
  "do_move_backward = move_backward_type"

section \<open>Comparing and hashing: what they compute\<close>

lemma compare_type_sign: "compare_type a b = (if a < b then - 1 else if a = b then 0 else 1)"
  by (auto simp: compare_type_def strictly_order_type_def)

text \<open>The signed and the unsigned hash of the same 64 bits are the two halves combined.\<close>

lemma hash64_halves:
  "ANDROID_INT64_HASH v = ucast (drop_bit 32 v) XOR ucast v" "ANDROID_SINT64_HASH v = ANDROID_INT64_HASH v"
proof -
  show "ANDROID_INT64_HASH v = ucast (drop_bit 32 v) XOR ucast v"
    by (rule bit_word_eqI) (simp add: ANDROID_INT64_HASH_def bit_simps)
  show "ANDROID_SINT64_HASH v = ANDROID_INT64_HASH v"
    by (rule bit_word_eqI) (auto simp: ANDROID_INT64_HASH_def ANDROID_SINT64_HASH_def bit_simps)
qed

lemma pair_traits:
  "aggregate_traits ANDROID_BASIC_TYPES_TRAITS ANDROID_BASIC_TYPES_TRAITS = ANDROID_BASIC_TYPES_TRAITS"
  "moves_bytes (traits_of True ctor dtor cpy mov)" "moves_bytes ANDROID_BASIC_TYPES_TRAITS"
  by (simp_all add: aggregate_traits_def ANDROID_BASIC_TYPES_TRAITS_def traits_of_def moves_bytes_def)

section \<open>Moving items inside one storage\<close>

text \<open>
  What a move has to achieve: the items are at their new places, the old places that are not new ones are
  raw if the items were destroyed there, and nothing else has changed.
\<close>

definition moved :: "bool \<Rightarrow> nat \<Rightarrow> nat \<Rightarrow> nat \<Rightarrow> 'a storage \<Rightarrow> 'a storage \<Rightarrow> bool" where
  "moved destroys d s n xs ys \<longleftrightarrow> length ys = length xs \<and>
     (\<forall>k < length xs. ys ! k = (if d \<le> k \<and> k < d + n then xs ! (s + (k - d))
        else if destroys \<and> s \<le> k \<and> k < s + n then None else xs ! k))"

lemma move_item_run:
  assumes "d \<noteq> s" "d < length xs" "s < length xs" "xs ! s \<noteq> None" "has_trivial_dtor T \<or> xs ! d = None"
  shows "move_item T d s xs = Some (if has_trivial_dtor T then xs[d := xs ! s] else xs[d := xs ! s, s := None])"
  using assms by (auto simp: move_item_def read_at_def new_at_def assign_at_def destroy_at_def)

lemma move_down_moved:
  "\<lbrakk>s < d; d + n \<le> length xs; \<forall>i < n. xs ! (s + i) \<noteq> None;
    has_trivial_dtor T \<or> (\<forall>k. d \<le> k \<and> s + n \<le> k \<and> k < d + n \<longrightarrow> xs ! k = None)\<rbrakk> \<Longrightarrow>
    \<exists>ys. move_down T d s n xs = Some ys \<and> moved (\<not> has_trivial_dtor T) d s n xs ys"
proof (induction n arbitrary: xs)
  case 0
  then show ?case by (auto simp: moved_def)
next
  case (Suc n)
  let ?xs = "if has_trivial_dtor T then xs[d + n := xs ! (s + n)] else xs[d + n := xs ! (s + n), s + n := None]"
  have item: "move_item T (d + n) (s + n) xs = Some ?xs"
    using Suc.prems by (intro move_item_run) auto
  have "\<exists>ys. move_down T d s n ?xs = Some ys \<and> moved (\<not> has_trivial_dtor T) d s n ?xs ys"
    using Suc.prems by (intro Suc.IH) (auto simp: nth_list_update)
  then obtain ys where ys: "move_down T d s n ?xs = Some ys" "moved (\<not> has_trivial_dtor T) d s n ?xs ys" by blast
  have "moved (\<not> has_trivial_dtor T) d s (Suc n) xs ys"
    unfolding moved_def
  proof (intro conjI allI impI)
    show "length ys = length xs" using ys(2) by (auto simp: moved_def)
    fix k assume k: "k < length xs"
    then have y: "ys ! k = (if d \<le> k \<and> k < d + n then ?xs ! (s + (k - d))
        else if \<not> has_trivial_dtor T \<and> s \<le> k \<and> k < s + n then None else ?xs ! k)"
      using ys(2) by (simp add: moved_def split: if_splits)
    show "ys ! k = (if d \<le> k \<and> k < d + Suc n then xs ! (s + (k - d))
        else if \<not> has_trivial_dtor T \<and> s \<le> k \<and> k < s + Suc n then None else xs ! k)"
      using y Suc.prems(1,2) k by (auto simp: nth_list_update)
  qed
  then show ?case using item ys(1) by simp
qed

lemma move_up_moved:
  "\<lbrakk>d < s; s + n \<le> length xs; \<forall>i < n. xs ! (s + i) \<noteq> None;
    has_trivial_dtor T \<or> (\<forall>k. d \<le> k \<and> k < s \<and> k < d + n \<longrightarrow> xs ! k = None)\<rbrakk> \<Longrightarrow>
    \<exists>ys. move_up T d s n xs = Some ys \<and> moved (\<not> has_trivial_dtor T) d s n xs ys"
proof (induction n arbitrary: xs d s)
  case 0
  then show ?case by (auto simp: moved_def)
next
  case (Suc n)
  let ?xs = "if has_trivial_dtor T then xs[d := xs ! s] else xs[d := xs ! s, s := None]"
  have "xs ! s \<noteq> None" using Suc.prems(3) by force
  then have item: "move_item T d s xs = Some ?xs"
    using Suc.prems(1,2,4) by (intro move_item_run) auto
  have live: "?xs ! (Suc s + i) \<noteq> None" if "i < n" for i
  proof -
    have "xs ! (s + Suc i) \<noteq> None" using Suc.prems(3) that by blast
    with Suc.prems(1,2) that show ?thesis by (auto simp: nth_list_update)
  qed
  have "\<exists>ys. move_up T (d + 1) (s + 1) n ?xs = Some ys \<and> moved (\<not> has_trivial_dtor T) (d + 1) (s + 1) n ?xs ys"
    using Suc.prems(1,2,4) live by (intro Suc.IH) (auto simp: nth_list_update)
  then obtain ys where ys: "move_up T (d + 1) (s + 1) n ?xs = Some ys" "moved (\<not> has_trivial_dtor T) (d + 1) (s + 1) n ?xs ys"
    by blast
  have "moved (\<not> has_trivial_dtor T) d s (Suc n) xs ys"
    unfolding moved_def
  proof (intro conjI allI impI)
    show "length ys = length xs" using ys(2) by (auto simp: moved_def)
    fix k assume k: "k < length xs"
    then have y: "ys ! k = (if d + 1 \<le> k \<and> k < d + 1 + n then ?xs ! (s + 1 + (k - (d + 1)))
        else if \<not> has_trivial_dtor T \<and> s + 1 \<le> k \<and> k < s + 1 + n then None else ?xs ! k)"
      using ys(2) by (simp add: moved_def split: if_splits)
    show "ys ! k = (if d \<le> k \<and> k < d + Suc n then xs ! (s + (k - d))
        else if \<not> has_trivial_dtor T \<and> s \<le> k \<and> k < s + Suc n then None else xs ! k)"
    proof (cases "k = d")
      case True
      with y Suc.prems(1) k show ?thesis by (auto simp: nth_list_update)
    next
      case False
      have "s + 1 + (k - (d + 1)) = s + (k - d)" if "d < k" using that by simp
      with False y Suc.prems(1,2) k show ?thesis by (auto simp: nth_list_update)
    qed
  qed
  then show ?case using item ys(1) by simp
qed

lemma memmove_moved:
  "d + n \<le> length xs \<Longrightarrow> s + n \<le> length xs \<Longrightarrow> \<exists>ys. memmove d s n xs = Some ys \<and> moved False d s n xs ys"
  by (auto simp: memmove_def moved_def nth_append)

definition destroys_source :: "traits \<Rightarrow> bool" where
  "destroys_source T \<longleftrightarrow> \<not> moves_bytes T \<and> \<not> has_trivial_dtor T"

lemma move_forward_moved:
  assumes "s < d" "d + n \<le> length xs" "\<forall>i < n. xs ! (s + i) \<noteq> None"
    "has_trivial_dtor T \<or> moves_bytes T \<or> (\<forall>k. d \<le> k \<and> s + n \<le> k \<and> k < d + n \<longrightarrow> xs ! k = None)"
  shows "\<exists>ys. do_move_forward T d s n xs = Some ys \<and> moved (destroys_source T) d s n xs ys"
  using move_down_moved [OF assms(1-3), of T] assms memmove_moved [of d n xs s]
  by (auto simp: do_move_forward_def move_forward_type_def destroys_source_def)

lemma move_backward_moved:
  assumes "d < s" "s + n \<le> length xs" "\<forall>i < n. xs ! (s + i) \<noteq> None"
    "has_trivial_dtor T \<or> moves_bytes T \<or> (\<forall>k. d \<le> k \<and> k < s \<and> k < d + n \<longrightarrow> xs ! k = None)"
  shows "\<exists>ys. do_move_backward T d s n xs = Some ys \<and> moved (destroys_source T) d s n xs ys"
  using move_up_moved [OF assms(1-3), of T] assms memmove_moved [of d n xs s]
  by (auto simp: do_move_backward_def move_backward_type_def destroys_source_def)

text \<open>The pieces of the storage after a move by \<open>g\<close> places up, and after one down.\<close>

lemma split4: "a + b + c \<le> length zs \<Longrightarrow>
    zs = take a zs @ take b (drop a zs) @ take c (drop (a + b) zs) @ drop (a + b + c) zs"
  by (metis add.commute append_take_drop_id drop_drop)

lemma moved_up_pieces:
  assumes "moved b (length as + g) (length as) (length vs) (as @ vs @ ys @ rest) zs" "length ys = g"
  shows "\<exists>hole. zs = as @ hole @ vs @ rest \<and> length hole = g \<and>
    (b \<longrightarrow> (\<forall>k < min g (length vs). hole ! k = None) \<and> (\<forall>k. length vs \<le> k \<and> k < g \<longrightarrow> hole ! k = ys ! (k - length vs)))"
proof -
  let ?a = "length as" and ?n = "length vs"
  have len: "length zs = ?a + ?n + g + length rest" using assms by (simp add: moved_def)
  have z: "zs ! k = (if ?a + g \<le> k \<and> k < ?a + g + ?n then (as @ vs @ ys @ rest) ! (?a + (k - (?a + g)))
      else if b \<and> ?a \<le> k \<and> k < ?a + ?n then None else (as @ vs @ ys @ rest) ! k)" if "k < length zs" for k
    using assms that by (simp add: moved_def)
  have 1: "take ?a zs = as" using len by (intro nth_equalityI) (simp_all add: z nth_append)
  have 2: "take ?n (drop (?a + g) zs) = vs" using len by (intro nth_equalityI) (simp_all add: z nth_append)
  have 3: "drop (?a + g + ?n) zs = rest" using len assms(2) by (intro nth_equalityI) (simp_all add: z nth_append)
  have 4: "take g (drop ?a zs) ! k = (if b \<and> k < ?n then None else (vs @ ys @ rest) ! k)" if "k < g" for k
    using that len by (simp add: z nth_append)
  have "zs = as @ take g (drop ?a zs) @ vs @ rest" using split4 [of ?a g ?n zs] 1 2 3 len by simp
  then show ?thesis using 4 len assms(2) by (intro exI [of _ "take g (drop ?a zs)"]) (auto simp: nth_append)
qed

lemma moved_down_pieces:
  assumes "moved b (length as) (length as + g) (length vs) (as @ hole @ vs @ rest) zs" "length hole = g"
  shows "\<exists>hole'. zs = as @ vs @ hole' @ rest \<and> length hole' = g \<and>
    (b \<longrightarrow> (\<forall>k < g. g \<le> length vs + k \<longrightarrow> hole' ! k = None) \<and> (\<forall>k. length vs + k < g \<longrightarrow> hole' ! k = hole ! (length vs + k)))"
proof -
  let ?a = "length as" and ?n = "length vs"
  have len: "length zs = ?a + ?n + g + length rest" using assms by (simp add: moved_def)
  have z: "zs ! k = (if ?a \<le> k \<and> k < ?a + ?n then (as @ hole @ vs @ rest) ! (?a + g + (k - ?a))
      else if b \<and> ?a + g \<le> k \<and> k < ?a + g + ?n then None else (as @ hole @ vs @ rest) ! k)" if "k < length zs" for k
    using assms that by (simp add: moved_def)
  have 1: "take ?a zs = as" using len by (intro nth_equalityI) (simp_all add: z nth_append)
  have 2: "take ?n (drop ?a zs) = vs" using len assms(2) by (intro nth_equalityI) (simp_all add: z nth_append)
  have 3: "drop (?a + ?n + g) zs = rest" using len assms(2) by (intro nth_equalityI) (simp_all add: z nth_append)
  have 4: "take g (drop (?a + ?n) zs) ! k = (if b \<and> g \<le> ?n + k then None else (hole @ vs @ rest) ! (?n + k))" if "k < g" for k
    using that len by (simp add: z nth_append)
  have "zs = as @ vs @ take g (drop (?a + ?n) zs) @ rest" using split4 [of ?a ?n g zs] 1 2 3 len by simp
  then show ?thesis using 4 len assms(2) by (intro exI [of _ "take g (drop (?a + ?n) zs)"]) (auto simp: nth_append)
qed

section \<open>Making, copying and destroying items\<close>

lemma update_middle: "p = length as \<Longrightarrow> (as @ x # bs)[p := y] = as @ y # bs"
  by simp

lemma splat_fills:
  "p = length as \<Longrightarrow> do_splat T p v n (as @ replicate n None @ rest) = Some (as @ replicate n (Some v) @ rest)"
  unfolding do_splat_def splat_type_def
proof (induction n arbitrary: as p)
  case (Suc n)
  from Suc.IH [of "p + 1" "as @ [Some v]"] Suc.prems show ?case
    by (simp add: new_at_def assign_at_def)
qed simp

lemma construct_fills:
  "p = length as \<Longrightarrow> construct_loop T v0 p n (as @ replicate n None @ rest) = Some (as @ replicate n (Some v0) @ rest)"
proof (induction n arbitrary: as p)
  case (Suc n)
  from Suc.IH [of "p + 1" "as @ [Some v0]"] Suc.prems show ?case by (simp add: new_at_def)
qed simp

lemma destroy_empties:
  "p = length as \<Longrightarrow> destroy_loop p (length vs) (as @ map Some vs @ rest) = Some (as @ replicate (length vs) None @ rest)"
proof (induction vs arbitrary: as p)
  case (Cons v vs)
  from Cons.IH [of "p + 1" "as @ [None]"] Cons.prems show ?case by (simp add: destroy_at_def)
qed simp

lemma copy_loop_copies:
  "s = length as \<Longrightarrow> d = s + length vs + length mid \<Longrightarrow>
    copy_loop T d s (length vs) (as @ map Some vs @ mid @ replicate (length vs) None @ rest) =
      Some (as @ map Some vs @ mid @ map Some vs @ rest)"
proof (induction vs arbitrary: as mid s d)
  case (Cons v vs)
  let ?n = "length vs"
  have new: "new_at T d v (as @ map Some (v # vs) @ mid @ None # replicate ?n None @ rest) =
      Some (as @ map Some (v # vs) @ mid @ Some v # replicate ?n None @ rest)"
    using Cons.prems update_middle [of d "as @ map Some (v # vs) @ mid" None _ "Some v"]
    by (simp add: new_at_def nth_append)
  from Cons.IH [of "s + 1" "as @ [Some v]" "d + 1" "mid @ [Some v]"] Cons.prems new show ?case
    by (simp add: read_at_def nth_append)
qed simp

lemma copy_copies:
  "s = length as \<Longrightarrow> d = s + length vs + length mid \<Longrightarrow>
    do_copy T d s (length vs) (as @ map Some vs @ mid @ replicate (length vs) None @ rest) =
      Some (as @ map Some vs @ mid @ map Some vs @ rest)"
  using copy_loop_copies [of s as d vs mid T rest]
  by (simp add: do_copy_def copy_type_def memcpy_items_def memmove_def)

text \<open>Constructing and destroying leave the storage raw, or do nothing for types where there is nothing to do.\<close>

lemma construct_destroy:
  assumes "has_trivial_ctor T = has_trivial_dtor T"
  shows "Option.bind (do_construct T v0 (length as) n (as @ replicate n None @ rest)) (do_destroy T (length as) n) =
    Some (as @ replicate n None @ rest)"
  using assms construct_fills [of "length as" as T v0 n rest] destroy_empties [of "length as" as "replicate n v0" rest]
  by (simp add: do_construct_def do_destroy_def construct_type_def destroy_type_def)

section \<open>Properties\<close>

text \<open>
  C29.  The vector makes room and closes it again by moving items inside one storage: moving all of them up by \<open>g\<close>
  places and down again is right for every combination of traits, although source and target overlap.
  Every item arrives, none is read after it was overwritten or destroyed, none is built over a live one,
  nothing else changes, and where items have destructors the places left behind are raw.
\<close>

theorem storage_gap:
  assumes "0 < g"
  shows "\<exists>hole hole'. length hole = g \<and> length hole' = g \<and>
    do_move_forward T (length as + g) (length as) (length vs) (as @ map Some vs @ replicate g None @ rest) =
      Some (as @ hole @ map Some vs @ rest) \<and>
    do_move_backward T (length as) (length as + g) (length vs) (as @ hole @ map Some vs @ rest) =
      Some (as @ map Some vs @ hole' @ rest) \<and>
    (destroys_source T \<longrightarrow> hole = replicate g None \<and> hole' = replicate g None)"
proof -
  let ?xs = "as @ map Some vs @ replicate g None @ rest"
  have "\<exists>zs. do_move_forward T (length as + g) (length as) (length vs) ?xs = Some zs \<and>
      moved (destroys_source T) (length as + g) (length as) (length vs) ?xs zs"
    using assms by (intro move_forward_moved) (auto simp: nth_append)
  then obtain zs where zs: "do_move_forward T (length as + g) (length as) (length vs) ?xs = Some zs"
      "moved (destroys_source T) (length as + g) (length as) (length (map Some vs)) ?xs zs" by auto
  obtain hole where h: "zs = as @ hole @ map Some vs @ rest" "length hole = g"
      "destroys_source T \<Longrightarrow> k < min g (length vs) \<Longrightarrow> hole ! k = None"
      "destroys_source T \<Longrightarrow> length vs \<le> k \<Longrightarrow> k < g \<Longrightarrow> hole ! k = None" for k
    using moved_up_pieces [OF zs(2)] by (auto simp: less_diff_conv2)
  have raw: "hole = replicate g None" if "destroys_source T"
    using h(2) h(3,4) [OF that] by (intro nth_equalityI) (auto simp: not_less [symmetric])
  have rawk: "hole ! k = None" if "destroys_source T" "k < g" for k
    using raw [OF that(1)] that(2) by (metis nth_replicate)
  have "\<exists>ws. do_move_backward T (length as) (length as + g) (length vs) zs = Some ws \<and>
      moved (destroys_source T) (length as) (length as + g) (length vs) zs ws"
    using assms h(1,2) rawk by (intro move_backward_moved) (auto simp: nth_append destroys_source_def)
  then obtain ws where ws: "do_move_backward T (length as) (length as + g) (length vs) zs = Some ws"
      "moved (destroys_source T) (length as) (length as + g) (length (map Some vs)) (as @ hole @ map Some vs @ rest) ws"
    using h(1) by auto
  obtain hole' where h': "ws = as @ map Some vs @ hole' @ rest" "length hole' = g"
      "destroys_source T \<Longrightarrow> k < g \<Longrightarrow> g \<le> length vs + k \<Longrightarrow> hole' ! k = None"
      "destroys_source T \<Longrightarrow> length vs + k < g \<Longrightarrow> hole' ! k = hole ! (length vs + k)" for k
    using moved_down_pieces [OF ws(2) h(2)] by auto
  have raw': "hole' = replicate g None" if "destroys_source T"
  proof (rule nth_equalityI)
    fix k assume "k < length hole'"
    with h'(2) h'(3,4) [OF that, of k] raw [OF that] show "hole' ! k = replicate g None ! k"
      by (cases "g \<le> length vs + k") simp_all
  qed (simp add: h'(2))
  show ?thesis
    using zs(1) ws(1) h(1,2) h'(1,2) raw raw' by (intro exI [of _ hole] exI [of _ hole']) auto
qed

theorem storage_gap_witness:
  "\<exists>hole hole'. length hole = 1 \<and> length hole' = 1 \<and>
    do_move_forward (traits_of False False False False False) 2 1 2 [Some 9, Some (3 :: int), Some 4, None] =
      Some ([Some 9] @ hole @ [Some 3, Some 4]) \<and>
    do_move_backward (traits_of False False False False False) 1 2 2 ([Some 9] @ hole @ [Some 3, Some 4]) =
      Some ([Some 9, Some 3, Some 4] @ hole')"
  using storage_gap [of 1 "traits_of False False False False False" "[Some 9]" "[3, 4 :: int]" "[]"]
  by (simp add: numeral_2_eq_2) blast

end
