(* ===== verification/Timers.thy ===== *)
theory Timers
  imports Toy_Prelude
begin

text \<open>
  \<^verbatim>\<open>src/hal/include/Timers.h\<close>, the conversions between units of time, and the timed wait of \<^verbatim>\<open>Condition.h\<close> in the
  branch without POSIX clocks, which is the one that is compiled: from the time of day to the moment at
  which the wait ends.  All numbers are signed 64 bit words.
\<close>

type_synonym nsecs_t = "64 word"

text \<open>The C division and remainder of signed 64 bit numbers.\<close>

definition div64 :: "nsecs_t \<Rightarrow> nsecs_t \<Rightarrow> nsecs_t" where
  "div64 a b = word_of_int (sint a sdiv sint b)"

definition mod64 :: "nsecs_t \<Rightarrow> nsecs_t \<Rightarrow> nsecs_t" where
  "mod64 a b = word_of_int (sint a smod sint b)"

definition seconds_to_nanoseconds :: "nsecs_t \<Rightarrow> nsecs_t" where
  "seconds_to_nanoseconds secs = secs * 1000000000"

definition milliseconds_to_nanoseconds :: "nsecs_t \<Rightarrow> nsecs_t" where
  "milliseconds_to_nanoseconds secs = secs * 1000000"

definition microseconds_to_nanoseconds :: "nsecs_t \<Rightarrow> nsecs_t" where
  "microseconds_to_nanoseconds secs = secs * 1000"

definition nanoseconds_to_seconds :: "nsecs_t \<Rightarrow> nsecs_t" where
  "nanoseconds_to_seconds secs = div64 secs 1000000000"

definition nanoseconds_to_milliseconds :: "nsecs_t \<Rightarrow> nsecs_t" where
  "nanoseconds_to_milliseconds secs = div64 secs 1000000"

definition nanoseconds_to_microseconds :: "nsecs_t \<Rightarrow> nsecs_t" where
  "nanoseconds_to_microseconds secs = div64 secs 1000"

text \<open>The moment at which a wait for \<open>reltime\<close> nanoseconds ends, when it is \<open>sec\<close> seconds and \<open>usec\<close> microseconds now.\<close>

record timespec =
  tv_sec :: nsecs_t
  tv_nsec :: nsecs_t

definition wait_deadline :: "nsecs_t \<Rightarrow> nsecs_t \<Rightarrow> nsecs_t \<Rightarrow> timespec" where
  "wait_deadline sec usec reltime =
     (let ts = \<lparr>tv_sec = sec, tv_nsec = usec * 1000\<rparr>;
          ts = ts\<lparr>tv_sec := tv_sec ts + div64 reltime 1000000000\<rparr>;
          ts = ts\<lparr>tv_nsec := tv_nsec ts + mod64 reltime 1000000000\<rparr>
      in if 1000000000 \<le> sint (tv_nsec ts)
         then ts\<lparr>tv_nsec := tv_nsec ts - 1000000000, tv_sec := tv_sec ts + 1\<rparr>
         else ts)"

text \<open>The result is the negated status of \<^verbatim>\<open>pthread_cond_timedwait\<close>, the parameter \<open>timedwait\<close>.\<close>

definition Condition_waitRelative :: "(timespec \<Rightarrow> int) \<Rightarrow> nsecs_t \<Rightarrow> nsecs_t \<Rightarrow> nsecs_t \<Rightarrow> int" where
  "Condition_waitRelative timedwait sec usec reltime = - timedwait (wait_deadline sec usec reltime)"

section \<open>Signed 64 bit arithmetic without overflow\<close>

lemma sint_of_int64: "- (2 ^ 63) \<le> k \<Longrightarrow> k < 2 ^ 63 \<Longrightarrow> sint (word_of_int k :: 64 word) = k"
  by (simp add: signed_of_int signed_take_bit_int_eq_self)

lemma sint_range64: "- (2 ^ 63) \<le> sint (x :: 64 word) \<and> sint x < 2 ^ 63"
  using sint_greater_eq [of x] sint_less [of x] by simp

lemma sint_mult64:
  fixes x y :: "64 word"
  assumes "- (2 ^ 63) \<le> sint x * sint y" "sint x * sint y < 2 ^ 63"
  shows "sint (x * y) = sint x * sint y"
proof -
  have "x * y = word_of_int (sint x * sint y)" by simp
  with assms show ?thesis by (metis sint_of_int64)
qed

lemma sint_add64:
  fixes x y :: "64 word"
  assumes "- (2 ^ 63) \<le> sint x + sint y" "sint x + sint y < 2 ^ 63"
  shows "sint (x + y) = sint x + sint y"
proof -
  have "x + y = word_of_int (sint x + sint y)" by simp
  with assms show ?thesis by (metis sint_of_int64)
qed

lemma sint_sub64:
  fixes x y :: "64 word"
  assumes "- (2 ^ 63) \<le> sint x - sint y" "sint x - sint y < 2 ^ 63"
  shows "sint (x - y) = sint x - sint y"
proof -
  have "x - y = word_of_int (sint x - sint y)" by simp
  with assms show ?thesis by (metis sint_of_int64)
qed

lemma sint_billion: "sint (1000000000 :: 64 word) = 1000000000" "sint (1000000 :: 64 word) = 1000000"
  "sint (1000 :: 64 word) = 1000"
  by simp_all

lemma mult_sdiv_exact: "0 < c \<Longrightarrow> (a * c) sdiv c = (a :: int)"
proof -
  assume c: "0 < c"
  show ?thesis
  proof (cases "0 \<le> a")
    case True
    with c show ?thesis by (simp add: sdiv_pos)
  next
    case False
    with c have "a * c < 0" by (simp add: mult_neg_pos)
    with c show ?thesis by (simp add: sdiv_neg minus_mult_left del: mult_minus_left)
  qed
qed

lemma div64_exact:
  assumes "0 < sint b" "sint (a * b) = sint a * sint b"
  shows "div64 (a * b) b = a"
  using mult_sdiv_exact [OF assms(1), of "sint a"] assms(2) by (simp add: div64_def)

section \<open>Round trips\<close>

text \<open>Converting to nanoseconds and back gives the number itself unless it is too large.\<close>

lemma nanoseconds_roundtrip:
  "\<bar>sint v\<bar> < 9223372036 \<Longrightarrow> nanoseconds_to_seconds (seconds_to_nanoseconds v) = v"
  "\<bar>sint v\<bar> < 9223372036854 \<Longrightarrow> nanoseconds_to_milliseconds (milliseconds_to_nanoseconds v) = v"
  "\<bar>sint v\<bar> < 9223372036854775 \<Longrightarrow> nanoseconds_to_microseconds (microseconds_to_nanoseconds v) = v"
proof -
  have m: "div64 (v * c) c = v" if "\<bar>sint v * sint c\<bar> < 2 ^ 63" "0 < sint c" for c :: nsecs_t
  proof -
    have "sint (v * c) = sint v * sint c" using that by (intro sint_mult64) linarith+
    with that show ?thesis by (intro div64_exact) simp_all
  qed
  show "\<bar>sint v\<bar> < 9223372036 \<Longrightarrow> nanoseconds_to_seconds (seconds_to_nanoseconds v) = v"
    unfolding nanoseconds_to_seconds_def seconds_to_nanoseconds_def by (rule m) (simp_all add: abs_mult)
  show "\<bar>sint v\<bar> < 9223372036854 \<Longrightarrow> nanoseconds_to_milliseconds (milliseconds_to_nanoseconds v) = v"
    unfolding nanoseconds_to_milliseconds_def milliseconds_to_nanoseconds_def by (rule m) (simp_all add: abs_mult)
  show "\<bar>sint v\<bar> < 9223372036854775 \<Longrightarrow> nanoseconds_to_microseconds (microseconds_to_nanoseconds v) = v"
    unfolding nanoseconds_to_microseconds_def microseconds_to_nanoseconds_def by (rule m) (simp_all add: abs_mult)
qed

section \<open>The timed wait\<close>

text \<open>
  For a wait that is not negative the deadline is a proper time, its nanoseconds below one second, and
  is exactly \<open>reltime\<close> after now.
\<close>

theorem wait_deadline_exact:
  assumes "0 \<le> sint sec" "0 \<le> sint usec" "sint usec < 1000000" "0 \<le> sint reltime"
    "sint sec + sint reltime div 1000000000 + 1 < 2 ^ 63"
  shows "let ts = wait_deadline sec usec reltime in
    0 \<le> sint (tv_nsec ts) \<and> sint (tv_nsec ts) < 1000000000 \<and>
    sint (tv_sec ts) * 1000000000 + sint (tv_nsec ts) = sint sec * 1000000000 + sint usec * 1000 + sint reltime"
proof -
  let ?q = "sint reltime div 1000000000" and ?r = "sint reltime mod 1000000000"
  have q: "0 \<le> ?q" "0 \<le> ?r" "?r < 1000000000" "?q * 1000000000 + ?r = sint reltime" "?q \<le> sint reltime"
    using assms(4) zdiv_mono2 [of "sint reltime" 1 1000000000] by simp_all
  have d: "sint (div64 reltime 1000000000) = ?q" "sint (mod64 reltime 1000000000) = ?r"
    using assms(4) q sint_range64 [of reltime] minus_sdiv_mult_eq_smod [of "sint reltime" 1000000000, symmetric]
    by (simp_all add: div64_def mod64_def sdiv_pos sint_of_int64 minus_div_mult_eq_mod)
  let ?n = "usec * 1000 + mod64 reltime 1000000000" and ?s = "sec + div64 reltime 1000000000"
  have u: "sint (usec * 1000) = sint usec * 1000" using assms(2,3) sint_mult64 [of usec 1000] by simp
  have n: "sint ?n = sint usec * 1000 + ?r" using assms(2,3) u d(2) q(2,3) sint_add64 [of "usec * 1000" "mod64 reltime 1000000000"] by simp
  have s: "sint ?s = sint sec + ?q" using assms(1,5) d(1) q(1) sint_add64 [of sec "div64 reltime 1000000000"] by simp
  have ts: "wait_deadline sec usec reltime = (if 1000000000 \<le> sint ?n
      then \<lparr>tv_sec = ?s + 1, tv_nsec = ?n - 1000000000\<rparr> else \<lparr>tv_sec = ?s, tv_nsec = ?n\<rparr>)"
    by (simp add: wait_deadline_def Let_def)
  have range: "0 \<le> sint ?n" "sint ?n < 2000000000" using n assms(2,3) q(2,3) by simp_all
  have total: "sint ?s * 1000000000 + sint ?n = sint sec * 1000000000 + sint usec * 1000 + sint reltime"
    unfolding n s using q(4) by (simp add: algebra_simps)
  show ?thesis
  proof (cases "1000000000 \<le> sint ?n")
    case True
    have "sint (?n - 1000000000) = sint ?n - 1000000000" using True range sint_sub64 [of ?n 1000000000] by simp
    moreover have "sint (?s + 1) = sint ?s + 1" using assms(1,5) q(1) s sint_add64 [of ?s 1] by simp
    ultimately show ?thesis
      unfolding ts using True range total by (simp only: if_True Let_def timespec.simps) (simp add: algebra_simps)
  next
    case False
    with range total show ?thesis unfolding ts by (simp only: if_False Let_def timespec.simps) simp
  qed
qed

theorem wait_deadline_exact_witness:
  "let ts = wait_deadline 7 999999 1500 in sint (tv_nsec ts) < 1000000000 \<and>
    sint (tv_sec ts) * 1000000000 + sint (tv_nsec ts) = 8000000500"
  using wait_deadline_exact [of 7 999999 1500] by (simp add: Let_def)

text \<open>A negative wait may end in a time with negative nanoseconds, which the kernel refuses.\<close>

lemma wait_deadline_negative: "sint (tv_nsec (wait_deadline 7 0 (- 1))) = - 1"
proof -
  have "div64 (- 1) 1000000000 = 0" "mod64 (- 1) 1000000000 = - 1"
    by (simp_all add: div64_def mod64_def sdiv_pos sdiv_neg minus_sdiv_mult_eq_smod [symmetric])
  then show ?thesis by (simp add: wait_deadline_def Let_def)
qed

end
