(* ===== verification/Spec2Isabelle.thy ===== *)
theory Spec2Isabelle
  imports State_Machine_Driver Simple_Io_Driver Engine_Driver Sensor_Driver Boot Static_Pools Camera_Vendors Queue_Threads
    Type_Helpers Timers
begin

text \<open>
  A toy robot on a single board computer: two motors (rows of LEDs), a temperature sensor, a button,
  and a few processes that drive them.  This library models its C and C++ code and proves what
  makes it work, and what makes it fail.

  \<^bold>\<open>The system.\<close>  \<^verbatim>\<open>src/main.c\<close> creates six message queues and starts three processes.  The system
  server (\<^verbatim>\<open>src/system/system_server.c\<close>) runs a thread for each queue: the engine thread hands the
  messages of the back end to the motor objects of \<^verbatim>\<open>src/engine\<close>, two instances of a state machine
  framework, which make requests to the engine driver; the monitor thread reads the sensor data from
  shared memory (\<^verbatim>\<open>src/system/shared_memory.c\<close>) and reports it to the back end, or dumps the state of
  the system (\<^verbatim>\<open>src/system/dump_state.c\<close>); the camera thread loads a library (\<^verbatim>\<open>src/hal/hardware.c\<close>)
  of one of two vendors (\<^verbatim>\<open>src/hal/toy\<close>, \<^verbatim>\<open>src/hal/oem\<close>) and calls the functions of its table; the first has
  two threads of its own, with message queues between them; the disk thread watches a directory.  The input process (\<^verbatim>\<open>src/ui/input.c\<close>) is a shell, with a thread that
  copies the temperature from sysfs into shared memory.  The web process (\<^verbatim>\<open>src/web_server\<close>) becomes the
  back end.  Four kernel modules (\<^verbatim>\<open>src/drivers\<close>) own the hardware.

  \<^bold>\<open>How programs are modelled.\<close>  A function that calls the kernel or the C library is a state
  transformer (\<open>State_Monad\<close>) over a record with the static variables of its file and the list of the
  calls made so far, each with its answer.  What a call answers is the parameter \<open>E\<close>, a function of
  that list: no behaviour of foreign code is fixed.  A theorem that needs a documented behaviour
  (a cancelled timer does not fire; the device can be opened) has it as a named hypothesis, and its
  witness shows an \<open>E\<close> that has it.  Machine integers are words of their width.  A failing assertion, an exit, an
  access outside of a buffer and a wait that never ends are values of a sum type.  Concurrency is a
  sequence of events: one event is one handler, or one step of a thread between two accesses to shared
  variables, and the theorems are about all sequences.

  \<^bold>\<open>The theories.\<close>
    \<^item> \<open>Toy_Prelude\<close>: integers, programs with calls, proof rules for them (what they emit, what they keep,
      weakest preconditions), runs of events, and the locales \<open>kept_by\<close> and \<open>total_under\<close> for invariants.
    \<^item> \<open>Kernel_Calls\<close>: the kernel interface; what a list of calls means for pins, timers and resources; the
      locales \<open>led_bank\<close>, \<open>led_pair\<close>, \<open>gpio_registration\<close>, \<open>module_session\<close> and \<open>loadable_module\<close>, interpreted on
      the drivers.
    \<^item> \<open>Engine_Driver\<close>, \<open>State_Machine_Driver\<close>, \<open>Simple_Io_Driver\<close>, \<open>Sensor_Driver\<close>: one driver each, every
      function of the file.  Shown: the emergency stop, the effect of every request, when the
      two halves of a motor are lit together; that the click handlers implement the gestures of the user on every
      interleaving; that the LEDs follow the example of the kernel thread, its progress, which rests on the wake ups, and its race
      with unloading; the exactness of the 32 bit compensation; and for all what a load, a
      failed load and an unload leave behind.
    \<^item> \<open>User_Calls\<close>: the operating system interface and the messages of \<^verbatim>\<open>src/toy_message.h\<close>.
    \<^item> \<open>State_Engine\<close>: the framework of \<^verbatim>\<open>StateMachine.h\<close> and \<^verbatim>\<open>StateMachine.cpp\<close>; its two engines agree.
    \<^item> \<open>Motor_Engine\<close>: both motors and \<^verbatim>\<open>Engine.cpp\<close>, with an abstract specification (modes and requests) which
      they refine through the locale \<open>motor_machine\<close>.
    \<^item> \<open>Fixed_Allocator\<close>, \<open>Xallocator\<close>: the block allocator and the replacement of malloc, on a memory of byte
      cells in which the free list lives; clients get blocks that do not overlap and keep their
      contents (locale \<open>block_store\<close>).  \<open>Static_Pools\<close>: the other mode of \<^verbatim>\<open>xallocator.cpp\<close>, and which requests it serves.
    \<^item> \<open>Shared_Memory\<close>, \<open>Dump_State\<close>, \<open>Input_Shell\<close>, \<open>System_Server\<close>, \<open>Boot\<close>: the processes.  Shown: the tokenizer,
      the commands, the threads on every sequence of messages, the directory walk, the order of the start
      and which process is which.
    \<^item> \<open>Linked_List\<close>, \<open>Message_Queue\<close>: \<^verbatim>\<open>List_comm.h\<close>, pointer by pointer on a memory of nodes, refines lists and
      keeps its rings; \<^verbatim>\<open>MessageQueue.h\<close> on top of it delivers in order (locale \<open>fifo\<close>).
    \<^item> \<open>Queue_Threads\<close>: any number of senders and receivers on one queue, step by step, with the mutex and the
      condition variable of \<^verbatim>\<open>Mutex.h\<close> and \<^verbatim>\<open>Condition.h\<close>.  Shown: mutual exclusion, that every message is handed to
      one receiver in order, and that no wake up is lost, by a measure every step makes smaller.
    \<^item> \<open>Type_Helpers\<close>, \<open>Timers\<close>: the loops of \<^verbatim>\<open>TypeHelpers.h\<close> with which \<^verbatim>\<open>Vector.h\<close> constructs, copies and moves items, right
      although the ranges overlap; the units of \<^verbatim>\<open>Timers.h\<close> and the moment at which a timed wait ends.
    \<^item> \<open>Camera_Hal\<close>, \<open>Camera_Vendors\<close>: the libraries of \<^verbatim>\<open>src/hal/toy\<close>, with the thread class of \<^verbatim>\<open>src/hal/utils\<close>,
      and of \<^verbatim>\<open>src/hal/oem\<close> and \<^verbatim>\<open>src/hal/old\<close>.  Shown: every picture is reported exactly once on every interleaving
      of the client and the two threads; both vendors keep the contract of the module table (locale
      \<open>camera_module\<close>); what the calls of the system server, which never opens the module, do to each;
      a failed start, and that the threads never end.
    \<^item> This theory: the properties that span components, from the messages of the back end to the timers of
      the driver, from the shell to the driver, and from the sensor to the back end.

  \<^bold>\<open>Loops.\<close>  A loop over something that is handed in (lines, messages, directory entries, wake ups) is
  primitive recursion over the list of these; when the list is used up the thread waits forever, the
  value \<open>Hang\<close>.  The loops of the state engines, of the destructor of the allocator, of the child handler
  and over linked nodes, which may not end, are \<open>partial_function (option)\<close>, and that they end is proved.  No function uses fuel.

  \<^bold>\<open>Not modelled.\<close>  Text that is only printed (except by the state dump, the crash handler and the
  two small camera libraries, whose purpose it is); of the Android headers under \<^verbatim>\<open>src/hal/include\<close> the
  base class of the vector, whose functions are declared there and defined nowhere in the repository, and
  the functions that only pass their arguments on to it; \<^verbatim>\<open>tryLock\<close>, \<^verbatim>\<open>broadcast\<close> and
  \<^verbatim>\<open>handleMessageExit\<close>, which nothing calls; the list operations under threads other than those of the queue; the back end (Go), the front end (TypeScript) and the cloud service
  (JavaScript), which are reached through the two message queues only.  Handlers, writes to a device and kernel
  functions are whole events, except where a theory says that it looks inside: an interrupt in the middle of a
  callback is not modelled.  Error pointers that a driver takes for a class are resources it does not hold; the
  crash of the kernel on them is left out.  The default \<^verbatim>\<open>(MessageId) -1\<close> of \<^verbatim>\<open>MessageQueue::send\<close> is read as -1.
\<close>

section \<open>From the messages of the back end to the motors\<close>

text \<open>
  What the driver knows of its two motors: whether the timer is armed, and the speed.  \<open>follow\<close> is
  what a request does to it.
\<close>

type_synonym motor_view = "(bool \<times> s32) \<times> (bool \<times> s32)"

definition view :: "engine_state \<Rightarrow> motor_view" where
  "view s = ((MOTOR_1_HRTIMER \<in> armed (trace s), motor_1_speed s),
     (MOTOR_2_HRTIMER \<in> armed (trace s), motor_2_speed s))"

definition follow :: "u32 \<times> s32 \<Rightarrow> motor_view \<Rightarrow> motor_view" where
  "follow = (\<lambda>(cmd, v) ((on1, v1), (on2, v2)).
     if cmd = Engine_Driver.MOTOR_1_START_SPEED then ((True, v), (on2, v2))
     else if cmd = Engine_Driver.MOTOR_1_SET_SPEED then ((on1, v), (on2, v2))
     else if cmd = Engine_Driver.MOTOR_1_HALT then ((False, v1), (on2, v2))
     else if cmd = Engine_Driver.MOTOR_2_START_SPEED then ((on1, v1), (True, v))
     else if cmd = Engine_Driver.MOTOR_2_SET_SPEED then ((on1, v1), (on2, v))
     else if cmd = Engine_Driver.MOTOR_2_HALT then ((on1, v1), (False, v2))
     else ((on1, v1), (on2, v2)))"

fun ioctls :: "engine_event list \<Rightarrow> (u32 \<times> s32) list" where
  "ioctls [] = []"
| "ioctls (Engine_Driver.Ioctl cmd v # es) = (cmd, v) # ioctls es"
| "ioctls (_ # es) = ioctls es"

text \<open>The two programs and the shell agree with the driver on the codes of the requests.\<close>

lemma codes_agree:
  "Motor_Engine.MOTOR_1_START_SPEED = Engine_Driver.MOTOR_1_START_SPEED"
  "Motor_Engine.MOTOR_2_START_SPEED = Engine_Driver.MOTOR_2_START_SPEED"
  "Motor_Engine.MOTOR_1_SET_SPEED = Engine_Driver.MOTOR_1_SET_SPEED"
  "Motor_Engine.MOTOR_2_SET_SPEED = Engine_Driver.MOTOR_2_SET_SPEED"
  "Motor_Engine.MOTOR_1_HALT = Engine_Driver.MOTOR_1_HALT"
  "Motor_Engine.MOTOR_2_HALT = Engine_Driver.MOTOR_2_HALT"
  "Input_Shell.MOTOR_1_SET_SPEED = Engine_Driver.MOTOR_1_START_SPEED"
  "Input_Shell.MOTOR_2_SET_SPEED = Engine_Driver.MOTOR_2_START_SPEED"
  by (simp_all add: Motor_Engine.MOTOR_1_START_SPEED_def Motor_Engine.MOTOR_2_START_SPEED_def
      Motor_Engine.MOTOR_1_SET_SPEED_def Motor_Engine.MOTOR_2_SET_SPEED_def
      Motor_Engine.MOTOR_1_HALT_def Motor_Engine.MOTOR_2_HALT_def motor_codes_defs
      Input_Shell.MOTOR_1_SET_SPEED_def Input_Shell.MOTOR_2_SET_SPEED_def)

text \<open>A system call interface that always copies the argument of a request in.\<close>

definition copies :: "kenv \<Rightarrow> bool" where
  "copies K \<longleftrightarrow> (\<forall>s. copied K s)"

lemma ioctl_view:
  assumes "cancels K" "copies K"
  shows "view (exec (toy_ioctl K cmd v) s) = follow (cmd, v) (view s)"
proof -
  have c: "copied K s" using assms(2) by (simp add: copies_def)
  show ?thesis
    using ioctl_armed_exact [OF assms(1) c, of cmd v] ioctl_speeds [OF c, of cmd v]
    by (auto simp: view_def follow_def motor_codes)
qed

lemma run_view:
  assumes "cancels K" "copies K"
  shows "run_events (engine_step K) es s = Some s' \<Longrightarrow> Button \<notin> set es \<Longrightarrow>
    view s' = fold follow (ioctls es) (view s)"
proof (induction es arbitrary: s)
  case (Cons e es)
  have "view (exec (motor_1_timer_callback K) u) = view u" "view (exec (motor_2_timer_callback K) u) = view u" for u
    by (simp_all add: view_def callback_1_armed callback_2_armed callback_speeds)
  with Cons show ?case
    by (cases e) (auto simp: engine_step_def ioctl_view [OF assms] split: if_splits)
qed simp

text \<open>
  The mode the engine believes a motor to be in against the view of the driver.  They agree from the
  first command on that sets the speed of the motor; until then the engine takes it for stopped.
\<close>

definition agree :: "motor_mode \<Rightarrow> bool \<times> s32 \<Rightarrow> bool" where
  "agree m = (\<lambda>(on, v). case m of Stopped \<Rightarrow> \<not> on | Running w \<Rightarrow> on \<and> v = w)"

definition in_step :: "bool \<Rightarrow> bool \<Rightarrow> motor_mode \<times> motor_mode \<Rightarrow> motor_view \<Rightarrow> bool" where
  "in_step left right = (\<lambda>(r, l) (w1, w2).
     (if left then agree l w1 else l = Stopped) \<and> (if right then agree r w2 else r = Stopped))"

definition sets_left :: "engine_command list \<Rightarrow> bool" where
  "sets_left cs \<longleftrightarrow> (\<exists>v. Set_left v \<in> set cs)"

definition sets_right :: "engine_command list \<Rightarrow> bool" where
  "sets_right cs \<longleftrightarrow> (\<exists>v. Set_right v \<in> set cs)"

lemma in_step_command:
  assumes "in_step left right a w"
  shows "in_step (left \<or> (\<exists>v. c = Set_left v)) (right \<or> (\<exists>v. c = Set_right v))
    (spec_next c a) (fold follow (spec_out c a) w)"
proof -
  obtain r l where a: "a = (r, l)" by force
  obtain on1 v1 on2 v2 where w: "w = ((on1, v1), (on2, v2))" by (metis surj_pair)
  show ?thesis
    using assms
    by (cases c; cases r; cases l)
      (auto simp: a w in_step_def agree_def follow_def codes_agree motor_codes split: if_splits)
qed

lemma in_step_commands:
  "in_step left right a w \<Longrightarrow>
     in_step (left \<or> sets_left cs) (right \<or> sets_right cs)
       (fold spec_next cs a) (fold follow (spec_requests_from a cs) w)"
proof (induction cs arbitrary: left right a w)
  case Nil
  then show ?case by (simp add: sets_left_def sets_right_def)
next
  case (Cons c cs)
  have "(left \<or> (\<exists>v. c = Set_left v)) \<or> sets_left cs \<longleftrightarrow> left \<or> sets_left (c # cs)"
    "(right \<or> (\<exists>v. c = Set_right v)) \<or> sets_right cs \<longleftrightarrow> right \<or> sets_right (c # cs)"
    by (auto simp: sets_left_def sets_right_def)
  with Cons.IH [OF in_step_command [OF Cons.prems, of c]] show ?case by simp
qed

text \<open>
  C1.  From the back end to the hardware: the engine thread of the system server serves any messages,
  the requests it makes reach the driver in order, interleaved in any way with the callbacks of the
  timers.  Then every motor whose speed was set at least once is in the driver what the engine takes
  it for: after a speed its timer is armed and the driver has that speed, after a halt the timer is
  off.
\<close>

theorem messages_reach_motors:
  assumes "receiving E" "device_ok E" "cancels K" "copies K"
    and "run_events (engine_step K) es (Engine_Driver.booted K) = Some s'" "Button \<notin> set es"
    and "ioctls es = requests (trace (hal_world (engine (exec (engine_thread E msgs) system_initial))))"
  shows "let cs = List.map_filter engine_command msgs; (r, l) = spec_modes cs in
    (sets_left cs \<longrightarrow> (case l of
        Stopped \<Rightarrow> MOTOR_1_HRTIMER \<notin> armed (trace s')
      | Running v \<Rightarrow> MOTOR_1_HRTIMER \<in> armed (trace s') \<and> motor_1_speed s' = v)) \<and>
    (sets_right cs \<longrightarrow> (case r of
        Stopped \<Rightarrow> MOTOR_2_HRTIMER \<notin> armed (trace s')
      | Running v \<Rightarrow> MOTOR_2_HRTIMER \<in> armed (trace s') \<and> motor_2_speed s' = v))"
proof -
  let ?cs = "List.map_filter engine_command msgs"
  have i: "simulates (Stopped, Stopped) (engine system_initial)"
    using initial_simulates by (simp add: system_initial_def)
  have "requests (trace (hal_world (engine (exec (engine_thread E msgs) system_initial)))) =
      spec_requests_from (Stopped, Stopped) ?cs"
    using engine_thread_runs [OF assms(1) i, of msgs] engine_run_simulates [OF i, of E ?cs] assms(2)
    by (auto simp: system_initial_def engine_objects_initial_def)
  then have v: "view s' = fold follow (spec_requests_from (Stopped, Stopped) ?cs) (view (Engine_Driver.booted K))"
    using run_view [OF assms(3,4,5,6)] assms(7) by simp
  have "in_step False False (Stopped, Stopped) (view (Engine_Driver.booted K))"
    by (simp add: in_step_def view_def)
  from in_step_commands [OF this, of ?cs] v
  have step: "in_step (sets_left ?cs) (sets_right ?cs) (spec_modes ?cs) (view s')"
    by (simp add: spec_modes_def)
  obtain r l where modes: "spec_modes ?cs = (r, l)" by force
  show ?thesis
    using step by (simp add: modes Let_def in_step_def view_def agree_def split: motor_mode.splits if_splits)
qed

theorem messages_reach_motors_witness:
  "\<exists>s'. run_events (engine_step obliging) [Engine_Driver.Ioctl Engine_Driver.MOTOR_2_START_SPEED 30, Timer_2,
       Engine_Driver.Ioctl Engine_Driver.MOTOR_2_HALT 0] (Engine_Driver.booted obliging) = Some s' \<and>
     MOTOR_2_HRTIMER \<notin> armed (trace s')"
proof -
  let ?es = "[Engine_Driver.Ioctl Engine_Driver.MOTOR_2_START_SPEED 30, Timer_2,
    Engine_Driver.Ioctl Engine_Driver.MOTOR_2_HALT 0]"
  have c: "copies obliging" "receiving ready_device" "device_ok ready_device"
    by (simp_all add: copies_def receiving_def device_ok_def ready_device_def)
  obtain s' where s': "run_events (engine_step obliging) ?es (Engine_Driver.booted obliging) = Some s'"
    using ioctl_armed_start_2 [OF obliging_copied, of 30 "Engine_Driver.booted obliging"] by (auto simp: engine_step_def)
  have cs: "List.map_filter engine_command demo_messages = [Set_right 30, Halt_right]"
    by (simp add: demo_messages_def engine_command_def map_filter_simps
        MESSAGE_ID_ENGINE_def MESSAGE_ID_INFO_def LEFT_MOTOR_def RIGHT_MOTOR_def)
  have i: "simulates (Stopped, Stopped) (engine system_initial)"
    using initial_simulates by (simp add: system_initial_def)
  have "requests (trace (hal_world (engine (exec (engine_thread ready_device demo_messages) system_initial)))) =
      spec_requests_from (Stopped, Stopped) [Set_right 30, Halt_right]"
    using engine_thread_runs [OF c(2) i, of demo_messages]
      engine_run_simulates [OF i, of ready_device "[Set_right 30, Halt_right]"] c(3) cs
    by (auto simp: system_initial_def engine_objects_initial_def)
  then have "ioctls ?es =
      requests (trace (hal_world (engine (exec (engine_thread ready_device demo_messages) system_initial))))"
    by (simp add: codes_agree)
  from messages_reach_motors [OF c(2,3) obliging_cancels c(1) s' _ this] cs
  have "MOTOR_2_HRTIMER \<notin> armed (trace s')"
    by (simp add: spec_modes_def sets_right_def sets_left_def)
  with s' show ?thesis by blast
qed

section \<open>Halting a motor that was never started\<close>

lemma wp_init_armed:
  "wp (Engine_Driver.toy_module_init K)
     (\<lambda>r s'. r = 0 \<longrightarrow> {MOTOR_1_HRTIMER, MOTOR_2_HRTIMER} \<subseteq> armed (trace s')) s"
  unfolding Engine_Driver.toy_module_init_def engine_error_exits
  by (intro wp_intros) (auto split: if_splits)

lemma halts_only:
  "\<forall>c \<in> set cs. c = Halt_left \<or> c = Halt_right \<Longrightarrow> spec_requests_from (Stopped, Stopped) cs = []"
  by (induction cs) auto

text \<open>
  C39.  Loading the driver sets both motors going, and the engine does not know: as long as no speed was
  set, messages that halt a motor are dropped by its state machine, no request is made, and both
  timers stay armed.
\<close>

theorem halt_ignored_after_load:
  assumes "receiving E" "device_ok E" "result (Engine_Driver.toy_module_init K) engine_initial = 0"
    and "\<forall>c \<in> set (List.map_filter engine_command msgs). c = Halt_left \<or> c = Halt_right"
  shows "requests (trace (hal_world (engine (exec (engine_thread E msgs) system_initial)))) = [] \<and>
    {MOTOR_1_HRTIMER, MOTOR_2_HRTIMER} \<subseteq> armed (trace (Engine_Driver.booted K))"
proof -
  have i: "simulates (Stopped, Stopped) (engine system_initial)"
    using initial_simulates by (simp add: system_initial_def)
  have "requests (trace (hal_world (engine (exec (engine_thread E msgs) system_initial)))) = []"
    using engine_thread_runs [OF assms(1) i, of msgs]
      engine_run_simulates [OF i, of E "List.map_filter engine_command msgs"] assms(2)
      halts_only [OF assms(4)]
    by (auto simp: system_initial_def engine_objects_initial_def)
  moreover have "{MOTOR_1_HRTIMER, MOTOR_2_HRTIMER} \<subseteq> armed (trace (Engine_Driver.booted K))"
    using wp_init_armed [of K engine_initial] assms(3)
    by (simp add: wp_def Engine_Driver.booted_def case_prod_beta)
  ultimately show ?thesis by blast
qed

theorem halt_ignored_after_load_witness:
  "MOTOR_1_HRTIMER \<in> armed (trace (Engine_Driver.booted obliging)) \<and>
   requests (trace (hal_world (engine (exec (engine_thread ready_device
     [\<lparr>rm_id = MESSAGE_ID_ENGINE, unit_id = LEFT_MOTOR, motor_speed = 0, info_temperature = 0\<rparr>]) system_initial)))) = []"
proof -
  have "receiving ready_device" "device_ok ready_device"
    by (simp_all add: receiving_def device_ok_def ready_device_def)
  from halt_ignored_after_load [OF this obliging_boot(1),
      of "[\<lparr>rm_id = MESSAGE_ID_ENGINE, unit_id = LEFT_MOTOR, motor_speed = 0, info_temperature = 0\<rparr>]"]
  show ?thesis by (simp add: engine_command_def map_filter_simps)
qed

section \<open>From the shell to the motors\<close>

definition serve_requests :: "kenv \<Rightarrow> (u32 \<times> s32) list \<Rightarrow> engine_state \<Rightarrow> engine_state" where
  "serve_requests K = fold (\<lambda>(cmd, v). exec (toy_ioctl K cmd v))"

definition clamp :: "s32 \<Rightarrow> s32" where
  "clamp v = (if 100 <s v then 100 else v)"

lemma sint_clamp: "sint (clamp v) = min 100 (sint v)"
  by (simp add: clamp_def word_sless_alt min_def)

text \<open>
  C21.  The shell: \<^verbatim>\<open>m1\<close> and \<^verbatim>\<open>m2\<close> set the speed of their motor to their argument, cut down to 100 but
  not up to 0, and also start it when it stands: what the shell calls setting the speed is the
  driver's start request.  The other motor is not touched.
\<close>

theorem shell_sets_motor:
  assumes "device_ok E" "cancels K" "copies K"
  shows "let new = (\<lambda>cmd. drop (length (requests (trace s)))
       (requests (trace (exec (toy_execute E F (cmd # a # rest)) s)))) in
    view (serve_requests K (new ''m1'') d) = ((True, clamp (atoi a)), snd (view d)) \<and>
    view (serve_requests K (new ''m2'') d) = (fst (view d), (True, clamp (atoi a))) \<and>
    sint (clamp (atoi a)) = min 100 (sint (atoi a))"
proof -
  have o: "0 \<le> E (trace s) (File (Open ''/dev/toy_engine_driver''))"
    using assms(1) by (simp add: device_ok_def)
  show ?thesis
    using motor_command_requests [where E = E and s = s and F = F and a = a and rest = rest, OF o]
    by (simp add: Let_def serve_requests_def ioctl_view [OF assms(2,3)] codes_agree sint_clamp
        clamp_def [symmetric])
      (simp add: follow_def motor_codes split: prod.split)
qed

theorem shell_sets_motor_witness:
  "view (serve_requests obliging
     (requests (trace (exec (toy_execute ready_device sample_facts [''m1'', ''140'']) input_initial)))
     engine_initial) = ((True, 100), (False, 1))"
proof -
  have c: "copies obliging" "device_ok ready_device"
    by (simp_all add: copies_def device_ok_def ready_device_def)
  have "atoi ''140'' = 140"
    by (simp add: atoi_def strtol10_def c_isspace_def is_digit_def digits_value_def)
  with shell_sets_motor [OF c(2) obliging_cancels c(1), of input_initial sample_facts "''140''" "[]" engine_initial]
  show ?thesis
    by (simp add: Let_def input_initial_def view_def engine_initial_def clamp_def word_sless_alt)
qed

section \<open>From the sensor to the back end\<close>

text \<open>
  C19.  The way of a temperature: what the driver shows in sysfs is read back by the input process as
  the same number, wherever the rest of its buffer comes from, and the monitor, reading the shared
  segment, reports a hundredth of it, rounded towards zero, to the back end.
\<close>

theorem temperature_reaches_back_end:
  assumes "\<And>r. r \<in> answers E (File (Read fd 100)) \<Longrightarrow> 0 \<le> r" "the_sensor_info i \<noteq> 0"
    and "msg_type msg = System_Server.SENSOR_DATA" "0 \<le> sint (param1 msg)"
    and "\<And>h. E' h (Memory (Shmat (sint (param1 msg)))) = ptr" "0 < ptr"
    and "\<And>h m. E' h (Queue (MqSend (System_Server.backend_queue u) m)) = 0"
  shows "let shown = fst (result (show_attr Notify) s);
             seg = sensor_segment (exec (sensor_round E fd shmid (shown @ old)) i)
    in temp seg = attr_value (notify s) \<and>
       sent (trace (exec (serve_monitor E' date files (msg, seg)) u)) = sent (trace u) @
         [(System_Server.backend_queue u, Robot_info MESSAGE_ID_INFO 12341234
            (word_of_int (sint (attr_value (notify s)) sdiv 100)))]"
proof -
  let ?v = "sint (attr_value (notify s))"
  have range: "- (2 ^ 31) \<le> ?v" "?v < 2 ^ 31" using sint_range32 [of "attr_value (notify s)"] by auto
  have shown: "fst (result (show_attr Notify) s) @ old = show_int ?v @ CHR 0x0A # old"
    by (simp add: show_attr_def attribute_of_def exec_simps)
  have "atoi (show_int ?v @ CHR 0x0A # old) = attr_value (notify s)"
    using strtol_show_int [OF range, of "CHR 0x0A # old"] by (simp add: atoi_def is_digit_def)
  moreover have "\<not> E h (File (Read fd 100)) < 0" for h
    using assms(1) [of "E h (File (Read fd 100))"] by (force simp: answers_def)
  ultimately have seg: "sensor_segment (exec (sensor_round E fd shmid (show_int ?v @ CHR 0x0A # old)) i) =
      \<lparr>temp = attr_value (notify s), press = 11, humidity = 80\<rparr>"
    using assms(2) by (simp add: sensor_round_def exec_simps)
  have "sint (100 :: s32) = 100" by simp
  with assms(3-7) seg show ?thesis
    by (simp add: shown Let_def serve_monitor_def toy_shm_attach_def toy_shm_detach_def exec_simps c_div_def)
qed

theorem temperature_reaches_back_end_witness:
  "let shown = fst (result (show_attr Notify) (sensor_initial\<lparr>notify := \<lparr>attr_name = ''notify'', attr_value = 2345\<rparr>\<rparr>));
       seg = sensor_segment (exec (sensor_round quiet_system 3 7 (shown @ []))
         (input_initial\<lparr>the_sensor_info := 4096\<rparr>))
   in sent (trace (exec (serve_monitor monitor_demo [] (\<lambda>_. \<lparr>pieces = [], stamp = [], open_error = []\<rparr>)
        (\<lparr>msg_type = System_Server.SENSOR_DATA, param1 = 7, param2 = 0\<rparr>, seg)) system_initial)) =
     [(0, Robot_info MESSAGE_ID_INFO 12341234 23)]"
proof -
  let ?i = "input_initial\<lparr>the_sensor_info := 4096\<rparr>" and ?m = "\<lparr>msg_type = System_Server.SENSOR_DATA, param1 = 7, param2 = 0\<rparr>"
  let ?s = "sensor_initial\<lparr>notify := \<lparr>attr_name = ''notify'', attr_value = 2345\<rparr>\<rparr>"
  have "\<And>r. r \<in> answers quiet_system (File (Read 3 100)) \<Longrightarrow> 0 \<le> r" "the_sensor_info ?i \<noteq> 0"
    "msg_type ?m = System_Server.SENSOR_DATA" "0 \<le> sint (param1 ?m)"
    "\<And>h. monitor_demo h (Memory (Shmat (sint (param1 ?m)))) = 4096" "(0::int) < 4096"
    "\<And>h m. monitor_demo h (Queue (MqSend (System_Server.backend_queue system_initial) m)) = 0"
    by (auto simp: answers_def quiet_system_def monitor_demo_def)
  from temperature_reaches_back_end [OF this, where s = ?s and shmid = 7 and old = "[]" and date = "[]"
      and files = "\<lambda>_. \<lparr>pieces = [], stamp = [], open_error = []\<rparr>"]
  show ?thesis by (simp add: Let_def system_initial_def sdiv_pos)
qed

end
